(* ===== verification/Prelude.thy ===== *)
theory Prelude
  imports Main "HOL-Library.Word"
begin

text \<open>
  Shared material of the development: the model's basic types (bytes, the results of
  fallible Rust functions), the \<open>?\<close> operator as a combinator on state-passing results,
  the machine limits of a 64-bit target, the byte encodings of machine integers
  (\<open>to_be_bytes\<close>, \<open>from_le_bytes\<close>, \<dots>) with their round trips, and the list lemmas that
  several components use.
\<close>

unbundle bit_operations_syntax

section \<open>Basic types\<close>

type_synonym u8 = "8 word"
type_synonym u16 = "16 word"
type_synonym u32 = "32 word"
type_synonym u64 = "64 word"
type_synonym bytes = "u8 list"

text \<open>
  The outcome of a Rust function that returns a \<open>Result\<close>: a value, an error, or a panic.
  Both build profiles of the crate set \<open>panic = "abort"\<close>, so a panic ends the process and
  the state that accompanies \<open>Panic\<close> means nothing. Arithmetic that overflows panics, as
  the overflow checks of the dev profile do.
\<close>

datatype ('e, 'a) rs = Ok 'a | Err 'e | Panic

text \<open>The \<open>?\<close> operator: continue with the value and the state, or leave with the error.\<close>

fun and_then :: "('e, 'a) rs \<times> 's \<Rightarrow> ('a \<Rightarrow> 's \<Rightarrow> ('e, 'b) rs \<times> 's) \<Rightarrow> ('e, 'b) rs \<times> 's" where
  "and_then (Ok a, s) k = k a s"
| "and_then (Err e, s) k = (Err e, s)"
| "and_then (Panic, s) k = (Panic, s)"

text \<open>The error conversion that \<open>?\<close> (through \<open>From\<close>) and \<open>map_err\<close> perform.\<close>

fun map_err :: "('e \<Rightarrow> 'f) \<Rightarrow> ('e, 'a) rs \<times> 's \<Rightarrow> ('f, 'a) rs \<times> 's" where
  "map_err f (Ok a, s) = (Ok a, s)"
| "map_err f (Err e, s) = (Err (f e), s)"
| "map_err f (Panic, s) = (Panic, s)"

fun map_ok :: "('a \<Rightarrow> 'b) \<Rightarrow> ('e, 'a) rs \<times> 's \<Rightarrow> ('e, 'b) rs \<times> 's" where
  "map_ok f (Ok a, s) = (Ok (f a), s)"
| "map_ok f (Err e, s) = (Err e, s)"
| "map_ok f (Panic, s) = (Panic, s)"

text \<open>Lift an operation on the reader to the state of a frame and a reader.\<close>

fun on_snd :: "('r \<Rightarrow> ('e, 'a) rs \<times> 'r) \<Rightarrow> 'f \<times> 'r \<Rightarrow> ('e, 'a) rs \<times> ('f \<times> 'r)" where
  "on_snd g (f, r) = (case g r of (x, r') \<Rightarrow> (x, (f, r')))"

lemma and_then_OkE:
  assumes "and_then x k = (Ok b, t)"
  obtains a s where "x = (Ok a, s)" and "k a s = (Ok b, t)"
  using assms by (cases x; cases "fst x") auto

lemma map_err_OkD: "map_err f x = (Ok a, s) \<Longrightarrow> x = (Ok a, s)"
  by (cases x; cases "fst x") auto

lemma map_ok_OkE:
  assumes "map_ok f x = (Ok b, s)"
  obtains a where "x = (Ok a, s)" and "b = f a"
  using assms by (cases x; cases "fst x") auto

named_theorems rs_elims
declare and_then_OkE [rs_elims] map_ok_OkE [rs_elims]

text \<open>
  \<open>safe P x\<close>: the outcome is not a panic and the state satisfies \<open>P\<close>, error or not.
\<close>

definition safe :: "('s \<Rightarrow> bool) \<Rightarrow> ('e, 'a) rs \<times> 's \<Rightarrow> bool" where
  "safe P x \<longleftrightarrow> fst x \<noteq> Panic \<and> P (snd x)"

lemma safe_simps [simp]:
  "safe P (Ok a, s) \<longleftrightarrow> P s" "safe P (Err e, s) \<longleftrightarrow> P s" "\<not> safe P (Panic, s)"
  by (simp_all add: safe_def)

lemma safe_bind:
  assumes "safe P x" and "\<And>a s. x = (Ok a, s) \<Longrightarrow> P s \<Longrightarrow> safe P (k a s)"
  shows "safe P (and_then x k)"
  using assms by (cases x; cases "fst x") auto

lemma safe_map_err [simp]: "safe P (map_err f x) \<longleftrightarrow> safe P x"
  by (cases x; cases "fst x") auto

lemma safe_map_ok [simp]: "safe P (map_ok f x) \<longleftrightarrow> safe P x"
  by (cases x; cases "fst x") auto

lemma safe_on_snd: "safe (\<lambda>r. P (f, r)) (g r) \<Longrightarrow> safe P (on_snd g (f, r))"
  by (cases "g r"; cases "fst (g r)") auto

section \<open>Machine limits\<close>

text \<open>\<open>usize\<close> is 64 bits wide; allocations and slices hold at most \<open>isize::MAX\<close> bytes.\<close>

definition usize_lim :: nat where
  "usize_lim = 18446744073709551616"

definition isize_max :: nat where
  "isize_max = 9223372036854775807"

lemma usize_lim_pow: "usize_lim = 2 ^ 64"
  by (simp add: usize_lim_def)

section \<open>Text\<close>

text \<open>A literal of the source as its ASCII bytes.\<close>

definition ascii :: "string \<Rightarrow> bytes" where
  "ascii s = map of_char s"

lemma length_ascii [simp]: "length (ascii s) = length s"
  by (simp add: ascii_def)

section \<open>Lists\<close>

text \<open>Overwrite a stretch of a list in place, as a \<open>memcpy\<close> into a block does.\<close>

definition overwrite :: "'a list \<Rightarrow> nat \<Rightarrow> 'a list \<Rightarrow> 'a list" where
  "overwrite xs i ys = take i xs @ ys @ drop (i + length ys) xs"

lemma length_overwrite [simp]:
  "i + length ys \<le> length xs \<Longrightarrow> length (overwrite xs i ys) = length xs"
  by (simp add: overwrite_def)

lemma take_overwrite:
  "i \<le> length xs \<Longrightarrow> take (i + length ys) (overwrite xs i ys) = take i xs @ ys"
  by (simp add: overwrite_def)

lemma overwrite_0 [simp]: "overwrite xs 0 ys = ys @ drop (length ys) xs"
  by (simp add: overwrite_def)

lemma overwrite_all: "length ys = length xs \<Longrightarrow> overwrite xs 0 ys = ys"
  by simp

lemma take_append_exact: "n = length xs \<Longrightarrow> take n (xs @ ys) = xs"
  by simp

lemma drop_append_exact: "n = length xs \<Longrightarrow> drop n (xs @ ys) = ys"
  by simp

section \<open>Bytes of machine integers\<close>

lemma unat_u8_less: "unat (p :: u8) < 256"
  using unsigned_less [of p] by simp

fun from_le_bytes :: "bytes \<Rightarrow> 'a::len word" where
  "from_le_bytes [] = 0"
| "from_le_bytes (b # bs) = ucast b OR push_bit 8 (from_le_bytes bs)"

definition from_be_bytes :: "bytes \<Rightarrow> 'a::len word" where
  "from_be_bytes bs = from_le_bytes (rev bs)"

definition to_le_bytes :: "'a::len word \<Rightarrow> bytes" where
  "to_le_bytes w = map (\<lambda>i. ucast (drop_bit (8 * i) w)) [0..<LENGTH('a) div 8]"

definition to_be_bytes :: "'a::len word \<Rightarrow> bytes" where
  "to_be_bytes w = rev (to_le_bytes w)"

lemma length_to_le_bytes [simp]: "length (to_le_bytes (w :: 'a::len word)) = LENGTH('a) div 8"
  by (simp add: to_le_bytes_def)

lemma length_to_be_bytes [simp]: "length (to_be_bytes (w :: 'a::len word)) = LENGTH('a) div 8"
  by (simp add: to_be_bytes_def)

lemma bit_from_le_bytes:
  "bit (from_le_bytes bs :: 'a::len word) n \<longleftrightarrow>
     n < LENGTH('a) \<and> n div 8 < length bs \<and> bit (bs ! (n div 8)) (n mod 8)"
proof (induction bs arbitrary: n)
  case Nil
  then show ?case by simp
next
  case (Cons b bs)
  show ?case
  proof (cases "n < 8")
    case True
    then show ?thesis by (auto simp: bit_simps)
  next
    case False
    then have "n div 8 = Suc ((n - 8) div 8)" and "n mod 8 = (n - 8) mod 8"
      by (auto simp: le_div_geq le_mod_geq)
    with False Cons.IH [of "n - 8"] show ?thesis
      by (auto simp: bit_simps dest: bit_imp_le_length)
  qed
qed

text \<open>The round trip of the little-endian encoding, for every whole number of bytes.\<close>

lemma from_le_to_le:
  assumes "8 dvd LENGTH('a)"
  shows "from_le_bytes (to_le_bytes w) = (w :: 'a::len word)"
proof (rule bit_word_eqI)
  fix n assume n: "n < LENGTH('a)"
  from assms n have "n div 8 < LENGTH('a) div 8"
    by (auto elim!: dvdE)
  with n show "bit (from_le_bytes (to_le_bytes w) :: 'a word) n \<longleftrightarrow> bit w n"
    by (simp add: bit_from_le_bytes to_le_bytes_def bit_simps)
qed

lemma from_be_to_be:
  "8 dvd LENGTH('a) \<Longrightarrow> from_be_bytes (to_be_bytes w) = (w :: 'a::len word)"
  by (simp add: from_be_bytes_def to_be_bytes_def from_le_to_le)

lemma from_le_to_le_u64 [simp]: "from_le_bytes (to_le_bytes w) = (w :: u64)"
  by (simp add: from_le_to_le)

lemma from_be_to_be_u16 [simp]: "from_be_bytes (to_be_bytes w) = (w :: u16)"
  by (simp add: from_be_to_be)

lemma from_be_to_be_u32 [simp]: "from_be_bytes (to_be_bytes w) = (w :: u32)"
  by (simp add: from_be_to_be)

lemma from_be_to_be_u64 [simp]: "from_be_bytes (to_be_bytes w) = (w :: u64)"
  by (simp add: from_be_to_be)

text \<open>The converse: bytes survive the trip through a word that is wide enough.\<close>

lemma to_le_from_le:
  assumes "length bs * 8 = LENGTH('a)"
  shows "to_le_bytes (from_le_bytes bs :: 'a::len word) = bs"
proof (rule nth_equalityI)
  show "length (to_le_bytes (from_le_bytes bs :: 'a word)) = length bs"
    using assms by (simp flip: assms)
next
  fix i assume "i < length (to_le_bytes (from_le_bytes bs :: 'a word))"
  then have i: "i < length bs" by (simp flip: assms)
  show "to_le_bytes (from_le_bytes bs :: 'a word) ! i = bs ! i"
  proof (rule bit_word_eqI)
    fix k assume k: "k < LENGTH(8)"
    with i have "8 * i + k < length bs * 8" by simp
    with assms have "8 * i + k < LENGTH('a)" by simp
    with i k assms show "bit (to_le_bytes (from_le_bytes bs :: 'a word) ! i) k = bit (bs ! i) k"
      by (auto simp: to_le_bytes_def bit_simps bit_from_le_bytes simp flip: assms)
  qed
qed

lemma to_be_from_be:
  "length bs * 8 = LENGTH('a) \<Longrightarrow> to_be_bytes (from_be_bytes bs :: 'a::len word) = bs"
  using to_le_from_le [of "rev bs", where 'a = 'a]
  by (simp add: from_be_bytes_def to_be_bytes_def)

text \<open>
  The big-endian bytes of a 32-bit word start with its top byte, which is zero for a value
  of 24 bits.
\<close>

lemma to_be_bytes_u32:
  "to_be_bytes (w :: u32) =
     [ucast (drop_bit 24 w), ucast (drop_bit 16 w), ucast (drop_bit 8 w), ucast w]"
  by (simp add: to_be_bytes_def to_le_bytes_def upt_rec)

lemma mask24_top: "(ucast (drop_bit 24 ((w :: u32) AND 0x00FFFFFF)) :: u8) = 0"
proof (rule bit_word_eqI)
  fix n assume "n < LENGTH(8)"
  have "(0x00FFFFFF :: u32) = mask 24" by (simp add: mask_eq_decr_exp)
  then show "bit (ucast (drop_bit 24 (w AND 0x00FFFFFF)) :: u8) n \<longleftrightarrow> bit (0 :: u8) n"
    by (simp only:) (auto simp: bit_simps)
qed

lemma u24_bytes:
  "to_be_bytes ((w :: u32) AND 0x00FFFFFF) = 0 # drop 1 (to_be_bytes (w AND 0x00FFFFFF))"
  by (simp add: to_be_bytes_u32 mask24_top)

lemma mask_small: "(w :: 'a::len word) < 2 ^ n \<Longrightarrow> w AND mask n = w"
  by (simp add: less_mask_eq)

lemma and_24: "(w :: u32) < 0x1000000 \<Longrightarrow> w AND 0x00FFFFFF = w"
  using mask_small [of w 24] by (simp add: mask_eq_decr_exp)

lemma and_31: "(w :: u32) < 0x80000000 \<Longrightarrow> w AND 0x7FFFFFFF = w"
  using mask_small [of w 31] by (simp add: mask_eq_decr_exp)

lemma and_31_less: "(w :: u32) AND 0x7FFFFFFF < 0x80000000"
  using and_mask_less' [of 31 w] by (simp add: mask_eq_decr_exp)

end
