(* ===== verification/Buffer.thy ===== *)
theory Buffer
  imports Prelude "HOL-Library.Multiset"
begin

text \<open>
  \<open>http/src/buffer.rs\<close>: the growable byte buffer with its own allocator, the borrowed
  \<open>ConstBuffer\<close>, and the exported C functions over them.

  A block of memory is the list of its bytes; the null pointer is \<open>None\<close>. Besides the
  source's fields the record \<open>buffer\<close> keeps \<open>b_calls\<close>, the calls the buffer has made on its
  allocator so far, so that the allocation discipline (every block is freed once, with the
  size it was allocated with) can be stated. An operation that panics or aborts returns
  \<open>None\<close>.

  Groups of lemmas: growth of the capacity (\<open>grow_cap_\<close>\dots), preservation of the invariant
  \<open>wf_buffer\<close> (\<open>wf_\<close>\dots), the contents after each operation (\<open>\<dots>_slice\<close>), success when the
  allocator serves (\<open>\<dots>_total\<close>), and the interface \<open>byte_vec\<close>, which the clients use.
\<close>

section \<open>Allocators\<close>

text \<open>
  An allocator returns a block for a requested size, with whatever bytes it holds; \<open>None\<close>
  means that it returned null (the callers assert that it did not) or aborted itself.
  \<open>free\<close> has no result; that it was called, and how, is recorded in \<open>b_calls\<close>.
\<close>

record allocator =
  alloc_fn :: "nat \<Rightarrow> bytes option"

datatype alloc_call = AllocCall nat | FreeCall bool nat
  \<comment> \<open>\<open>FreeCall p n\<close>: \<open>free\<close> of a non-null (\<open>p\<close>) or null pointer with length \<open>n\<close>\<close>

text \<open>
  \<open>internal_alloc\<close>: a zero length fails its assertion, a length above \<open>isize::MAX\<close> has no
  layout, and exhaustion ends in \<open>handle_alloc_error\<close>. The system allocator is the
  parameter \<open>os\<close>.
\<close>

definition internal_alloc :: "(nat \<Rightarrow> bytes option) \<Rightarrow> nat \<Rightarrow> bytes option" where
  "internal_alloc os len =
     (if len = 0 then None else if len > isize_max then None else os len)"

definition http_internal_allocator :: "(nat \<Rightarrow> bytes option) \<Rightarrow> allocator" where
  "http_internal_allocator os = \<lparr>alloc_fn = internal_alloc os\<rparr>"

section \<open>Borrowed buffers\<close>

record const_buffer =
  c_len :: nat
  c_buf :: "bytes option"

definition const_is_sane :: "const_buffer \<Rightarrow> bool" where
  "const_is_sane c \<longleftrightarrow> c_buf c \<noteq> None \<or> (c_buf c = None \<and> c_len c = 0)"

definition const_as_slice :: "const_buffer \<Rightarrow> bytes" where
  "const_as_slice c = take (c_len c) (case c_buf c of None \<Rightarrow> [] | Some xs \<Rightarrow> xs)"

definition const_from :: "bytes \<Rightarrow> const_buffer" where
  "const_from v = \<lparr>c_len = length v, c_buf = Some v\<rparr>"

section \<open>Owned buffers\<close>

record buffer =
  b_len :: nat
  b_cap :: nat
  b_buf :: "bytes option"
  b_alloc :: allocator
  b_calls :: "alloc_call list"

definition cells :: "buffer \<Rightarrow> bytes" where
  "cells b = (case b_buf b of None \<Rightarrow> [] | Some xs \<Rightarrow> xs)"

definition as_slice :: "buffer \<Rightarrow> bytes" where
  "as_slice b = take (b_len b) (cells b)"

definition is_sane :: "buffer \<Rightarrow> bool" where
  "is_sane b \<longleftrightarrow>
     (b_buf b \<noteq> None \<and> b_cap b > 0 \<and> b_len b \<le> b_cap b) \<or>
     (b_buf b = None \<and> b_len b = 0 \<and> b_cap b = 0)"

text \<open>\<open>while new_cap < len { new_cap += new_cap.max(1) }\<close>\<close>

function grow_cap :: "nat \<Rightarrow> nat \<Rightarrow> nat option" where
  "grow_cap new_cap len =
     (if new_cap < len
      then (if new_cap + max new_cap 1 < usize_lim
            then grow_cap (new_cap + max new_cap 1) len else None)
      else Some new_cap)"
  by pat_completeness auto
termination
  by (relation "measure (\<lambda>(new_cap, len). len - new_cap)") auto

declare grow_cap.simps [simp del]

definition reserve_len :: "buffer \<Rightarrow> nat \<Rightarrow> buffer option" where
  "reserve_len b len =
     (case grow_cap (b_cap b) len of
        None \<Rightarrow> None
      | Some new_cap \<Rightarrow>
          if new_cap \<noteq> b_cap b
          then (case alloc_fn (b_alloc b) new_cap of
                  None \<Rightarrow> None
                | Some new_buf \<Rightarrow>
                    Some (b\<lparr>b_buf := Some (overwrite new_buf 0 (as_slice b)),
                            b_cap := new_cap,
                            b_calls := b_calls b
                              @ [AllocCall new_cap, FreeCall (b_buf b \<noteq> None) (b_cap b)]\<rparr>))
          else Some b)"

definition reserve :: "buffer \<Rightarrow> nat \<Rightarrow> buffer option" where
  "reserve b additional =
     (if b_len b + additional < usize_lim then reserve_len b (b_len b + additional) else None)"

definition push_slice :: "buffer \<Rightarrow> bytes \<Rightarrow> buffer option" where
  "push_slice b sl =
     (if length sl = 0 then Some b
      else (case reserve b (length sl) of
              None \<Rightarrow> None
            | Some b' \<Rightarrow>
                Some (b'\<lparr>b_buf := Some (overwrite (cells b') (b_len b') sl),
                         b_len := b_len b' + length sl\<rparr>)))"

definition push :: "buffer \<Rightarrow> u8 \<Rightarrow> buffer option" where
  "push b v =
     (case (if b_len b = b_cap b then reserve b 1 else Some b) of
        None \<Rightarrow> None
      | Some b' \<Rightarrow>
          Some (b'\<lparr>b_buf := Some (overwrite (cells b') (b_len b') [v]),
                   b_len := b_len b' + 1\<rparr>))"

definition clear :: "buffer \<Rightarrow> buffer" where
  "clear b = b\<lparr>b_len := 0\<rparr>"

definition copy_slice :: "buffer \<Rightarrow> bytes \<Rightarrow> buffer option" where
  "copy_slice b sl = push_slice (b\<lparr>b_len := 0\<rparr>) sl"

text \<open>
  \<open>Extend::extend\<close> over an iterator whose \<open>size_hint\<close> is exact, as the ring buffer's is:
  a full buffer reserves for the elements that are left and the one in hand.
\<close>

definition saturating_add :: "nat \<Rightarrow> nat \<Rightarrow> nat" where
  "saturating_add a b = min (a + b) (usize_lim - 1)"

fun extend :: "buffer \<Rightarrow> bytes \<Rightarrow> buffer option" where
  "extend b [] = Some b"
| "extend b (x # xs) =
     (case (if b_len b = b_cap b then reserve b (saturating_add (length xs) 1) else Some b) of
        None \<Rightarrow> None
      | Some b' \<Rightarrow> (case push b' x of None \<Rightarrow> None | Some b'' \<Rightarrow> extend b'' xs))"

definition http_new_buffer_with :: "nat \<Rightarrow> allocator \<Rightarrow> buffer option" where
  "http_new_buffer_with len A =
     (if len > 0
      then (case alloc_fn A len of
              None \<Rightarrow> None
            | Some p \<Rightarrow> Some \<lparr>b_len = 0, b_cap = len, b_buf = Some p, b_alloc = A,
                              b_calls = [AllocCall len]\<rparr>)
      else Some \<lparr>b_len = 0, b_cap = len, b_buf = None, b_alloc = A, b_calls = []\<rparr>)"

definition http_new_buffer :: "(nat \<Rightarrow> bytes option) \<Rightarrow> nat \<Rightarrow> buffer option" where
  "http_new_buffer os len = http_new_buffer_with len (http_internal_allocator os)"

definition http_clear_buffer :: "buffer option \<Rightarrow> buffer option" where
  "http_clear_buffer buffer =
     (case buffer of
        None \<Rightarrow> None
      | Some b \<Rightarrow>
          if \<not> is_sane b then None
          else Some (b\<lparr>b_len := 0, b_cap := 0, b_buf := None,
                       b_calls := b_calls b @ [FreeCall (b_buf b \<noteq> None) (b_cap b)]\<rparr>))"

text \<open>
  \<open>is_nonoverlapping\<close> of \<open>http/src/lib.rs\<close>, on addresses, and the two exported functions
  that check it. A pointer argument that is null or misaligned is \<open>None\<close>; the addresses of
  the two blocks are arguments.
\<close>

definition is_nonoverlapping :: "nat \<Rightarrow> nat \<Rightarrow> nat \<Rightarrow> nat \<Rightarrow> bool" where
  "is_nonoverlapping dst dst_len src src_len \<longleftrightarrow>
     saturating_add dst dst_len \<le> src \<or> saturating_add src src_len \<le> dst"

definition http_copy_buffer ::
  "nat \<Rightarrow> buffer option \<Rightarrow> nat \<Rightarrow> const_buffer \<Rightarrow> buffer option" where
  "http_copy_buffer dst_addr dst src_addr src =
     (case dst of
        None \<Rightarrow> None
      | Some d \<Rightarrow>
          if \<not> const_is_sane src then None
          else if \<not> is_sane d then None
          else if \<not> is_nonoverlapping dst_addr (b_cap d) src_addr (c_len src) then None
          else copy_slice d (const_as_slice src))"

definition http_buffer_push_slice ::
  "nat \<Rightarrow> buffer option \<Rightarrow> nat \<Rightarrow> const_buffer \<Rightarrow> buffer option" where
  "http_buffer_push_slice dst_addr dst src_addr src =
     (case dst of
        None \<Rightarrow> None
      | Some d \<Rightarrow>
          if \<not> const_is_sane src then None
          else if \<not> is_sane d then None
          else if \<not> is_nonoverlapping dst_addr (b_cap d) src_addr (c_len src) then None
          else push_slice d (const_as_slice src))"

section \<open>The growth of the capacity\<close>

lemma grow_cap_ge: "grow_cap c len = Some c' \<Longrightarrow> len \<le> c' \<and> c \<le> c'"
proof (induction c len rule: grow_cap.induct)
  case (1 c len)
  then show ?case
    by (auto simp: grow_cap.simps [of c len] split: if_splits)
qed

lemma grow_cap_keep: "len \<le> c \<Longrightarrow> grow_cap c len = Some c"
  by (simp add: grow_cap.simps [of c len])

lemma grow_cap_bound:
  "grow_cap c len = Some c' \<Longrightarrow> c < len \<Longrightarrow> c' < 2 * len"
proof (induction c len rule: grow_cap.induct)
  case (1 c len)
  have step: "grow_cap (c + max c 1) len = Some c'"
    using "1.prems" by (auto simp: grow_cap.simps [of c len] split: if_splits)
  show ?case
  proof (cases "c + max c 1 < len")
    case True
    with step "1.prems" "1.IH" show ?thesis
      by (auto simp: grow_cap.simps [of c len] split: if_splits)
  next
    case False
    with step have "c' = c + max c 1" by (simp add: grow_cap_keep)
    with "1.prems"(2) show ?thesis by (auto simp: max_def split: if_splits)
  qed
qed

lemma grow_cap_lim:
  "grow_cap c len = Some c' \<Longrightarrow> c < usize_lim \<Longrightarrow> c' < usize_lim"
proof (induction c len rule: grow_cap.induct)
  case (1 c len)
  then show ?case
    by (auto simp: grow_cap.simps [of c len] split: if_splits)
qed

lemma grow_cap_total: "2 * len \<le> usize_lim \<Longrightarrow> \<exists>c'. grow_cap c len = Some c'"
proof (induction c len rule: grow_cap.induct)
  case (1 c len)
  show ?case
  proof (cases "c < len")
    case True
    with "1.prems" have "c + max c 1 < usize_lim"
      by (auto simp: max_def usize_lim_def)
    with "1.IH" True "1.prems" show ?thesis
      by (simp add: grow_cap.simps [of c len])
  next
    case False
    then show ?thesis by (simp add: grow_cap_keep)
  qed
qed

text \<open>The capacity grows by doubling: every result is the start times a power of two.\<close>

lemma grow_cap_power:
  "grow_cap c len = Some c' \<Longrightarrow> 0 < c \<Longrightarrow> \<exists>k. c' = c * 2 ^ k"
proof (induction c len rule: grow_cap.induct)
  case (1 c len)
  show ?case
  proof (cases "c < len")
    case True
    with "1.prems" have "grow_cap (c + max c 1) len = Some c'" and "c + max c 1 = c * 2"
      and "c + max c 1 < usize_lim"
      by (auto simp: grow_cap.simps [of c len] max_def split: if_splits)
    with True "1.IH" "1.prems"(2) obtain k where "c' = (c + c) * 2 ^ k"
      by auto
    then show ?thesis by (intro exI [of _ "Suc k"]) (simp add: algebra_simps)
  next
    case False
    with "1.prems" show ?thesis by (intro exI [of _ 0]) (simp add: grow_cap_keep)
  qed
qed

section \<open>The invariant\<close>

text \<open>
  The live blocks of an allocator after a sequence of calls, as the multiset of their
  sizes; \<open>None\<close> when a call frees something that is not live with that size. Freeing null
  does nothing and must carry length zero.
\<close>

fun replay :: "nat multiset \<Rightarrow> alloc_call list \<Rightarrow> nat multiset option" where
  "replay m [] = Some m"
| "replay m (AllocCall n # cs) = replay (add_mset n m) cs"
| "replay m (FreeCall False n # cs) = (if n = 0 then replay m cs else None)"
| "replay m (FreeCall True n # cs) = (if n \<in># m then replay (m - {#n#}) cs else None)"

lemma replay_append:
  "replay m (xs @ ys) = (case replay m xs of None \<Rightarrow> None | Some m' \<Rightarrow> replay m' ys)"
  by (induction m xs rule: replay.induct) auto

definition wf_alloc :: "allocator \<Rightarrow> bool" where
  "wf_alloc A \<longleftrightarrow> (\<forall>n xs. alloc_fn A n = Some xs \<longrightarrow> length xs = n)"

text \<open>The allocator has memory for every block of at most \<open>lim\<close> bytes.\<close>

definition serves :: "allocator \<Rightarrow> nat \<Rightarrow> bool" where
  "serves A lim \<longleftrightarrow> (\<forall>n. 0 < n \<and> n \<le> lim \<longrightarrow> alloc_fn A n \<noteq> None)"

definition live_blocks :: "buffer \<Rightarrow> nat multiset" where
  "live_blocks b = (if b_buf b = None then {#} else {#b_cap b#})"

definition wf_buffer :: "buffer \<Rightarrow> bool" where
  "wf_buffer b \<longleftrightarrow>
     is_sane b \<and> length (cells b) = b_cap b \<and> b_cap b < usize_lim \<and>
     wf_alloc (b_alloc b) \<and> replay {#} (b_calls b) = Some (live_blocks b)"

lemma wf_sane: "wf_buffer b \<Longrightarrow> is_sane b"
  by (simp add: wf_buffer_def)

lemma wf_len_cells: "wf_buffer b \<Longrightarrow> b_len b \<le> length (cells b)"
  by (auto simp: wf_buffer_def is_sane_def)

lemma wf_length_slice: "wf_buffer b \<Longrightarrow> length (as_slice b) = b_len b"
  using wf_len_cells [of b] by (simp add: as_slice_def)

text \<open>Changing the length within the capacity, and the block's bytes, keeps the invariant.\<close>

lemma wf_set_len: "wf_buffer b \<Longrightarrow> n \<le> b_cap b \<Longrightarrow> wf_buffer (b\<lparr>b_len := n\<rparr>)"
  by (auto simp: wf_buffer_def is_sane_def cells_def live_blocks_def)

lemma wf_store:
  assumes "wf_buffer b" and "length xs = b_cap b" and "n \<le> b_cap b" and "0 < b_cap b"
  shows "wf_buffer (b\<lparr>b_buf := Some xs, b_len := n\<rparr>)"
  using assms by (auto simp: wf_buffer_def is_sane_def cells_def live_blocks_def)

lemma wf_clear: "wf_buffer b \<Longrightarrow> wf_buffer (clear b)"
  by (simp add: clear_def wf_set_len)

lemma clear_slice [simp]: "as_slice (clear b) = []"
  by (simp add: clear_def as_slice_def)

lemma clear_alloc [simp]: "b_alloc (clear b) = b_alloc b"
  by (simp add: clear_def)

section \<open>Reserving\<close>

lemma reserve_len_keeps_len: "reserve_len b n = Some b' \<Longrightarrow> b_len b' = b_len b"
  by (auto simp: reserve_len_def split: option.splits if_splits)

lemma reserve_len_cap: "reserve_len b n = Some b' \<Longrightarrow> n \<le> b_cap b' \<and> b_cap b \<le> b_cap b'"
  by (auto simp: reserve_len_def dest: grow_cap_ge split: option.splits if_splits)

lemma reserve_len_cap_bound:
  "reserve_len b n = Some b' \<Longrightarrow> b_cap b < n \<Longrightarrow> b_cap b' < 2 * n"
  by (auto simp: reserve_len_def dest: grow_cap_bound split: option.splits if_splits)

lemma reserve_len_alloc: "reserve_len b n = Some b' \<Longrightarrow> b_alloc b' = b_alloc b"
  by (auto simp: reserve_len_def split: option.splits if_splits)

lemma reserve_len_slice:
  assumes wf: "wf_buffer b" and res: "reserve_len b n = Some b'"
  shows "as_slice b' = as_slice b"
proof (cases "b' = b")
  case False
  with res obtain c new cs where
    b': "b' = b\<lparr>b_buf := Some (overwrite new 0 (as_slice b)), b_cap := c, b_calls := cs\<rparr>"
    by (auto simp: reserve_len_def split: option.splits if_splits)
  show ?thesis
    using wf_length_slice [OF wf] by (simp add: b' as_slice_def [of "_\<lparr>b_calls := _\<rparr>"] cells_def)
qed simp

lemma wf_reserve_len:
  assumes wf: "wf_buffer b" and res: "reserve_len b n = Some b'"
  shows "wf_buffer b'"
proof -
  from res obtain c where c: "grow_cap (b_cap b) n = Some c"
    by (auto simp: reserve_len_def split: option.splits)
  have lim: "c < usize_lim"
    using grow_cap_lim [OF c] wf by (simp add: wf_buffer_def)
  show ?thesis
  proof (cases "c = b_cap b")
    case True
    with res c wf show ?thesis by (simp add: reserve_len_def)
  next
    case False
    with c grow_cap_ge [OF c] have pos: "b_cap b < c" by simp
    from res c False obtain new where new: "alloc_fn (b_alloc b) c = Some new"
      and b': "b' = b\<lparr>b_buf := Some (overwrite new 0 (as_slice b)), b_cap := c,
                 b_calls := b_calls b @ [AllocCall c, FreeCall (b_buf b \<noteq> None) (b_cap b)]\<rparr>"
      by (auto simp: reserve_len_def split: option.splits)
    have "length new = c" using wf new by (auto simp: wf_buffer_def wf_alloc_def)
    moreover have "b_len b \<le> c"
      using wf pos by (auto simp: wf_buffer_def is_sane_def)
    ultimately show ?thesis
      using wf pos lim wf_length_slice [OF wf]
      by (cases "b_buf b = None")
        (auto simp: wf_buffer_def is_sane_def b' cells_def live_blocks_def replay_append)
  qed
qed

lemma reserve_len_total:
  assumes "wf_buffer b" and "serves (b_alloc b) lim" and "2 * n \<le> lim" and "lim \<le> usize_lim"
  shows "\<exists>b'. reserve_len b n = Some b'"
proof -
  from assms(3,4) have "2 * n \<le> usize_lim" by simp
  then obtain c where c: "grow_cap (b_cap b) n = Some c"
    using grow_cap_total by blast
  show ?thesis
  proof (cases "c = b_cap b")
    case True
    with c show ?thesis by (simp add: reserve_len_def)
  next
    case False
    with c grow_cap_keep [of n "b_cap b"] have "b_cap b < n" by (cases "n \<le> b_cap b") auto
    with grow_cap_bound [OF c] grow_cap_ge [OF c] assms(3) have "0 < c \<and> c \<le> lim" by auto
    with assms(2) obtain new where "alloc_fn (b_alloc b) c = Some new"
      by (auto simp: serves_def)
    with c show ?thesis by (auto simp: reserve_len_def)
  qed
qed

section \<open>Appending\<close>

lemma reserve_eq:
  "reserve b n = Some b' \<Longrightarrow> reserve_len b (b_len b + n) = Some b'"
  by (simp add: reserve_def split: if_splits)

lemma store_slice:
  assumes "b_len b + length sl \<le> length (cells b)"
  shows "as_slice (b\<lparr>b_buf := Some (overwrite (cells b) (b_len b) sl),
                      b_len := b_len b + length sl\<rparr>) = as_slice b @ sl"
  using assms by (simp add: as_slice_def cells_def take_overwrite)

lemma wf_store_slice:
  assumes "wf_buffer b" and "b_len b + length sl \<le> b_cap b" and "0 < b_cap b"
  shows "wf_buffer (b\<lparr>b_buf := Some (overwrite (cells b) (b_len b) sl),
                      b_len := b_len b + length sl\<rparr>)"
  using assms by (intro wf_store) (auto simp: wf_buffer_def)

lemma push_slice_cases:
  assumes "push_slice b sl = Some b'" and "sl \<noteq> []"
  obtains r where "reserve_len b (b_len b + length sl) = Some r"
    and "b' = r\<lparr>b_buf := Some (overwrite (cells r) (b_len r) sl), b_len := b_len r + length sl\<rparr>"
  using assms by (auto simp: push_slice_def dest: reserve_eq split: option.splits)

lemma push_slice_wf_slice:
  assumes wf: "wf_buffer b" and p: "push_slice b sl = Some b'"
  shows "wf_buffer b'" and "as_slice b' = as_slice b @ sl"
proof -
  have "wf_buffer b' \<and> as_slice b' = as_slice b @ sl"
  proof (cases "sl = []")
    case True
    with p wf show ?thesis by (simp add: push_slice_def)
  next
    case False
    obtain r where r: "reserve_len b (b_len b + length sl) = Some r"
      and b': "b' = r\<lparr>b_buf := Some (overwrite (cells r) (b_len r) sl),
                      b_len := b_len r + length sl\<rparr>"
      using push_slice_cases [OF p False] .
    have wr: "wf_buffer r" by (rule wf_reserve_len [OF wf r])
    have cap: "b_len r + length sl \<le> b_cap r"
      using reserve_len_cap [OF r] reserve_len_keeps_len [OF r] by simp
    have "b_cap r = length (cells r)" using wr by (simp add: wf_buffer_def)
    with wr cap False show ?thesis
      unfolding b' using reserve_len_slice [OF wf r]
      by (auto intro!: wf_store_slice simp: store_slice)
  qed
  then show "wf_buffer b'" and "as_slice b' = as_slice b @ sl" by auto
qed

lemmas wf_push_slice = push_slice_wf_slice(1)
lemmas push_slice_slice = push_slice_wf_slice(2)

lemma push_slice_alloc: "push_slice b sl = Some b' \<Longrightarrow> b_alloc b' = b_alloc b"
  by (auto simp: push_slice_def dest!: reserve_eq reserve_len_alloc
      split: option.splits if_splits)

lemma push_slice_total:
  assumes "wf_buffer b" and "serves (b_alloc b) lim"
    and "2 * (b_len b + length sl) \<le> lim" and "lim \<le> usize_lim"
  shows "\<exists>b'. push_slice b sl = Some b'"
proof (cases "sl = []")
  case True
  then show ?thesis by (simp add: push_slice_def)
next
  case False
  obtain r where "reserve_len b (b_len b + length sl) = Some r"
    using reserve_len_total [OF assms] by blast
  moreover have "b_len b + length sl < usize_lim"
    using assms(3,4) False by (cases sl) auto
  ultimately show ?thesis by (simp add: push_slice_def reserve_def)
qed

text \<open>\<open>push\<close> of one byte does what \<open>push_slice\<close> of that byte does.\<close>

lemma reserve_keep:
  assumes "b_len b + n \<le> b_cap b" and "b_cap b < usize_lim"
  shows "reserve b n = Some b"
  using assms by (simp add: reserve_def reserve_len_def grow_cap_keep)

lemma push_eq_push_slice:
  assumes "wf_buffer b"
  shows "push b v = push_slice b [v]"
proof (cases "b_len b = b_cap b")
  case True
  then show ?thesis by (simp add: push_def push_slice_def split: option.splits)
next
  case False
  with assms have "b_len b + 1 \<le> b_cap b" and "b_cap b < usize_lim"
    by (auto simp: wf_buffer_def is_sane_def)
  with False reserve_keep [of b 1] show ?thesis by (simp add: push_def push_slice_def)
qed

lemma wf_push: "wf_buffer b \<Longrightarrow> push b v = Some b' \<Longrightarrow> wf_buffer b'"
  by (simp add: push_eq_push_slice wf_push_slice)

lemma push_as_slice: "wf_buffer b \<Longrightarrow> push b v = Some b' \<Longrightarrow> as_slice b' = as_slice b @ [v]"
  by (simp add: push_eq_push_slice push_slice_slice)

section \<open>Copying, extending, creating, freeing\<close>

lemma copy_slice_wf_slice:
  assumes "wf_buffer b" and "copy_slice b sl = Some b'"
  shows "wf_buffer b'" and "as_slice b' = sl"
proof -
  have wf: "wf_buffer (b\<lparr>b_len := 0\<rparr>)" using assms(1) by (simp add: wf_set_len)
  with assms(2) show "wf_buffer b'" by (auto simp: copy_slice_def intro: wf_push_slice)
  show "as_slice b' = sl"
    using push_slice_slice [OF wf] assms(2) by (simp add: copy_slice_def as_slice_def)
qed

lemmas wf_copy_slice = copy_slice_wf_slice(1)
lemmas copy_slice_slice = copy_slice_wf_slice(2)

lemma copy_slice_total:
  assumes "wf_buffer b" and "serves (b_alloc b) lim" and "2 * length sl \<le> lim"
    and "lim \<le> usize_lim"
  shows "\<exists>b'. copy_slice b sl = Some b'"
  using push_slice_total [of "b\<lparr>b_len := 0\<rparr>" lim sl] assms
  by (simp add: copy_slice_def wf_set_len)

lemma wf_reserve: "wf_buffer b \<Longrightarrow> reserve b n = Some b' \<Longrightarrow> wf_buffer b'"
  by (auto dest: reserve_eq intro: wf_reserve_len)

lemma reserve_slice: "wf_buffer b \<Longrightarrow> reserve b n = Some b' \<Longrightarrow> as_slice b' = as_slice b"
  by (auto dest: reserve_eq intro: reserve_len_slice)

lemma extend_wf_slice:
  "wf_buffer b \<Longrightarrow> extend b xs = Some b' \<Longrightarrow> wf_buffer b' \<and> as_slice b' = as_slice b @ xs"
proof (induction xs arbitrary: b)
  case Nil
  then show ?case by simp
next
  case (Cons x xs)
  let ?r = "if b_len b = b_cap b then reserve b (saturating_add (length xs) 1) else Some b"
  from Cons.prems obtain r p where r: "?r = Some r" and p: "push r x = Some p"
    and e: "extend p xs = Some b'"
    by (auto split: option.splits)
  have wr: "wf_buffer r" and sr: "as_slice r = as_slice b"
    using r Cons.prems(1) by (auto split: if_splits intro: wf_reserve reserve_slice)
  have "wf_buffer p" by (rule wf_push [OF wr p])
  with e Cons.IH have "wf_buffer b' \<and> as_slice b' = as_slice p @ xs" by blast
  then show ?case by (simp add: push_as_slice [OF wr p] sr)
qed

lemma wf_new_buffer_with:
  assumes "wf_alloc A" and "len < usize_lim" and "http_new_buffer_with len A = Some b"
  shows "wf_buffer b" and "as_slice b = []" and "b_cap b = len"
  using assms
  by (auto simp: http_new_buffer_with_def wf_buffer_def is_sane_def cells_def live_blocks_def
      as_slice_def wf_alloc_def split: option.splits if_splits)

text \<open>
  Freeing: the block is released with the size it was allocated with, nothing stays live,
  and the buffer is ready for reuse.
\<close>

lemma http_clear_buffer_wf:
  assumes "wf_buffer b"
  obtains b' where "http_clear_buffer (Some b) = Some b'" and "wf_buffer b'"
    and "as_slice b' = []" and "b_alloc b' = b_alloc b"
    and "replay {#} (b_calls b') = Some {#}"
proof
  let ?b = "b\<lparr>b_len := 0, b_cap := 0, b_buf := None,
               b_calls := b_calls b @ [FreeCall (b_buf b \<noteq> None) (b_cap b)]\<rparr>"
  show "http_clear_buffer (Some b) = Some ?b"
    using assms by (simp add: http_clear_buffer_def wf_sane)
  show rep: "replay {#} (b_calls ?b) = Some {#}"
    using assms
    by (cases "b_buf b = None") (auto simp: replay_append wf_buffer_def live_blocks_def is_sane_def)
  show "wf_buffer ?b"
    using assms rep by (simp add: wf_buffer_def is_sane_def cells_def live_blocks_def usize_lim_def)
  show "as_slice ?b = []" and "b_alloc ?b = b_alloc b"
    by (simp_all add: as_slice_def)
qed

text \<open>
  The overlap check: with no saturation it says exactly that the two address ranges are
  disjoint, unless one of them is empty.
\<close>

lemma is_nonoverlapping_iff:
  assumes "d + m < usize_lim" and "s + n < usize_lim" and "0 < m" and "0 < n"
  shows "is_nonoverlapping d m s n \<longleftrightarrow> {d..<d + m} \<inter> {s..<s + n} = {}"
proof
  assume "is_nonoverlapping d m s n"
  with assms show "{d..<d + m} \<inter> {s..<s + n} = {}"
    by (auto simp: is_nonoverlapping_def saturating_add_def)
next
  assume disj: "{d..<d + m} \<inter> {s..<s + n} = {}"
  have "max d s \<notin> {d..<d + m} \<or> max d s \<notin> {s..<s + n}"
    using disj by blast
  with assms show "is_nonoverlapping d m s n"
    by (auto simp: is_nonoverlapping_def saturating_add_def max_def split: if_splits)
qed

section \<open>The interface\<close>

text \<open>
  What the clients of a growable byte buffer rely on: an append adds exactly the given
  bytes, a clear leaves nothing, both keep the invariant, and an append within the
  \<open>room\<close> succeeds.
\<close>

locale byte_vec =
  fixes inv :: "'b \<Rightarrow> bool"
    and contents :: "'b \<Rightarrow> bytes"
    and append :: "'b \<Rightarrow> bytes \<Rightarrow> 'b option"
    and reset :: "'b \<Rightarrow> 'b"
    and room :: "'b \<Rightarrow> nat \<Rightarrow> bool"
  assumes append_inv: "inv b \<Longrightarrow> append b xs = Some b' \<Longrightarrow> inv b'"
    and append_contents: "inv b \<Longrightarrow> append b xs = Some b' \<Longrightarrow> contents b' = contents b @ xs"
    and append_total: "inv b \<Longrightarrow> room b (length (contents b) + length xs) \<Longrightarrow> \<exists>b'. append b xs = Some b'"
    and append_room: "append b xs = Some b' \<Longrightarrow> room b' n = room b n"
    and reset_inv: "inv b \<Longrightarrow> inv (reset b)"
    and reset_contents: "inv b \<Longrightarrow> contents (reset b) = []"
    and reset_room: "room (reset b) n = room b n"
begin

text \<open>Rewriting a buffer: clear it, then append a message.\<close>

lemma rewrite_total:
  assumes "inv b" and "room b (length xs)"
  obtains b' where "append (reset b) xs = Some b'" and "inv b'" and "contents b' = xs"
proof -
  have "inv (reset b)" and "contents (reset b) = []"
    using assms(1) by (auto intro: reset_inv reset_contents)
  with append_total [of "reset b" xs] assms(2) obtain b' where b': "append (reset b) xs = Some b'"
    by (auto simp: reset_room)
  show thesis
  proof (rule that [OF b'])
    show "inv b'" by (rule append_inv [OF \<open>inv (reset b)\<close> b'])
    show "contents b' = xs"
      using append_contents [OF \<open>inv (reset b)\<close> b'] \<open>contents (reset b) = []\<close> by simp
  qed
qed

lemma rewrite_inv: "inv b \<Longrightarrow> append (reset b) xs = Some b' \<Longrightarrow> inv b'"
  by (blast intro: append_inv reset_inv)

lemma rewrite_contents: "inv b \<Longrightarrow> append (reset b) xs = Some b' \<Longrightarrow> contents b' = xs"
  using append_contents [of "reset b" xs b'] by (simp add: reset_inv reset_contents)

end

text \<open>A buffer has room for \<open>n\<close> bytes when its allocator serves twice that many.\<close>

definition buffer_room :: "buffer \<Rightarrow> nat \<Rightarrow> bool" where
  "buffer_room b n \<longleftrightarrow> 2 * n \<le> usize_lim \<and> serves (b_alloc b) (2 * n)"

lemma buffer_room_mono: "buffer_room b n \<Longrightarrow> m \<le> n \<Longrightarrow> buffer_room b m"
  by (auto simp: buffer_room_def serves_def)

interpretation buf: byte_vec wf_buffer as_slice push_slice clear buffer_room
proof unfold_locales
  fix b and xs :: bytes assume "wf_buffer b" and "buffer_room b (length (as_slice b) + length xs)"
  then show "\<exists>b'. push_slice b xs = Some b'"
    using push_slice_total [of b "2 * (length (as_slice b) + length xs)" xs]
    by (simp add: buffer_room_def wf_length_slice)
qed (auto intro: wf_push_slice push_slice_slice wf_clear
    simp: buffer_room_def dest: push_slice_alloc)

text \<open>A buffer grows by doubling, to less than twice what is needed, and the growth ends.\<close>

lemma buffer_growth:
  assumes "0 < c" and "c < len" and "2 * len \<le> usize_lim"
  shows "\<exists>c' k. grow_cap c len = Some c' \<and> len \<le> c' \<and> c' < 2 * len \<and> c' = c * 2 ^ k"
proof -
  obtain c' where c': "grow_cap c len = Some c'" using grow_cap_total [OF assms(3)] by blast
  with grow_cap_ge [OF c'] grow_cap_bound [OF c' assms(2)] grow_cap_power [OF c' assms(1)] show ?thesis
    by blast
qed

end
