(* ===== verification/Bio.thy ===== *)
theory Bio
  imports Buffer
begin

text \<open>
  \<open>http/src/result.rs\<close> and \<open>http/src/bio.rs\<close>: the result record that C callers pass in, and
  the readers and writers built from C callbacks; with the parts of Rust's \<open>std::io\<close> that the
  crate uses on them (\<open>read_exact\<close>, \<open>write_all\<close>, byte slices and vectors as readers and
  writers).

  A Rust reader is a function \<open>'r reader_fn\<close>: given its state and the length of the slice to
  fill, it returns the reported count or an error, the bytes it stored at the front of the
  slice, and its new state. A writer gets the slice and returns the count of bytes taken.

  The interfaces: \<open>byte_source\<close> (a reader that delivers a sequence of pending bytes, in
  order, until it is exhausted) and \<open>byte_sink\<close> (a writer that appends what it takes to a
  record of what was sent). The lemmas about \<open>read_exact\<close> and \<open>write_all\<close> are proved once in
  them; they are interpreted on byte slices, on vectors, and on the callback readers and
  writers of the crate over those.
\<close>

section \<open>Errors of \<open>std::io\<close>\<close>

text \<open>
  \<open>IoOther\<close> carries the message of \<open>io::Error::other\<close>; the other errors are those of
  \<open>read_exact\<close>, \<open>write_all\<close>, \<open>BufWriter\<close>'s flush and \<open>read_line\<close>. The readers of this crate report no \<open>Interrupted\<close>: a
  callback's error always becomes \<open>io::Error::other\<close>, and slices do not fail.
\<close>

datatype io_error = IoOther bytes | UnexpectedEof | WriteZero | FlushZero | InvalidUtf8

fun display_io :: "io_error \<Rightarrow> bytes" where
  "display_io (IoOther msg) = msg"
| "display_io UnexpectedEof = ascii ''failed to fill whole buffer''"
| "display_io WriteZero = ascii ''failed to write whole buffer''"
| "display_io FlushZero = ascii ''failed to write the buffered data''"
| "display_io InvalidUtf8 = ascii ''stream did not contain valid UTF-8''"

section \<open>Readers\<close>

type_synonym 'r reader_fn = "'r \<Rightarrow> nat \<Rightarrow> (io_error, nat) rs \<times> bytes \<times> 'r"

text \<open>What a slice holds after a reader stored bytes at its front.\<close>

definition store :: "bytes \<Rightarrow> bytes \<Rightarrow> bytes" where
  "store buf got = take (length buf) got @ drop (length got) buf"

lemma length_store [simp]: "length (store buf got) = length buf"
  by (simp add: store_def)

lemma store_Nil [simp]: "store buf [] = buf"
  by (simp add: store_def)

lemma store_full: "length got = length buf \<Longrightarrow> store buf got = got"
  by (simp add: store_def)

text \<open>
  \<open>Read::read_exact\<close>: the result, what the slice holds afterwards (on an error too), and
  the reader's state. A count beyond the slice panics in \<open>&mut buf[n..]\<close>.
\<close>

function read_exact ::
  "'r reader_fn \<Rightarrow> 'r \<Rightarrow> bytes \<Rightarrow> (io_error, unit) rs \<times> bytes \<times> 'r" where
  "read_exact rd r buf =
     (if buf = [] then (Ok (), [], r)
      else (case rd r (length buf) of
              (Panic, got, r') \<Rightarrow> (Panic, store buf got, r')
            | (Err e, got, r') \<Rightarrow> (Err e, store buf got, r')
            | (Ok n, got, r') \<Rightarrow>
                if n = 0 then (Err UnexpectedEof, store buf got, r')
                else if n > length buf then (Panic, store buf got, r')
                else (case read_exact rd r' (drop n (store buf got)) of
                        (x, rest, r'') \<Rightarrow> (x, take n (store buf got) @ rest, r''))))"
  by pat_completeness auto
termination
  by (relation "measure (\<lambda>(rd, r, buf). length buf)") auto

declare read_exact.simps [simp del]

text \<open>Reading \<open>n\<close> bytes into a fresh array, as \<open>let mut buf = [0u8; n]; read_exact(&mut buf)?\<close>.\<close>

definition read_array :: "'r reader_fn \<Rightarrow> nat \<Rightarrow> 'r \<Rightarrow> (io_error, bytes) rs \<times> 'r" where
  "read_array rd n r =
     (case read_exact rd r (replicate n 0) of
        (Ok _, buf, r') \<Rightarrow> (Ok buf, r')
      | (Err e, buf, r') \<Rightarrow> (Err e, r')
      | (Panic, buf, r') \<Rightarrow> (Panic, r'))"

text \<open>
  The contract of a well-behaved reader: while bytes are pending and the slice is not
  empty it delivers at least one of them, never more than asked; when nothing is pending
  it reports zero.
\<close>

locale byte_source =
  fixes rd :: "'r reader_fn"
    and pending :: "'r \<Rightarrow> bytes"
  assumes delivers:
      "0 < n \<Longrightarrow> pending r \<noteq> [] \<Longrightarrow>
       \<exists>k r'. rd r n = (Ok k, take k (pending r), r') \<and> 0 < k \<and> k \<le> n \<and>
              k \<le> length (pending r) \<and> pending r' = drop k (pending r)"
    and exhausted: "pending r = [] \<Longrightarrow> \<exists>r'. rd r n = (Ok 0, [], r') \<and> pending r' = []"
begin

text \<open>With enough bytes pending, exactly the first ones fill the slice.\<close>

lemma read_exact_ok:
  "length buf \<le> length (pending r) \<Longrightarrow>
   \<exists>r'. read_exact rd r buf = (Ok (), take (length buf) (pending r), r') \<and>
        pending r' = drop (length buf) (pending r)"
proof (induction buf arbitrary: r rule: length_induct)
  case (1 buf)
  show ?case
  proof (cases "buf = []")
    case True
    then show ?thesis by (simp add: read_exact.simps)
  next
    case False
    with "1.prems" have "0 < length buf" and "pending r \<noteq> []" by auto
    with delivers obtain k r' where k: "rd r (length buf) = (Ok k, take k (pending r), r')"
      and b: "0 < k" "k \<le> length buf" "k \<le> length (pending r)"
      and p: "pending r' = drop k (pending r)" by blast
    let ?b = "drop k (store buf (take k (pending r)))"
    have st: "take k (store buf (take k (pending r))) = take k (pending r)"
      using b by (simp add: store_def)
    have len: "length ?b = length buf - k" by simp
    have "length ?b < length buf" "length ?b \<le> length (pending r')"
      using b "1.prems" by (auto simp: p)
    with "1.IH" obtain r'' where
      ih: "read_exact rd r' ?b = (Ok (), take (length buf - k) (pending r'), r'')"
      and p'': "pending r'' = drop (length buf - k) (pending r')"
      unfolding len by (metis len)
    have "read_exact rd r buf = (Ok (), take k (pending r) @ take (length buf - k) (pending r'), r'')"
      using b False by (simp add: read_exact.simps [of rd r buf] k ih st)
    moreover have "take k (pending r) @ take (length buf - k) (pending r') =
        take (length buf) (pending r)"
      using b by (simp add: p take_add [symmetric])
    ultimately show ?thesis
      using b p p'' by simp
  qed
qed

text \<open>With too few, the result is the end-of-file error, whatever the slice holds then.\<close>

lemma read_exact_eof:
  "length (pending r) < length buf \<Longrightarrow>
   \<exists>buf' r'. read_exact rd r buf = (Err UnexpectedEof, buf', r') \<and>
             length buf' = length buf \<and> pending r' = []"
proof (induction buf arbitrary: r rule: length_induct)
  case (1 buf)
  from "1.prems" have ne: "buf \<noteq> []" by auto
  show ?case
  proof (cases "pending r = []")
    case True
    with exhausted obtain r' where "rd r (length buf) = (Ok 0, [], r')" and "pending r' = []"
      by blast
    with ne show ?thesis by (simp add: read_exact.simps [of rd r buf])
  next
    case False
    with ne delivers obtain k r' where k: "rd r (length buf) = (Ok k, take k (pending r), r')"
      and b: "0 < k" "k \<le> length buf" "k \<le> length (pending r)"
      and p: "pending r' = drop k (pending r)" by blast
    let ?b = "drop k (store buf (take k (pending r)))"
    have "length ?b < length buf" "length (pending r') < length ?b"
      using b "1.prems" by (auto simp: p)
    with "1.IH" obtain buf' r'' where
      "read_exact rd r' ?b = (Err UnexpectedEof, buf', r'')" "length buf' = length ?b"
      "pending r'' = []" by blast
    with ne b k show ?thesis by (simp add: read_exact.simps [of rd r buf])
  qed
qed

lemma read_array_ok:
  assumes "n \<le> length (pending r)"
  obtains r' where "read_array rd n r = (Ok (take n (pending r)), r')"
    and "pending r' = drop n (pending r)"
proof -
  from read_exact_ok [of "replicate n 0" r] assms
  obtain r' where "read_exact rd r (replicate n 0) = (Ok (), take n (pending r), r')"
    and p: "pending r' = drop n (pending r)" by auto
  then have "read_array rd n r = (Ok (take n (pending r)), r')" by (simp add: read_array_def)
  then show thesis using p by (rule that)
qed

lemma read_array_eof:
  assumes "length (pending r) < n"
  obtains r' where "read_array rd n r = (Err UnexpectedEof, r')" and "pending r' = []"
proof -
  from read_exact_eof [of r "replicate n 0"] assms
  obtain b r' where "read_exact rd r (replicate n 0) = (Err UnexpectedEof, b, r')"
    and p: "pending r' = []" by auto
  then have "read_array rd n r = (Err UnexpectedEof, r')" by (simp add: read_array_def)
  then show thesis using p by (rule that)
qed

text \<open>The same, with the bytes that come next named.\<close>

lemma read_array_next:
  assumes "pending r = xs @ ys" and "length xs = n"
  obtains r' where "read_array rd n r = (Ok xs, r')" and "pending r' = ys"
  using read_array_ok [of n r] assms by auto

lemma read_exact_next:
  assumes "pending r = xs @ ys" and "length xs = length buf"
  obtains r' where "read_exact rd r buf = (Ok (), xs, r')" and "pending r' = ys"
  using read_exact_ok [of buf r] assms by auto

lemma read_array_no_panic: "fst (read_array rd n r) \<noteq> Panic"
proof (cases "n \<le> length (pending r)")
  case True
  then obtain r' where "read_array rd n r = (Ok (take n (pending r)), r')"
    by (rule read_array_ok)
  then show ?thesis by simp
next
  case False
  then obtain r' where "read_array rd n r = (Err UnexpectedEof, r')"
    by (metis not_le read_array_eof)
  then show ?thesis by simp
qed

end

text \<open>\<open>impl Read for &[u8]\<close>.\<close>

definition slice_read :: "bytes reader_fn" where
  "slice_read s n = (Ok (min n (length s)), take n s, drop n s)"

interpretation slice: byte_source slice_read id
proof unfold_locales
  fix n :: nat and r :: bytes assume "0 < n" and "id r \<noteq> []"
  then show "\<exists>k r'. slice_read r n = (Ok k, take k (id r), r') \<and> 0 < k \<and> k \<le> n \<and>
              k \<le> length (id r) \<and> id r' = drop k (id r)"
    by (intro exI [of _ "min n (length r)"])
      (auto simp: slice_read_def min_def)
qed (simp add: slice_read_def)

section \<open>Writers\<close>

type_synonym 'w writer_fn = "'w \<Rightarrow> bytes \<Rightarrow> (io_error, nat) rs \<times> 'w"

text \<open>\<open>Write::write_all\<close>. A count beyond the slice panics in \<open>&buf[n..]\<close>.\<close>

function write_all :: "'w writer_fn \<Rightarrow> 'w \<Rightarrow> bytes \<Rightarrow> (io_error, unit) rs \<times> 'w" where
  "write_all wr w buf =
     (if buf = [] then (Ok (), w)
      else (case wr w buf of
              (Panic, w') \<Rightarrow> (Panic, w')
            | (Err e, w') \<Rightarrow> (Err e, w')
            | (Ok n, w') \<Rightarrow>
                if n = 0 then (Err WriteZero, w')
                else if n > length buf then (Panic, w')
                else write_all wr w' (drop n buf)))"
  by pat_completeness auto
termination
  by (relation "measure (\<lambda>(wr, w, buf). length buf)") auto

declare write_all.simps [simp del]

text \<open>
  The contract of a well-behaved writer: it takes at least one byte of a non-empty slice
  and adds what it takes, in order, to what was sent.
\<close>

locale byte_sink =
  fixes wr :: "'w writer_fn"
    and sent :: "'w \<Rightarrow> bytes"
  assumes takes:
    "buf \<noteq> [] \<Longrightarrow>
     \<exists>k w'. wr w buf = (Ok k, w') \<and> 0 < k \<and> k \<le> length buf \<and> sent w' = sent w @ take k buf"
begin

lemma write_all_ok:
  "\<exists>w'. write_all wr w buf = (Ok (), w') \<and> sent w' = sent w @ buf"
proof (induction buf arbitrary: w rule: length_induct)
  case (1 buf)
  show ?case
  proof (cases "buf = []")
    case True
    then show ?thesis by (simp add: write_all.simps)
  next
    case False
    with takes obtain k w' where k: "wr w buf = (Ok k, w')" "0 < k" "k \<le> length buf"
      and s: "sent w' = sent w @ take k buf" by blast
    then have "length (drop k buf) < length buf" by auto
    with "1.IH" obtain w'' where "write_all wr w' (drop k buf) = (Ok (), w'')"
      and "sent w'' = sent w' @ drop k buf" by blast
    with False k s show ?thesis by (simp add: write_all.simps [of wr w buf])
  qed
qed

lemma write_all_sent:
  obtains w' where "write_all wr w buf = (Ok (), w')" and "sent w' = sent w @ buf"
  using write_all_ok by blast

end

text \<open>\<open>impl Write for Vec<u8>\<close>.\<close>

definition vec_write :: "bytes writer_fn" where
  "vec_write w buf = (Ok (length buf), w @ buf)"

interpretation vec: byte_sink vec_write id
  by unfold_locales (auto simp: vec_write_def)

text \<open>
  \<open>impl Write for &mut [u8]\<close>: a fixed array written from its front; the state is the part
  written and the number of cells left.
\<close>

type_synonym slice_writer = "bytes \<times> nat"

definition slice_write :: "slice_writer writer_fn" where
  "slice_write s buf =
     (case s of (done_part, left) \<Rightarrow>
        (Ok (min (length buf) left),
         (done_part @ take (min (length buf) left) buf, left - min (length buf) left)))"

lemma write_all_slice:
  assumes "length buf \<le> left"
  shows "write_all slice_write (d, left) buf = (Ok (), (d @ buf, left - length buf))"
proof (cases "buf = []")
  case True
  then show ?thesis by (simp add: write_all.simps)
next
  case False
  with assms show ?thesis
    by (simp add: write_all.simps [of _ _ buf] write_all.simps [of _ _ "[]"] slice_write_def)
qed

text \<open>What a fixed array of \<open>n\<close> zeros holds after writes to its front.\<close>

definition array_of :: "nat \<Rightarrow> slice_writer \<Rightarrow> bytes" where
  "array_of n s = fst s @ replicate (n - length (fst s)) 0"

section \<open>Steps that consume and produce bytes\<close>

text \<open>
  How the frame functions are specified. \<open>yields p m xs x\<close>: whenever \<open>xs\<close> are the next
  bytes that the reader has pending (\<open>p\<close>), step \<open>m\<close> consumes exactly them and returns \<open>x\<close>.
  \<open>starves p m e n\<close>: with fewer than \<open>n\<close> bytes pending, \<open>m\<close> fails with \<open>e\<close>. \<open>emits s m xs v\<close>:
  step \<open>m\<close> on a writer adds exactly \<open>xs\<close> to what was sent (\<open>s\<close>) and returns \<open>v\<close>. The rules
  follow the \<open>?\<close> operator.
\<close>

definition yields :: "('r \<Rightarrow> bytes) \<Rightarrow> ('r \<Rightarrow> ('e, 'a) rs \<times> 'r) \<Rightarrow> bytes \<Rightarrow> ('e, 'a) rs \<Rightarrow> bool" where
  "yields p m xs x \<longleftrightarrow> (\<forall>r ys. p r = xs @ ys \<longrightarrow> (\<exists>r'. m r = (x, r') \<and> p r' = ys))"

definition starves :: "('r \<Rightarrow> bytes) \<Rightarrow> ('r \<Rightarrow> ('e, 'a) rs \<times> 'r) \<Rightarrow> 'e \<Rightarrow> nat \<Rightarrow> bool" where
  "starves p m e n \<longleftrightarrow> (\<forall>r. length (p r) < n \<longrightarrow> (\<exists>r'. m r = (Err e, r') \<and> p r' = []))"

definition emits :: "('w \<Rightarrow> bytes) \<Rightarrow> ('w \<Rightarrow> ('e, 'a) rs \<times> 'w) \<Rightarrow> bytes \<Rightarrow> 'a \<Rightarrow> bool" where
  "emits s m xs v \<longleftrightarrow> (\<forall>w. \<exists>w'. m w = (Ok v, w') \<and> s w' = s w @ xs)"

lemma yieldsD: "yields p m xs x \<Longrightarrow> p r = xs @ ys \<Longrightarrow> \<exists>r'. m r = (x, r') \<and> p r' = ys"
  by (simp add: yields_def)

lemma starvesD: "starves p m e n \<Longrightarrow> length (p r) < n \<Longrightarrow> \<exists>r'. m r = (Err e, r') \<and> p r' = []"
  by (simp add: starves_def)

lemma emitsD: "emits s m xs v \<Longrightarrow> \<exists>w'. m w = (Ok v, w') \<and> s w' = s w @ xs"
  by (simp add: emits_def)

lemma yields_return: "yields p (\<lambda>r. (x, r)) [] x"
  by (simp add: yields_def)

lemma yields_bind:
  assumes "yields p m xs (Ok a)" and "yields p (k a) ys x" and "zs = xs @ ys"
  shows "yields p (\<lambda>r. and_then (m r) k) zs x"
  unfolding yields_def
proof (intro allI impI)
  fix r us assume "p r = zs @ us"
  then have "p r = xs @ (ys @ us)" using assms(3) by simp
  then obtain r1 where "m r = (Ok a, r1)" and "p r1 = ys @ us" using yieldsD [OF assms(1)] by blast
  moreover from this(2) obtain r2 where "k a r1 = (x, r2)" and "p r2 = us"
    using yieldsD [OF assms(2)] by blast
  ultimately show "\<exists>r'. and_then (m r) k = (x, r') \<and> p r' = us" by simp
qed

lemma yields_bind_err:
  "yields p m xs (Err e) \<Longrightarrow> yields p (\<lambda>r. and_then (m r) k) xs (Err e)"
  unfolding yields_def by (metis and_then.simps(2))

lemma yields_map_err:
  "yields p m xs (Ok a) \<Longrightarrow> yields p (\<lambda>r. map_err f (m r)) xs (Ok a)"
  "yields p m xs (Err e) \<Longrightarrow> yields p (\<lambda>r. map_err f (m r)) xs (Err (f e))"
proof -
  show "yields p m xs (Ok a) \<Longrightarrow> yields p (\<lambda>r. map_err f (m r)) xs (Ok a)"
    unfolding yields_def by (metis map_err.simps(1))
  show "yields p m xs (Err e) \<Longrightarrow> yields p (\<lambda>r. map_err f (m r)) xs (Err (f e))"
    unfolding yields_def by (metis map_err.simps(2))
qed

lemma yields_map_ok:
  "yields p m xs (Ok a) \<Longrightarrow> b = f a \<Longrightarrow> yields p (\<lambda>r. map_ok f (m r)) xs (Ok b)"
  unfolding yields_def by (metis map_ok.simps(1))

lemma starves_bind:
  assumes "starves p m e a"
    and "\<And>xs. length xs = a \<Longrightarrow> \<exists>v. yields p m xs (Ok v) \<and> starves p (k v) e b"
  shows "starves p (\<lambda>r. and_then (m r) k) e (a + b)"
  unfolding starves_def
proof (intro allI impI)
  fix r assume l: "length (p r) < a + b"
  show "\<exists>r'. and_then (m r) k = (Err e, r') \<and> p r' = []"
  proof (cases "length (p r) < a")
    case True
    then show ?thesis using starvesD [OF assms(1)] by fastforce
  next
    case False
    then have "length (take a (p r)) = a" by simp
    then obtain v where y: "yields p m (take a (p r)) (Ok v)" and s: "starves p (k v) e b"
      using assms(2) by blast
    from y obtain r1 where "m r = (Ok v, r1)" and "p r1 = drop a (p r)"
      using yieldsD [OF y, of r "drop a (p r)"] by auto
    with l False starvesD [OF s, of r1] show ?thesis by auto
  qed
qed

lemma starves_map_err: "starves p m e n \<Longrightarrow> e' = f e \<Longrightarrow> starves p (\<lambda>r. map_err f (m r)) e' n"
  unfolding starves_def by (metis map_err.simps(2))

lemma starves_map_ok: "starves p m e n \<Longrightarrow> starves p (\<lambda>r. map_ok f (m r)) e n"
  unfolding starves_def by (metis map_ok.simps(2))

lemma starves_0: "starves p m e 0"
  by (simp add: starves_def)

lemma emits_return: "emits s (\<lambda>w. (Ok v, w)) [] v"
  by (simp add: emits_def)

lemma emits_bind:
  assumes "emits s m xs a" and "emits s (k a) ys v" and "zs = xs @ ys"
  shows "emits s (\<lambda>w. and_then (m w) k) zs v"
  unfolding emits_def
proof
  fix w
  obtain w1 where "m w = (Ok a, w1)" and "s w1 = s w @ xs"
    using emitsD [OF assms(1), of w] by auto
  moreover obtain w2 where "k a w1 = (Ok v, w2)" and "s w2 = s w1 @ ys"
    using emitsD [OF assms(2), of w1] by auto
  ultimately show "\<exists>w'. and_then (m w) k = (Ok v, w') \<and> s w' = s w @ zs"
    using assms(3) by simp
qed

lemma emits_map_err: "emits s m xs a \<Longrightarrow> emits s (\<lambda>w. map_err f (m w)) xs a"
  unfolding emits_def by (metis map_err.simps(1))

lemma emits_map_ok: "emits s m xs a \<Longrightarrow> b = f a \<Longrightarrow> emits s (\<lambda>w. map_ok f (m w)) xs b"
  unfolding emits_def by (metis map_ok.simps(1))

text \<open>The same with the bytes split as written, and for a step after which no byte is read.\<close>

lemma yields_append:
  "yields p m xs (Ok a) \<Longrightarrow> yields p (k a) ys x \<Longrightarrow>
   yields p (\<lambda>r. and_then (m r) k) (xs @ ys) x"
  by (rule yields_bind) simp_all

lemma yields_last:
  "yields p m xs (Ok a) \<Longrightarrow> yields p (k a) [] x \<Longrightarrow> yields p (\<lambda>r. and_then (m r) k) xs x"
  using yields_bind [of p m xs a k "[]" x xs] by simp

lemma yields_return_eq: "x = y \<Longrightarrow> xs = [] \<Longrightarrow> yields p (\<lambda>r. (x, r)) xs y"
  by (simp add: yields_return)

lemma emits_return_eq: "v = u \<Longrightarrow> xs = [] \<Longrightarrow> emits s (\<lambda>w. (Ok v, w)) xs u"
  by (simp add: emits_return)

text \<open>
  Rules to decompose a frame function step by step, as in
  \<open>(rule step_rules refl | simp)+\<close>.
\<close>

named_theorems step_rules
declare yields_return_eq [step_rules] yields_append [step_rules]
  yields_last [step_rules] yields_map_err(1) [step_rules]
  yields_map_ok [step_rules] emits_return_eq [step_rules] emits_bind [step_rules]
  emits_map_err [step_rules] emits_map_ok [step_rules]

context byte_source
begin

lemma read_array_yields [step_rules]: "length xs = n \<Longrightarrow> yields pending (read_array rd n) xs (Ok xs)"
  unfolding yields_def by (metis read_array_next)

lemma read_array_starves [step_rules]: "starves pending (read_array rd n) UnexpectedEof n"
  unfolding starves_def by (metis read_array_eof)

end

context byte_sink
begin

lemma write_all_emits [step_rules]: "emits sent (\<lambda>w. write_all wr w buf) buf ()"
  unfolding emits_def using write_all_ok by blast

end

section \<open>Results for C callers\<close>

text \<open>
  \<open>HttpResult\<close>, with the value that its \<open>ok\<close> pointer points to; \<open>None\<close> is a pointer that is
  null or misaligned.
\<close>

record 'a http_result =
  r_is_ok :: bool
  r_ok :: "'a option"
  r_err :: buffer

definition set_ok :: "'a http_result \<Rightarrow> 'a \<Rightarrow> 'a http_result option" where
  "set_ok res val =
     (case r_ok res of
        None \<Rightarrow> None
      | Some _ \<Rightarrow> Some (res\<lparr>r_ok := Some val, r_is_ok := True, r_err := clear (r_err res)\<rparr>))"

text \<open>
  The macro \<open>set_err!\<close>, with the formatted message. \<open>write_fmt\<close> may append it in several
  pieces; the buffer then holds the same bytes.
\<close>

definition set_err :: "'a http_result \<Rightarrow> bytes \<Rightarrow> 'a http_result option" where
  "set_err res msg =
     (case push_slice ((r_err res)\<lparr>b_len := 0\<rparr>) msg of
        None \<Rightarrow> None
      | Some e \<Rightarrow> Some (res\<lparr>r_is_ok := False, r_err := e\<rparr>))"

definition http_write_err ::
  "'w writer_fn \<Rightarrow> 'a http_result option \<Rightarrow> 'w option \<Rightarrow> 'w option" where
  "http_write_err wr res writer =
     (case res of
        None \<Rightarrow> None
      | Some q \<Rightarrow>
          (case writer of
             None \<Rightarrow> None
           | Some w \<Rightarrow>
               if r_is_ok q then None
               else if \<not> is_sane (r_err q) then None
               else (case write_all wr w (as_slice (r_err q)) of
                       (Ok _, w') \<Rightarrow> Some w'
                     | _ \<Rightarrow> None)))"

text \<open>What \<open>http_print_err\<close> prints to the standard output.\<close>

definition http_print_err :: "'a http_result \<Rightarrow> bytes option" where
  "http_print_err res =
     (if r_is_ok res then None
      else if \<not> is_sane (r_err res) then None
      else Some (as_slice (r_err res)))"

definition wf_result :: "'a http_result \<Rightarrow> bool" where
  "wf_result res \<longleftrightarrow> wf_buffer (r_err res) \<and> r_ok res \<noteq> None"

lemma set_ok_spec:
  assumes "wf_result res"
  obtains q where "set_ok res v = Some q" and "wf_result q" and "r_is_ok q"
    and "r_ok q = Some v" and "as_slice (r_err q) = []" and "b_alloc (r_err q) = b_alloc (r_err res)"
  using assms by (auto simp: set_ok_def wf_result_def wf_clear split: option.splits)

lemma set_err_spec:
  assumes "wf_result res" and "buffer_room (r_err res) (length msg)"
  obtains q where "set_err res msg = Some q" and "wf_result q" and "\<not> r_is_ok q"
    and "r_ok q = r_ok res" and "as_slice (r_err q) = msg"
proof -
  from assms(1) have "wf_buffer (r_err res)" by (simp add: wf_result_def)
  with assms(2) obtain e where "push_slice (clear (r_err res)) msg = Some e" and "wf_buffer e"
    and "as_slice e = msg" using buf.rewrite_total by blast
  with assms(1) show thesis
    by (intro that [of "res\<lparr>r_is_ok := False, r_err := e\<rparr>"])
      (auto simp: set_err_def wf_result_def clear_def)
qed

end
