(* ===== verification/Callback.thy ===== *)
theory Callback
  imports Bio
begin

text \<open>
  \<open>http/src/bio.rs\<close>: \<open>Reader\<close> and \<open>Writer\<close>, the pairs of a C data pointer and callbacks, as
  Rust readers and writers; the callbacks that wrap a Rust reader or writer; the null
  callbacks; and the exported \<open>http_bio_read\<close> and \<open>http_bio_write\<close>.

  The callback of a reader is fixed when it is made; its data changes with every call. So a
  \<open>Reader\<close> is a callback (a parameter) and the current data (the state). The conversion of
  an error message to a string (\<open>BStr::to_string\<close> of the crate \<open>bstr\<close>) is the parameter
  \<open>lossy\<close>, the system allocator the parameter \<open>os\<close>. The destructors only run the \<open>clear\<close>
  callback and free the pair; they have no result to model.
\<close>

section \<open>Readers from callbacks\<close>

text \<open>
  A read callback gets the data, the length of the slice and a result to fill in; it
  returns the bytes it stored at the front of the slice, the result and the data, or
  panics.
\<close>

type_synonym 'd read_cb = "'d \<Rightarrow> nat \<Rightarrow> nat http_result \<Rightarrow> (bytes \<times> nat http_result \<times> 'd) option"

text \<open>
  \<open>impl Read for Reader\<close>. The result's \<open>ok\<close> points to the local \<open>written\<close>; a callback that
  leaves no value there leaves the initial zero.
\<close>

definition reader_read ::
  "(bytes \<Rightarrow> bytes) \<Rightarrow> (nat \<Rightarrow> bytes option) \<Rightarrow> 'd read_cb \<Rightarrow> 'd reader_fn" where
  "reader_read lossy os cb d len =
     (case http_new_buffer os 0 of
        None \<Rightarrow> (Panic, [], d)
      | Some e \<Rightarrow>
          (case cb d len \<lparr>r_is_ok = True, r_ok = Some 0, r_err = e\<rparr> of
             None \<Rightarrow> (Panic, [], d)
           | Some (got, res, d') \<Rightarrow>
               if \<not> r_is_ok res \<and> \<not> is_sane (r_err res) then (Panic, got, d')
               else (case http_clear_buffer (Some (r_err res)) of
                       None \<Rightarrow> (Panic, got, d')
                     | Some _ \<Rightarrow>
                         ((if r_is_ok res
                           then Ok (case r_ok res of None \<Rightarrow> 0 | Some written \<Rightarrow> written)
                           else Err (IoOther (lossy (as_slice (r_err res))))), got, d'))))"

text \<open>The callback \<open>read::<T>\<close> that \<open>reader_from_read\<close> installs.\<close>

definition reader_from_read :: "'r reader_fn \<Rightarrow> 'r read_cb" where
  "reader_from_read rd arg len res =
     (case rd arg len of
        (Panic, got, arg') \<Rightarrow> None
      | (Ok v, got, arg') \<Rightarrow> map_option (\<lambda>q. (got, q, arg')) (set_ok res v)
      | (Err e, got, arg') \<Rightarrow> map_option (\<lambda>q. (got, q, arg')) (set_err res (display_io e)))"

definition http_null_read :: "'d read_cb" where
  "http_null_read d len res =
     (if \<not> is_sane (r_err res) then None
      else map_option (\<lambda>q. ([], q, d)) (set_err res (ascii ''Reading from empty reader'')))"

text \<open>\<open>http_bio_read\<close>; a pointer argument that is null or misaligned is \<open>None\<close>.\<close>

definition http_bio_read ::
  "'d read_cb \<Rightarrow> 'd option \<Rightarrow> nat option \<Rightarrow> nat http_result option
    \<Rightarrow> (bytes \<times> nat http_result \<times> 'd) option" where
  "http_bio_read cb reader data res =
     (case reader of
        None \<Rightarrow> None
      | Some d \<Rightarrow>
          (case data of
             None \<Rightarrow> None
           | Some len \<Rightarrow> (case res of None \<Rightarrow> None | Some q \<Rightarrow> cb d len q)))"

section \<open>Writers from callbacks\<close>

type_synonym 'd write_cb = "'d \<Rightarrow> bytes \<Rightarrow> nat http_result \<Rightarrow> (nat http_result \<times> 'd) option"

definition writer_write ::
  "(bytes \<Rightarrow> bytes) \<Rightarrow> (nat \<Rightarrow> bytes option) \<Rightarrow> 'd write_cb \<Rightarrow> 'd writer_fn" where
  "writer_write lossy os cb d buf =
     (case http_new_buffer os 0 of
        None \<Rightarrow> (Panic, d)
      | Some e \<Rightarrow>
          (case cb d buf \<lparr>r_is_ok = True, r_ok = Some 0, r_err = e\<rparr> of
             None \<Rightarrow> (Panic, d)
           | Some (res, d') \<Rightarrow>
               if \<not> r_is_ok res \<and> \<not> is_sane (r_err res) then (Panic, d')
               else (case http_clear_buffer (Some (r_err res)) of
                       None \<Rightarrow> (Panic, d')
                     | Some _ \<Rightarrow>
                         ((if r_is_ok res
                           then Ok (case r_ok res of None \<Rightarrow> 0 | Some written \<Rightarrow> written)
                           else Err (IoOther (lossy (as_slice (r_err res))))), d'))))"

definition writer_from_write :: "'w writer_fn \<Rightarrow> 'w write_cb" where
  "writer_from_write wr arg data res =
     (case wr arg data of
        (Panic, arg') \<Rightarrow> None
      | (Ok v, arg') \<Rightarrow> map_option (\<lambda>q. (q, arg')) (set_ok res v)
      | (Err e, arg') \<Rightarrow> map_option (\<lambda>q. (q, arg')) (set_err res (display_io e)))"

definition http_null_write :: "'d write_cb" where
  "http_null_write d data res =
     (if \<not> is_sane (r_err res) then None
      else map_option (\<lambda>q. (q, d)) (set_err res (ascii ''Writing to empty writer'')))"

definition http_bio_write ::
  "'d write_cb \<Rightarrow> 'd option \<Rightarrow> bytes option \<Rightarrow> nat http_result option
    \<Rightarrow> (nat http_result \<times> 'd) option" where
  "http_bio_write cb writer data res =
     (case writer of
        None \<Rightarrow> None
      | Some d \<Rightarrow>
          (case data of
             None \<Rightarrow> None
           | Some buf \<Rightarrow> (case res of None \<Rightarrow> None | Some q \<Rightarrow> cb d buf q)))"

section \<open>Wrapping a Rust reader or writer changes nothing but the error\<close>

text \<open>The system allocator returns blocks of the requested size, for all sizes up to \<open>lim\<close>.\<close>

definition os_serves :: "(nat \<Rightarrow> bytes option) \<Rightarrow> nat \<Rightarrow> bool" where
  "os_serves os lim \<longleftrightarrow>
     (\<forall>n xs. os n = Some xs \<longrightarrow> length xs = n) \<and> (\<forall>n. 0 < n \<and> n \<le> lim \<longrightarrow> os n \<noteq> None) \<and>
     lim \<le> isize_max"

lemma wf_internal_allocator:
  "os_serves os lim \<Longrightarrow> wf_alloc (http_internal_allocator os)"
  by (auto simp: wf_alloc_def http_internal_allocator_def internal_alloc_def os_serves_def
      split: if_splits)

lemma serves_internal_allocator:
  "os_serves os lim \<Longrightarrow> serves (http_internal_allocator os) lim"
  by (auto simp: serves_def http_internal_allocator_def internal_alloc_def os_serves_def)

definition empty_buffer :: "(nat \<Rightarrow> bytes option) \<Rightarrow> buffer" where
  "empty_buffer os = \<lparr>b_len = 0, b_cap = 0, b_buf = None,
                      b_alloc = http_internal_allocator os, b_calls = []\<rparr>"

lemma http_new_buffer_0: "http_new_buffer os 0 = Some (empty_buffer os)"
  by (simp add: http_new_buffer_def http_new_buffer_with_def empty_buffer_def)

lemma sane_empty_buffer [simp]: "is_sane (empty_buffer os)"
  by (simp add: is_sane_def empty_buffer_def)

lemma sane_clear_empty [simp]: "is_sane (clear (empty_buffer os))"
  by (simp add: is_sane_def empty_buffer_def clear_def)

lemma wf_empty_buffer: "os_serves os lim \<Longrightarrow> wf_buffer (empty_buffer os)"
  using wf_new_buffer_with(1) [of "http_internal_allocator os" 0 "empty_buffer os"]
  by (simp add: wf_internal_allocator http_new_buffer_0 [unfolded http_new_buffer_def] usize_lim_def)

lemma http_clear_sane: "is_sane b \<Longrightarrow> \<exists>b'. http_clear_buffer (Some b) = Some b'"
  by (simp add: http_clear_buffer_def)

lemma reader_read_ok:
  assumes "rd r len = (Ok n, got, r')"
  shows "reader_read lossy os (reader_from_read rd) r len = (Ok n, got, r')"
  using assms http_clear_sane [OF sane_clear_empty [of os]]
  by (auto simp: reader_read_def http_new_buffer_0 reader_from_read_def set_ok_def)

lemma writer_write_ok:
  assumes "wr w data = (Ok n, w')"
  shows "writer_write lossy os (writer_from_write wr) w data = (Ok n, w')"
  using assms http_clear_sane [OF sane_clear_empty [of os]]
  by (auto simp: writer_write_def http_new_buffer_0 writer_from_write_def set_ok_def)

text \<open>An error arrives with its message, converted by \<open>lossy\<close>.\<close>

lemma set_err_empty:
  assumes "os_serves os (2 * length msg)"
  obtains q where
    "set_err \<lparr>r_is_ok = True, r_ok = Some (0::nat), r_err = empty_buffer os\<rparr> msg = Some q"
    and "wf_result q" and "\<not> r_is_ok q" and "as_slice (r_err q) = msg"
proof -
  let ?res = "\<lparr>r_is_ok = True, r_ok = Some (0::nat), r_err = empty_buffer os\<rparr>"
  have "wf_result ?res" using wf_empty_buffer [OF assms] by (simp add: wf_result_def)
  moreover have "buffer_room (r_err ?res) (length msg)"
    using assms serves_internal_allocator [OF assms]
    by (simp add: buffer_room_def empty_buffer_def os_serves_def isize_max_def usize_lim_def)
  ultimately show thesis using that by (blast elim: set_err_spec)
qed

lemma reader_read_err:
  assumes "rd r len = (Err e, got, r')" and "os_serves os (2 * length (display_io e))"
  shows "reader_read lossy os (reader_from_read rd) r len =
           (Err (IoOther (lossy (display_io e))), got, r')"
proof -
  obtain q where q: "set_err \<lparr>r_is_ok = True, r_ok = Some (0::nat), r_err = empty_buffer os\<rparr>
      (display_io e) = Some q"
    and "wf_result q" "\<not> r_is_ok q" "as_slice (r_err q) = display_io e"
    using set_err_empty [OF assms(2)] by blast
  moreover have "is_sane (r_err q)" using \<open>wf_result q\<close> by (simp add: wf_result_def wf_sane)
  ultimately show ?thesis
    using assms(1) http_clear_sane [of "r_err q"]
    by (auto simp: reader_read_def http_new_buffer_0 reader_from_read_def)
qed

lemma writer_write_err:
  assumes "wr w data = (Err e, w')" and "os_serves os (2 * length (display_io e))"
  shows "writer_write lossy os (writer_from_write wr) w data =
           (Err (IoOther (lossy (display_io e))), w')"
proof -
  obtain q where q: "set_err \<lparr>r_is_ok = True, r_ok = Some (0::nat), r_err = empty_buffer os\<rparr>
      (display_io e) = Some q"
    and "wf_result q" "\<not> r_is_ok q" "as_slice (r_err q) = display_io e"
    using set_err_empty [OF assms(2)] by blast
  moreover have "is_sane (r_err q)" using \<open>wf_result q\<close> by (simp add: wf_result_def wf_sane)
  ultimately show ?thesis
    using assms(1) http_clear_sane [of "r_err q"]
    by (auto simp: writer_write_def http_new_buffer_0 writer_from_write_def)
qed

text \<open>So the wrapped reader and writer keep the contract.\<close>

context byte_source
begin

lemma wrapped: "byte_source (reader_read lossy os (reader_from_read rd)) pending"
proof unfold_locales
  fix n :: nat and r assume "0 < n" and "pending r \<noteq> []"
  then show "\<exists>k r'. reader_read lossy os (reader_from_read rd) r n = (Ok k, take k (pending r), r') \<and>
      0 < k \<and> k \<le> n \<and> k \<le> length (pending r) \<and> pending r' = drop k (pending r)"
    using delivers [of n r] by (blast intro: reader_read_ok)
next
  fix n :: nat and r assume "pending r = []"
  then show "\<exists>r'. reader_read lossy os (reader_from_read rd) r n = (Ok 0, [], r') \<and> pending r' = []"
    using exhausted [of r n] by (blast intro: reader_read_ok)
qed

end

context byte_sink
begin

lemma wrapped: "byte_sink (writer_write lossy os (writer_from_write wr)) sent"
proof unfold_locales
  fix buf :: bytes and w assume "buf \<noteq> []"
  then show "\<exists>k w'. writer_write lossy os (writer_from_write wr) w buf = (Ok k, w') \<and>
      0 < k \<and> k \<le> length buf \<and> sent w' = sent w @ take k buf"
    using takes [of buf w] by (blast intro: writer_write_ok)
qed

end

interpretation bio_slice: byte_source "reader_read lossy os (reader_from_read slice_read)" id
  for lossy os
  by (rule slice.wrapped)

interpretation bio_vec: byte_sink "writer_write lossy os (writer_from_write vec_write)" id
  for lossy os
  by (rule vec.wrapped)

text \<open>For \<open>read_exact\<close>: the wrapped reader delivers the next bytes, or the end-of-file error.\<close>

lemma wrapped_reader:
  assumes "byte_source rd pending"
  shows "if n \<le> length (pending r)
    then \<exists>r'. read_array (reader_read lossy os (reader_from_read rd)) n r = (Ok (take n (pending r)), r') \<and>
      pending r' = drop n (pending r)
    else \<exists>r'. read_array (reader_read lossy os (reader_from_read rd)) n r = (Err UnexpectedEof, r') \<and> pending r' = []"
proof (cases "n \<le> length (pending r)")
  case True
  obtain r' where "read_array (reader_read lossy os (reader_from_read rd)) n r = (Ok (take n (pending r)), r')"
    "pending r' = drop n (pending r)"
    by (rule byte_source.read_array_ok [OF byte_source.wrapped [OF assms] True])
  with True show ?thesis by simp
next
  case False
  then have "length (pending r) < n" by simp
  obtain r' where "read_array (reader_read lossy os (reader_from_read rd)) n r = (Err UnexpectedEof, r')"
    "pending r' = []"
    by (rule byte_source.read_array_eof [OF byte_source.wrapped [OF assms] \<open>length (pending r) < n\<close>])
  with False show ?thesis by simp
qed

end
