(* ===== verification/H2_Error.thy ===== *)
theory H2_Error
  imports Callback
begin

text \<open>
  \<open>http/src/http2/error.rs\<close>: the HTTP/2 error codes with their numbers and messages, and the
  error type of the frame functions, which is either an I/O error or a protocol error; then
  the shape that the exported frame functions share (check the pointers, run the frame
  function, fill in the result).
\<close>

section \<open>Error codes\<close>

datatype error_code =
    NoError | ProtocolError | InternalError | FlowControlError | SettingsTimeout
  | StreamClosed | FrameSizeError | RefusedStream | Cancel | CompressionError
  | ConnectError | EnhanceYourCalm | InadequateSecurity | HTTP11Required

fun error_code_num :: "error_code \<Rightarrow> u32" where
  "error_code_num NoError = 0x0"
| "error_code_num ProtocolError = 0x1"
| "error_code_num InternalError = 0x2"
| "error_code_num FlowControlError = 0x3"
| "error_code_num SettingsTimeout = 0x4"
| "error_code_num StreamClosed = 0x5"
| "error_code_num FrameSizeError = 0x6"
| "error_code_num RefusedStream = 0x7"
| "error_code_num Cancel = 0x8"
| "error_code_num CompressionError = 0x9"
| "error_code_num ConnectError = 0xa"
| "error_code_num EnhanceYourCalm = 0xb"
| "error_code_num InadequateSecurity = 0xc"
| "error_code_num HTTP11Required = 0xd"

fun display_error_code :: "error_code \<Rightarrow> bytes" where
  "display_error_code NoError = ascii ''No error (0x0)''"
| "display_error_code ProtocolError = ascii ''Protocol error (0x1)''"
| "display_error_code InternalError = ascii ''Internal error (0x2)''"
| "display_error_code FlowControlError = ascii ''Flow control error (0x3)''"
| "display_error_code SettingsTimeout = ascii ''Settings timeout (0x4)''"
| "display_error_code StreamClosed = ascii ''Stream closed (0x5)''"
| "display_error_code FrameSizeError = ascii ''Frame size error (0x6)''"
| "display_error_code RefusedStream = ascii ''Refused stream (0x7)''"
| "display_error_code Cancel = ascii ''Cancel (0x8)''"
| "display_error_code CompressionError = ascii ''Compression error (0x9)''"
| "display_error_code ConnectError = ascii ''Connect error (0xa)''"
| "display_error_code EnhanceYourCalm = ascii ''Enhance your calm (0xb)''"
| "display_error_code InadequateSecurity = ascii ''Inadequate security (0xc)''"
| "display_error_code HTTP11Required = ascii ''HTTP/1.1 required (0xd)''"

definition error_code_try_from :: "u32 \<Rightarrow> error_code option" where
  "error_code_try_from value =
     (if value = 0x0 then Some NoError
      else if value = 0x1 then Some ProtocolError
      else if value = 0x2 then Some InternalError
      else if value = 0x3 then Some FlowControlError
      else if value = 0x4 then Some SettingsTimeout
      else if value = 0x5 then Some StreamClosed
      else if value = 0x6 then Some FrameSizeError
      else if value = 0x7 then Some RefusedStream
      else if value = 0x8 then Some Cancel
      else if value = 0x9 then Some CompressionError
      else if value = 0xa then Some ConnectError
      else if value = 0xb then Some EnhanceYourCalm
      else if value = 0xc then Some InadequateSecurity
      else if value = 0xd then Some HTTP11Required
      else None)"

lemma error_code_try_from_num: "error_code_try_from (error_code_num c) = Some c"
  by (cases c) (simp_all add: error_code_try_from_def)

lemma error_code_num_try_from:
  "error_code_try_from v = Some c \<Longrightarrow> error_code_num c = v"
  by (auto simp: error_code_try_from_def split: if_splits)

section \<open>I/O or protocol errors\<close>

datatype io_proto_error = Io io_error | Protocol error_code

fun display_io_proto :: "io_proto_error \<Rightarrow> bytes" where
  "display_io_proto (Io e) = ascii ''Failed IO operation: '' @ display_io e"
| "display_io_proto (Protocol e) = ascii ''Protocol Error: '' @ display_error_code e"

fun get_error_code :: "io_proto_error \<Rightarrow> error_code" where
  "get_error_code (Protocol c) = c"
| "get_error_code (Io _) = InternalError"

section \<open>The exported frame functions\<close>

text \<open>
  The exported read functions check their pointers and the error buffer, read the frame,
  and report through the result record; on success they return \<open>NoError\<close>. \<open>None\<close> is a
  panic; an unusable pointer is \<open>None\<close>.
\<close>

definition ffi_read_frame ::
  "('r \<Rightarrow> (io_proto_error, 'a) rs \<times> 'r) \<Rightarrow> 'r option \<Rightarrow> 'a http_result option
    \<Rightarrow> (error_code \<times> 'r \<times> 'a http_result) option" where
  "ffi_read_frame read_frame reader res =
     (case reader of
        None \<Rightarrow> None
      | Some r \<Rightarrow>
          (case res of
             None \<Rightarrow> None
           | Some q \<Rightarrow>
               if \<not> is_sane (r_err q) then None
               else (case read_frame r of
                       (Ok v, r') \<Rightarrow> map_option (\<lambda>q'. (NoError, r', q')) (set_ok q v)
                     | (Err e, r') \<Rightarrow>
                         map_option (\<lambda>q'. (get_error_code e, r', q')) (set_err q (display_io_proto e))
                     | (Panic, r') \<Rightarrow> None)))"

text \<open>
  The variant for frames that are read into the caller's record, which holds a buffer: the
  record that \<open>ok\<close> points to is passed in and changed in place, also when reading fails;
  success sets only \<open>is_ok\<close> and leaves the error buffer as it was. \<open>check\<close> is an assertion
  on that record, which one of the functions makes.
\<close>

definition ffi_read_frame_into ::
  "('f \<Rightarrow> bool) \<Rightarrow> ('f \<Rightarrow> 'r \<Rightarrow> (io_proto_error, unit) rs \<times> 'f \<times> 'r) \<Rightarrow> 'r option \<Rightarrow>
   'f http_result option \<Rightarrow> (error_code \<times> 'r \<times> 'f http_result) option" where
  "ffi_read_frame_into check read_frame reader res =
     (case reader of
        None \<Rightarrow> None
      | Some r \<Rightarrow>
          (case res of
             None \<Rightarrow> None
           | Some q \<Rightarrow>
               if \<not> is_sane (r_err q) then None
               else (case r_ok q of
                       None \<Rightarrow> None
                     | Some frame \<Rightarrow>
                         if \<not> check frame then None
                         else (case read_frame frame r of
                                 (Ok _, frame', r') \<Rightarrow>
                                   Some (NoError, r', q\<lparr>r_ok := Some frame', r_is_ok := True\<rparr>)
                               | (Err e, frame', r') \<Rightarrow>
                                   map_option (\<lambda>q'. (get_error_code e, r', q'))
                                     (set_err (q\<lparr>r_ok := Some frame'\<rparr>) (display_io_proto e))
                               | (Panic, frame', r') \<Rightarrow> None))))"

text \<open>The exported write functions: the same checks; the result is the count of bytes written.\<close>

definition ffi_write_frame ::
  "('e \<Rightarrow> bytes) \<Rightarrow> ('w \<Rightarrow> ('e, nat) rs \<times> 'w) \<Rightarrow> 'w option \<Rightarrow> nat http_result option
    \<Rightarrow> ('w \<times> nat http_result) option" where
  "ffi_write_frame display write_frame writer res =
     (case writer of
        None \<Rightarrow> None
      | Some w \<Rightarrow>
          (case res of
             None \<Rightarrow> None
           | Some q \<Rightarrow>
               if \<not> is_sane (r_err q) then None
               else (case write_frame w of
                       (Ok l, w') \<Rightarrow> map_option (\<lambda>q'. (w', q')) (set_ok q l)
                     | (Err e, w') \<Rightarrow> map_option (\<lambda>q'. (w', q')) (set_err q (display e))
                     | (Panic, w') \<Rightarrow> None)))"

text \<open>
  What a caller learns: the record and the returned code agree with the outcome of the
  frame function, and the record stays usable.
\<close>

lemma ffi_read_frame_ok:
  assumes "wf_result q" and "f r = (Ok v, r')"
  obtains q' where "ffi_read_frame f (Some r) (Some q) = Some (NoError, r', q')"
    and "wf_result q'" and "r_is_ok q'" and "r_ok q' = Some v" and "as_slice (r_err q') = []"
proof -
  from assms(1) obtain q' where "set_ok q v = Some q'" and "wf_result q'" "r_is_ok q'"
    "r_ok q' = Some v" "as_slice (r_err q') = []" by (rule set_ok_spec)
  with assms show thesis
    by (intro that [of q']) (auto simp: ffi_read_frame_def wf_result_def wf_sane)
qed

lemma ffi_read_frame_err:
  assumes "wf_result q" and "f r = (Err e, r')"
    and "buffer_room (r_err q) (length (display_io_proto e))"
  obtains q' where "ffi_read_frame f (Some r) (Some q) = Some (get_error_code e, r', q')"
    and "wf_result q'" and "\<not> r_is_ok q'" and "r_ok q' = r_ok q"
    and "as_slice (r_err q') = display_io_proto e"
proof -
  from assms(1,3) obtain q' where "set_err q (display_io_proto e) = Some q'" and "wf_result q'"
    "\<not> r_is_ok q'" "r_ok q' = r_ok q" "as_slice (r_err q') = display_io_proto e"
    by (rule set_err_spec)
  with assms show thesis
    by (intro that [of q']) (auto simp: ffi_read_frame_def wf_result_def wf_sane)
qed

lemma ffi_write_frame_ok:
  assumes "wf_result q" and "f w = (Ok l, w')"
  obtains q' where "ffi_write_frame display f (Some w) (Some q) = Some (w', q')"
    and "wf_result q'" and "r_is_ok q'" and "r_ok q' = Some l" and "as_slice (r_err q') = []"
proof -
  from assms(1) obtain q' where "set_ok q l = Some q'" and "wf_result q'" "r_is_ok q'"
    "r_ok q' = Some l" "as_slice (r_err q') = []" by (rule set_ok_spec)
  with assms show thesis
    by (intro that [of q']) (auto simp: ffi_write_frame_def wf_result_def wf_sane)
qed

lemma ffi_write_frame_err:
  assumes "wf_result q" and "f w = (Err e, w')"
    and "buffer_room (r_err q) (length (display e))"
  obtains q' where "ffi_write_frame display f (Some w) (Some q) = Some (w', q')"
    and "wf_result q'" and "\<not> r_is_ok q'" and "as_slice (r_err q') = display e"
proof -
  from assms(1,3) obtain q' where "set_err q (display e) = Some q'" and "wf_result q'"
    "\<not> r_is_ok q'" "r_ok q' = r_ok q" "as_slice (r_err q') = display e"
    by (rule set_err_spec)
  with assms show thesis
    by (intro that [of q']) (auto simp: ffi_write_frame_def wf_result_def wf_sane)
qed

end
