(* ===== verification/Settings.thy ===== *)
theory Settings
  imports Prelude
begin

text \<open>
  The settings of \<open>http/src/http2/context.rs\<close>: a setting packs its number and two flags
  (optional, exists) into one word next to its value; a connection has an array of six.

  The lemmas: reading back the packed fields, \<open>get\<close> after \<open>set_value\<close>, and the invariant
  \<open>wf_settings\<close> (entry \<open>i\<close> carries number \<open>i + 1\<close>, required settings exist, a setting that
  does not exist has value zero), which \<open>default\<close> has and \<open>set_value\<close> keeps.
\<close>

section \<open>One setting\<close>

record setting =
  num_flags :: u32
  s_value :: u32

definition OPTIONAL_FLAG :: u32 where "OPTIONAL_FLAG = 0x1"
definition EXISTS_FLAG :: u32 where "EXISTS_FLAG = 0x2"

definition setting_new :: "u16 \<Rightarrow> u32 \<Rightarrow> setting" where
  "setting_new num val = \<lparr>num_flags = push_bit 16 (ucast num) OR EXISTS_FLAG, s_value = val\<rparr>"

definition setting_new_optional :: "u16 \<Rightarrow> u32 option \<Rightarrow> setting" where
  "setting_new_optional num val =
     (let flags = (if val \<noteq> None then OPTIONAL_FLAG OR EXISTS_FLAG else OPTIONAL_FLAG)
      in \<lparr>num_flags = push_bit 16 (ucast num) OR flags,
          s_value = (case val of None \<Rightarrow> 0 | Some v \<Rightarrow> v)\<rparr>)"

definition setting_num :: "setting \<Rightarrow> u16" where
  "setting_num s = ucast (drop_bit 16 (num_flags s))"

definition setting_value :: "setting \<Rightarrow> u32" where
  "setting_value s = s_value s"

definition set_value :: "u32 \<Rightarrow> setting \<Rightarrow> setting" where
  "set_value val s = s\<lparr>num_flags := num_flags s OR EXISTS_FLAG, s_value := val\<rparr>"

definition is_optional :: "setting \<Rightarrow> bool" where
  "is_optional s \<longleftrightarrow> num_flags s AND OPTIONAL_FLAG \<noteq> 0"

definition setting_exists :: "setting \<Rightarrow> bool" where
  "setting_exists s \<longleftrightarrow> num_flags s AND EXISTS_FLAG \<noteq> 0"

section \<open>The six settings\<close>

datatype setting_name =
    HeaderTableSize | EnablePush | MaxConcurrentStreams
  | InitialWindowSize | MaxFrameSize | MaxHeaderListSize

fun setting_name_num :: "setting_name \<Rightarrow> u16" where
  "setting_name_num HeaderTableSize = 1"
| "setting_name_num EnablePush = 2"
| "setting_name_num MaxConcurrentStreams = 3"
| "setting_name_num InitialWindowSize = 4"
| "setting_name_num MaxFrameSize = 5"
| "setting_name_num MaxHeaderListSize = 6"

definition ALL_names :: "setting_name list" where
  "ALL_names = [HeaderTableSize, EnablePush, MaxConcurrentStreams, InitialWindowSize,
                MaxFrameSize, MaxHeaderListSize]"

definition setting_name_is_valid :: "u16 \<Rightarrow> bool" where
  "setting_name_is_valid num \<longleftrightarrow>
     num \<ge> setting_name_num HeaderTableSize \<and> num \<le> setting_name_num MaxHeaderListSize"

definition setting_name_try_from :: "u16 \<Rightarrow> setting_name option" where
  "setting_name_try_from num =
     (if num = 1 then Some HeaderTableSize
      else if num = 2 then Some EnablePush
      else if num = 3 then Some MaxConcurrentStreams
      else if num = 4 then Some InitialWindowSize
      else if num = 5 then Some MaxFrameSize
      else if num = 6 then Some MaxHeaderListSize
      else None)"

text \<open>The array; \<open>get\<close> and \<open>get_mut\<close> index it with the name's number less one.\<close>

record settings =
  entries :: "setting list"

definition settings_default :: settings where
  "settings_default = \<lparr>entries =
     [setting_new 1 4096,
      setting_new 2 1,
      setting_new_optional 3 None,
      setting_new 4 (push_bit 16 1 - 1),
      setting_new 5 (push_bit 14 1),
      setting_new_optional 6 None]\<rparr>"

definition name_index :: "setting_name \<Rightarrow> nat" where
  "name_index name = unat (setting_name_num name) - 1"

definition settings_get :: "settings \<Rightarrow> setting_name \<Rightarrow> setting" where
  "settings_get s name = entries s ! name_index name"

text \<open>\<open>settings.get_mut(name).set_value(value)\<close>\<close>

definition settings_set :: "settings \<Rightarrow> setting_name \<Rightarrow> u32 \<Rightarrow> settings" where
  "settings_set s name val =
     s\<lparr>entries := (entries s)[name_index name := set_value val (entries s ! name_index name)]\<rparr>"

section \<open>Facts\<close>

lemma setting_name_try_from_num [simp]:
  "setting_name_try_from (setting_name_num n) = Some n"
  by (cases n) (simp_all add: setting_name_try_from_def)

lemma setting_name_num_try_from:
  "setting_name_try_from v = Some n \<Longrightarrow> setting_name_num n = v"
  by (auto simp: setting_name_try_from_def split: if_splits)

lemma name_index_simps [simp]:
  "name_index HeaderTableSize = 0" "name_index EnablePush = 1"
  "name_index MaxConcurrentStreams = 2" "name_index InitialWindowSize = 3"
  "name_index MaxFrameSize = 4" "name_index MaxHeaderListSize = 5"
  by (simp_all add: name_index_def)

lemma name_index_less: "name_index n < 6"
  by (cases n) simp_all

lemma name_index_surj: "i < 6 \<Longrightarrow> \<exists>n. name_index n = i"
proof -
  assume "i < 6"
  then consider "i = 0" | "i = 1" | "i = 2" | "i = 3" | "i = 4" | "i = 5" by linarith
  then show ?thesis by cases (metis name_index_simps)+
qed

lemma name_index_inj: "name_index n = name_index m \<longleftrightarrow> n = m"
  by (cases n; cases m) simp_all

text \<open>The parameters are ordered by their identifiers, and the list of all of them is increasing.\<close>

instantiation setting_name :: linorder
begin

definition less_eq_setting_name :: "setting_name \<Rightarrow> setting_name \<Rightarrow> bool" where
  "less_eq_setting_name m n \<longleftrightarrow> name_index m \<le> name_index n"

definition less_setting_name :: "setting_name \<Rightarrow> setting_name \<Rightarrow> bool" where
  "less_setting_name m n \<longleftrightarrow> name_index m < name_index n"

instance
  by standard (auto simp: less_eq_setting_name_def less_setting_name_def name_index_inj)

end

lemma ALL_names_increasing: "sorted_wrt (<) ALL_names"
  by (simp add: ALL_names_def less_setting_name_def)

lemma is_valid_try_from: "setting_name_is_valid v \<longleftrightarrow> setting_name_try_from v \<noteq> None"
proof
  assume "setting_name_is_valid v"
  then have "1 \<le> unat v" and "unat v \<le> 6"
    by (auto simp: setting_name_is_valid_def word_le_nat_alt)
  then have "unat v \<in> {1, 2, 3, 4, 5, 6}" by auto
  moreover have "v = of_nat (unat v)" by simp
  ultimately have "v \<in> {1, 2, 3, 4, 5, 6}"
    by (metis empty_iff insert_iff of_nat_1 of_nat_numeral)
  then show "setting_name_try_from v \<noteq> None" by (auto simp: setting_name_try_from_def)
next
  assume "setting_name_try_from v \<noteq> None"
  then obtain n where "v = setting_name_num n"
    using setting_name_num_try_from [of v] by auto
  then show "setting_name_is_valid v" by (cases n) (simp_all add: setting_name_is_valid_def)
qed

text \<open>The packed word: the number from bit 16 on, the flags below.\<close>

lemma small_bits:
  assumes "(f :: u32) < 4" and "2 \<le> k"
  shows "\<not> bit f k"
proof -
  from assms(1) have "f = f AND mask 2" by (simp add: mask_small)
  then have "bit f k \<longleftrightarrow> bit (f AND mask 2) k" by simp
  with assms(2) show ?thesis by (simp add: bit_simps)
qed

lemma setting_num_pack:
  assumes "f < 4"
  shows "ucast (drop_bit 16 (push_bit 16 (ucast (n :: u16)) OR (f :: u32))) = n"
proof (rule bit_word_eqI)
  fix k assume k: "k < LENGTH(16)"
  have "\<not> bit f (16 + k)" using small_bits [OF assms, of "16 + k"] by simp
  with k show "bit (ucast (drop_bit 16 (push_bit 16 (ucast n) OR f)) :: u16) k \<longleftrightarrow> bit n k"
    by (simp add: bit_simps)
qed

lemma setting_flags_pack:
  assumes "g < 4"
  shows "(push_bit 16 (ucast (n :: u16)) OR (f :: u32)) AND g = f AND g"
proof (rule bit_word_eqI)
  fix k assume k: "k < LENGTH(32)"
  show "bit ((push_bit 16 (ucast n) OR f) AND g) k \<longleftrightarrow> bit (f AND g) k"
    using small_bits [OF assms, of k] by (cases "k < 16") (auto simp: bit_simps)
qed

lemma setting_new_fields [simp]:
  "setting_num (setting_new n v) = n" "setting_value (setting_new n v) = v"
  "\<not> is_optional (setting_new n v)" "setting_exists (setting_new n v)"
  using setting_num_pack [of 2 n] setting_flags_pack [of 1 n 2] setting_flags_pack [of 2 n 2]
  by (simp_all add: setting_new_def setting_num_def setting_value_def is_optional_def
      setting_exists_def OPTIONAL_FLAG_def EXISTS_FLAG_def del: One_nat_def)

lemma setting_new_optional_fields [simp]:
  "setting_num (setting_new_optional n x) = n"
  "setting_value (setting_new_optional n x) = (case x of None \<Rightarrow> 0 | Some v \<Rightarrow> v)"
  "is_optional (setting_new_optional n x)"
  "setting_exists (setting_new_optional n x) \<longleftrightarrow> x \<noteq> None"
  using setting_num_pack [of 1 n] setting_num_pack [of 3 n]
    setting_flags_pack [of 1 n 1] setting_flags_pack [of 2 n 1]
    setting_flags_pack [of 1 n 3] setting_flags_pack [of 2 n 3]
  by (simp_all add: setting_new_optional_def setting_num_def setting_value_def is_optional_def
      setting_exists_def OPTIONAL_FLAG_def EXISTS_FLAG_def)

lemma set_value_new [simp]: "set_value v (setting_new n w) = setting_new n v"
  by (simp add: set_value_def setting_new_def or.assoc)

lemma set_value_new_optional [simp]:
  "set_value v (setting_new_optional n x) = setting_new_optional n (Some v)"
  by (cases x) (simp_all add: set_value_def setting_new_optional_def or.assoc)

text \<open>
  Well-formed settings: every entry is one that \<open>new\<close> or \<open>new_optional\<close> makes with the
  number of its name.
\<close>

definition optional_name :: "setting_name \<Rightarrow> bool" where
  "optional_name n \<longleftrightarrow> n = MaxConcurrentStreams \<or> n = MaxHeaderListSize"

definition valid_entry :: "setting_name \<Rightarrow> setting \<Rightarrow> bool" where
  "valid_entry n e \<longleftrightarrow>
     (if optional_name n
      then e = setting_new_optional (setting_name_num n) None \<or>
           e = setting_new_optional (setting_name_num n) (Some (s_value e))
      else e = setting_new (setting_name_num n) (s_value e))"

definition wf_settings :: "settings \<Rightarrow> bool" where
  "wf_settings s \<longleftrightarrow>
     length (entries s) = 6 \<and> list_all (\<lambda>n. valid_entry n (settings_get s n)) ALL_names"

lemma in_ALL_names: "n \<in> set ALL_names"
  by (cases n) (simp_all add: ALL_names_def)

lemma wf_settings_entry: "wf_settings s \<Longrightarrow> valid_entry n (settings_get s n)"
  using in_ALL_names [of n] by (simp add: wf_settings_def list_all_iff)

lemma settings_eqI:
  assumes "length (entries s) = 6" and "length (entries t) = 6"
    and "\<And>n. settings_get s n = settings_get t n"
  shows "s = t"
proof -
  have "entries s = entries t"
  proof (rule nth_equalityI)
    fix i assume "i < length (entries s)"
    then have "\<exists>n. name_index n = i" using assms(1) by (simp add: name_index_surj)
    then show "entries s ! i = entries t ! i" using assms(3) by (auto simp: settings_get_def)
  qed (simp add: assms)
  then show ?thesis by simp
qed

lemma settings_get_set:
  "length (entries s) = 6 \<Longrightarrow>
   settings_get (settings_set s n v) m =
     (if m = n then set_value v (settings_get s n) else settings_get s m)"
  using name_index_less [of n]
  by (simp add: settings_get_def settings_set_def nth_list_update name_index_inj)

lemma length_settings_set [simp]: "length (entries (settings_set s n v)) = length (entries s)"
  by (simp add: settings_set_def)

lemma valid_entry_cases:
  assumes "valid_entry n e"
  obtains x where "e = setting_new_optional (setting_name_num n) x" and "optional_name n"
  | v where "e = setting_new (setting_name_num n) v" and "\<not> optional_name n"
  using assms by (auto simp: valid_entry_def split: if_splits)

lemma valid_entry_new_optional:
  "optional_name n \<Longrightarrow> valid_entry n (setting_new_optional (setting_name_num n) x)"
  by (cases x) (auto simp: valid_entry_def setting_new_optional_def)

lemma valid_entry_new:
  "\<not> optional_name n \<Longrightarrow> valid_entry n (setting_new (setting_name_num n) v)"
  by (auto simp: valid_entry_def setting_new_def)

lemma valid_entry_set: "valid_entry n e \<Longrightarrow> valid_entry n (set_value v e)"
  by (erule valid_entry_cases) (auto intro: valid_entry_new valid_entry_new_optional)

lemma wf_settings_set: "wf_settings s \<Longrightarrow> wf_settings (settings_set s n v)"
  by (auto simp: wf_settings_def list_all_iff settings_get_set valid_entry_set)

lemma settings_get_default:
  "settings_get settings_default HeaderTableSize = setting_new 1 4096"
  "settings_get settings_default EnablePush = setting_new 2 1"
  "settings_get settings_default MaxConcurrentStreams = setting_new_optional 3 None"
  "settings_get settings_default InitialWindowSize = setting_new 4 65535"
  "settings_get settings_default MaxFrameSize = setting_new 5 16384"
  "settings_get settings_default MaxHeaderListSize = setting_new_optional 6 None"
  by (simp_all add: settings_get_def settings_default_def)

lemma length_settings_default [simp]: "length (entries settings_default) = 6"
  by (simp add: settings_default_def)

lemma wf_settings_default: "wf_settings settings_default"
  by (simp add: wf_settings_def ALL_names_def settings_get_default valid_entry_def
      optional_name_def setting_new_def)

text \<open>Two valid entries with the same name that both exist differ in their values only.\<close>

lemma valid_entry_eqI:
  assumes "valid_entry n a" and "valid_entry n b" and "setting_exists a"
  shows "a = set_value (setting_value a) b"
  using assms
  by (elim valid_entry_cases) (auto split: option.splits)

text \<open>An entry whose value must be sent exists.\<close>

lemma differs_default_exists:
  assumes "valid_entry n e" and "e \<noteq> settings_get settings_default n"
  shows "setting_exists e"
  using assms(1)
proof (cases rule: valid_entry_cases)
  case (1 x)
  with assms(2) show ?thesis
    by (cases n; cases x) (auto simp: settings_get_default optional_name_def)
qed simp

end
