(* ===== verification/Frame.thy ===== *)
theory Frame
  imports H2_Error Settings
begin

text \<open>
  \<open>http/src/http2/frame/mod.rs\<close>: big-endian integers on readers and writers, and the
  nine-byte header that starts every HTTP/2 frame.

  \<open>header_wire\<close> is the wire format of RFC 9113 section 4.1 as a list of bytes. The lemmas:
  what is written is exactly the wire format; reading the wire format of a header returns
  that header, ignores the reserved bit of the stream identifier, rejects a length above
  \<open>MaxFrameSize\<close>, and reports the end of the input; every sequence of nine bytes is the wire
  format of some header up to the reserved bit.
\<close>

section \<open>Integers\<close>

definition read_u8 :: "'r reader_fn \<Rightarrow> 'r \<Rightarrow> (io_error, u8) rs \<times> 'r" where
  "read_u8 rd r = map_ok from_be_bytes (read_array rd 1 r)"

definition read_u16 :: "'r reader_fn \<Rightarrow> 'r \<Rightarrow> (io_error, u16) rs \<times> 'r" where
  "read_u16 rd r = map_ok from_be_bytes (read_array rd 2 r)"

definition read_u24 :: "'r reader_fn \<Rightarrow> 'r \<Rightarrow> (io_error, u32) rs \<times> 'r" where
  "read_u24 rd r = map_ok (\<lambda>buf. from_be_bytes (0 # buf)) (read_array rd 3 r)"

definition read_u32 :: "'r reader_fn \<Rightarrow> 'r \<Rightarrow> (io_error, u32) rs \<times> 'r" where
  "read_u32 rd r = map_ok from_be_bytes (read_array rd 4 r)"

definition read_u64 :: "'r reader_fn \<Rightarrow> 'r \<Rightarrow> (io_error, u64) rs \<times> 'r" where
  "read_u64 rd r = map_ok from_be_bytes (read_array rd 8 r)"

definition write_u8 :: "'w writer_fn \<Rightarrow> u8 \<Rightarrow> 'w \<Rightarrow> (io_error, unit) rs \<times> 'w" where
  "write_u8 wr value w = write_all wr w [value]"

definition write_u16 :: "'w writer_fn \<Rightarrow> u16 \<Rightarrow> 'w \<Rightarrow> (io_error, unit) rs \<times> 'w" where
  "write_u16 wr value w = write_all wr w (to_be_bytes value)"

definition write_u24 :: "'w writer_fn \<Rightarrow> u32 \<Rightarrow> 'w \<Rightarrow> (io_error, unit) rs \<times> 'w" where
  "write_u24 wr value w = write_all wr w (drop 1 (to_be_bytes (value AND 0x00FFFFFF)))"

definition write_u32 :: "'w writer_fn \<Rightarrow> u32 \<Rightarrow> 'w \<Rightarrow> (io_error, unit) rs \<times> 'w" where
  "write_u32 wr value w = write_all wr w (to_be_bytes value)"

definition write_u64 :: "'w writer_fn \<Rightarrow> u64 \<Rightarrow> 'w \<Rightarrow> (io_error, unit) rs \<times> 'w" where
  "write_u64 wr value w = write_all wr w (to_be_bytes value)"

lemma from_be_singleton [simp]: "from_be_bytes [b] = (b :: u8)"
  by (simp add: from_be_bytes_def)

lemma from_be_u24 [simp]:
  "from_be_bytes (0 # drop (Suc 0) (to_be_bytes ((w :: u32) AND 0x00FFFFFF))) = w AND 0x00FFFFFF"
  using from_be_to_be_u32 [of "w AND 0x00FFFFFF"] by (metis One_nat_def u24_bytes)

context byte_source
begin

lemma read_u8_yields [step_rules]: "yields pending (read_u8 rd) [v] (Ok v)"
  unfolding read_u8_def by (rule yields_map_ok [OF read_array_yields]) simp_all

lemma read_u16_yields [step_rules]: "yields pending (read_u16 rd) (to_be_bytes v) (Ok v)"
  unfolding read_u16_def by (rule yields_map_ok [OF read_array_yields]) simp_all

lemma read_u24_yields [step_rules]:
  "yields pending (read_u24 rd) (drop 1 (to_be_bytes (v AND 0x00FFFFFF))) (Ok (v AND 0x00FFFFFF))"
  unfolding read_u24_def by (rule yields_map_ok [OF read_array_yields]) simp_all

lemma read_u32_yields [step_rules]: "yields pending (read_u32 rd) (to_be_bytes v) (Ok v)"
  unfolding read_u32_def by (rule yields_map_ok [OF read_array_yields]) simp_all

lemma read_u64_yields [step_rules]: "yields pending (read_u64 rd) (to_be_bytes v) (Ok v)"
  unfolding read_u64_def by (rule yields_map_ok [OF read_array_yields]) simp_all

lemma read_ints_starve:
  "starves pending (read_u8 rd) UnexpectedEof 1"
  "starves pending (read_u16 rd) UnexpectedEof 2"
  "starves pending (read_u32 rd) UnexpectedEof 4"
  "starves pending (read_u64 rd) UnexpectedEof 8"
  unfolding read_u8_def read_u16_def read_u32_def read_u64_def
  by (rule starves_map_ok [OF read_array_starves])+

end

context byte_sink
begin

lemma write_ints_emit [step_rules]:
  "emits sent (write_u8 wr b) [b] ()"
  "emits sent (write_u16 wr v2) (to_be_bytes v2) ()"
  "emits sent (write_u24 wr v3) (drop 1 (to_be_bytes (v3 AND 0x00FFFFFF))) ()"
  "emits sent (write_u32 wr v4) (to_be_bytes v4) ()"
  "emits sent (write_u64 wr v8) (to_be_bytes v8) ()"
  unfolding write_u8_def write_u16_def write_u24_def write_u32_def write_u64_def
  by (rule write_all_emits)+

end

section \<open>The frame header\<close>

record frame_header =
  h_stream_id :: u32
  h_frame_len :: u32
  h_frame_type :: u8
  h_flags :: u8

text \<open>
  The part of \<open>read_header\<close> that works on the nine bytes through a slice reader; the limit
  check comes between the reads.
\<close>

definition parse_header ::
  "settings \<Rightarrow> bytes \<Rightarrow> (io_proto_error, frame_header) rs \<times> bytes" where
  "parse_header settings header =
     and_then (map_err Io (read_u24 slice_read header)) (\<lambda>frame_len buf.
       if frame_len > setting_value (settings_get settings MaxFrameSize)
       then (Err (Protocol FrameSizeError), buf)
       else and_then (map_err Io (read_u8 slice_read buf)) (\<lambda>frame_type buf.
            and_then (map_err Io (read_u8 slice_read buf)) (\<lambda>flags buf.
            and_then (map_err Io (read_u32 slice_read buf)) (\<lambda>stream_id buf.
              (Ok \<lparr>h_stream_id = stream_id AND 0x7FFFFFFF, h_frame_len = frame_len,
                   h_frame_type = frame_type, h_flags = flags\<rparr>, buf)))))"

definition read_header ::
  "settings \<Rightarrow> 'r reader_fn \<Rightarrow> 'r \<Rightarrow> (io_proto_error, frame_header) rs \<times> 'r" where
  "read_header settings rd r =
     and_then (map_err Io (read_array rd 9 r)) (\<lambda>header r.
       (fst (parse_header settings header), r))"

definition header_array :: "frame_header \<Rightarrow> (io_error, unit) rs \<times> slice_writer" where
  "header_array header =
     and_then (write_u24 slice_write (h_frame_len header) ([], 9)) (\<lambda>_ s.
     and_then (write_u8 slice_write (h_frame_type header) s) (\<lambda>_ s.
     and_then (write_u8 slice_write (h_flags header) s) (\<lambda>_ s.
       write_u32 slice_write (h_stream_id header AND 0x7FFFFFFF) s)))"

definition write_header ::
  "'w writer_fn \<Rightarrow> frame_header \<Rightarrow> 'w \<Rightarrow> (io_error, nat) rs \<times> 'w" where
  "write_header wr header w =
     (case header_array header of
        (Ok _, s) \<Rightarrow> map_ok (\<lambda>_. 9) (write_all wr w (array_of 9 s))
      | (Err e, s) \<Rightarrow> (Err e, w)
      | (Panic, s) \<Rightarrow> (Panic, w))"

definition http_frame_read_header ::
  "'r reader_fn \<Rightarrow> settings option \<Rightarrow> 'r option \<Rightarrow> frame_header http_result option
    \<Rightarrow> (error_code \<times> 'r \<times> frame_header http_result) option" where
  "http_frame_read_header rd context_settings reader res =
     (case context_settings of
        None \<Rightarrow> None
      | Some settings \<Rightarrow> ffi_read_frame (read_header settings rd) reader res)"

definition http_frame_write_header ::
  "'w writer_fn \<Rightarrow> 'w option \<Rightarrow> frame_header \<Rightarrow> nat http_result option
    \<Rightarrow> ('w \<times> nat http_result) option" where
  "http_frame_write_header wr writer header res =
     ffi_write_frame display_io
       (\<lambda>w. map_ok (\<lambda>_. 9) (write_header wr header w)) writer res"

section \<open>The wire format\<close>

definition header_wire :: "frame_header \<Rightarrow> bytes" where
  "header_wire h =
     drop 1 (to_be_bytes (h_frame_len h AND 0x00FFFFFF)) @ [h_frame_type h, h_flags h] @
     to_be_bytes (h_stream_id h AND 0x7FFFFFFF)"

definition wf_header :: "frame_header \<Rightarrow> bool" where
  "wf_header h \<longleftrightarrow> h_frame_len h < 0x1000000 \<and> h_stream_id h < 0x80000000"

lemma length_header_wire [simp]: "length (header_wire h) = 9"
  by (simp add: header_wire_def)

lemma header_array_wire: "header_array h = (Ok (), (header_wire h, 0))"
  by (simp add: header_array_def write_u24_def write_u8_def write_u32_def write_all_slice
      header_wire_def)

lemma write_header_wire:
  "write_header wr h w = map_ok (\<lambda>_. 9) (write_all wr w (header_wire h))"
  by (simp add: write_header_def header_array_wire array_of_def)

lemma parse_header_wire:
  assumes "header = drop 1 (to_be_bytes (len AND 0x00FFFFFF)) @ [ty, fl] @ to_be_bytes sid"
  shows "fst (parse_header settings header) =
    (if len AND 0x00FFFFFF > setting_value (settings_get settings MaxFrameSize)
     then Err (Protocol FrameSizeError)
     else Ok \<lparr>h_stream_id = sid AND 0x7FFFFFFF, h_frame_len = len AND 0x00FFFFFF,
              h_frame_type = ty, h_flags = fl\<rparr>)"
proof -
  let ?m = "\<lambda>x. (x :: u32) AND 0x00FFFFFF"
  from assms have "id header = drop 1 (to_be_bytes (?m len)) @ [ty, fl] @ to_be_bytes sid"
    by simp
  then obtain b1 where 1: "read_u24 slice_read header = (Ok (?m len), b1)"
    and p1: "id b1 = [ty] @ [fl] @ to_be_bytes sid"
    using yieldsD [OF slice.read_u24_yields] by fastforce
  from p1 obtain b2 where 2: "read_u8 slice_read b1 = (Ok ty, b2)"
    and p2: "id b2 = [fl] @ to_be_bytes sid"
    using yieldsD [OF slice.read_u8_yields] by blast
  from p2 obtain b3 where 3: "read_u8 slice_read b2 = (Ok fl, b3)" and p3: "id b3 = to_be_bytes sid @ []"
    using yieldsD [OF slice.read_u8_yields] by fastforce
  from p3 obtain b4 where 4: "read_u32 slice_read b3 = (Ok sid, b4)"
    using yieldsD [OF slice.read_u32_yields] by blast
  show ?thesis by (simp add: parse_header_def 1 2 3 4)
qed

context byte_sink
begin

lemma write_header_emits [step_rules]: "emits sent (write_header wr h) (header_wire h) 9"
proof -
  have "write_header wr h = (\<lambda>w. map_ok (\<lambda>_. 9) (write_all wr w (header_wire h)))"
    by (rule ext) (rule write_header_wire)
  then show ?thesis by (simp add: emits_map_ok [OF write_all_emits])
qed

end

context byte_source
begin

lemma read_header_yields:
  assumes "xs = drop 1 (to_be_bytes (len AND 0x00FFFFFF)) @ [ty, fl] @ to_be_bytes sid"
  shows "yields pending (read_header settings rd) xs
      (if len AND 0x00FFFFFF > setting_value (settings_get settings MaxFrameSize)
       then Err (Protocol FrameSizeError)
       else Ok \<lparr>h_stream_id = sid AND 0x7FFFFFFF, h_frame_len = len AND 0x00FFFFFF,
                h_frame_type = ty, h_flags = fl\<rparr>)"
  unfolding read_header_def
proof (rule yields_bind [OF yields_map_err(1) [OF read_array_yields]])
  show "length xs = 9" by (simp add: assms)
qed (simp_all add: parse_header_wire [OF assms] yields_return)

lemma read_header_starves:
  "starves pending (read_header settings rd) (Io UnexpectedEof) 9"
  unfolding read_header_def
  using starves_bind [OF starves_map_err [OF read_array_starves [of 9] refl],
      of Io "\<lambda>header r. (fst (parse_header settings header), r)" 0]
  by (auto intro: starves_0 yields_map_err read_array_yields)

lemma read_header_wire:
  assumes "wf_header h"
  shows "yields pending (read_header settings rd) (header_wire h)
      (if h_frame_len h > setting_value (settings_get settings MaxFrameSize)
       then Err (Protocol FrameSizeError) else Ok h)"
proof -
  from assms have m: "h_frame_len h AND 0x00FFFFFF = h_frame_len h"
    "h_stream_id h AND 0x7FFFFFFF = h_stream_id h"
    by (simp_all add: wf_header_def and_24 and_31)
  then show ?thesis
    using read_header_yields [of "header_wire h" "h_frame_len h" "h_frame_type h" "h_flags h"
        "h_stream_id h AND 0x7FFFFFFF" settings]
    by (cases h) (simp add: header_wire_def cong: if_cong)
qed

end

text \<open>Nine bytes are always a header, up to the reserved bit.\<close>

lemma u24_from_bytes: "(from_be_bytes [0, a, b, c] :: u32) AND 0x00FFFFFF = from_be_bytes [0, a, b, c]"
proof (rule bit_word_eqI)
  fix n :: nat assume n: "n < LENGTH(32)"
  have "(0x00FFFFFF :: u32) = mask 24" by (simp add: mask_eq_decr_exp)
  moreover have "\<not> bit (from_be_bytes [0, a, b, c] :: u32) n" if "24 \<le> n"
  proof -
    from n that have "n div 8 = 3" by simp
    then show ?thesis by (simp add: from_be_bytes_def bit_from_le_bytes del: from_le_bytes.simps)
  qed
  ultimately show "bit ((from_be_bytes [0, a, b, c] :: u32) AND 0x00FFFFFF) n \<longleftrightarrow>
      bit (from_be_bytes [0, a, b, c] :: u32) n"
    by (simp only: bit_and_iff bit_mask_iff) (use n not_le in auto)
qed

lemma nine_bytes_header:
  assumes "length bs = 9"
  obtains len ty fl sid where
    "bs = drop 1 (to_be_bytes ((len :: u32) AND 0x00FFFFFF)) @ [ty, fl] @
      to_be_bytes (sid :: u32)"
proof -
  from assms have "length (drop 5 bs) = 4" by simp
  then have sid: "to_be_bytes (from_be_bytes (drop 5 bs) :: u32) = drop 5 bs"
    by (simp add: to_be_from_be)
  let ?len = "from_be_bytes [0, bs ! 0, bs ! 1, bs ! 2] :: u32"
  have "to_be_bytes (?len AND 0x00FFFFFF) = [0, bs ! 0, bs ! 1, bs ! 2]"
    unfolding u24_from_bytes by (simp add: to_be_from_be)
  moreover have "bs = [bs ! 0, bs ! 1, bs ! 2] @ [bs ! 3, bs ! 4] @ drop 5 bs"
    using assms by (intro nth_equalityI) (auto simp: nth_append nth_Cons numeral_eq_Suc split: nat.splits)
  ultimately show thesis
    by (intro that [of ?len "bs ! 3" "bs ! 4" "from_be_bytes (drop 5 bs)"]) (simp add: sid)
qed

section \<open>Words with a flag in the top bit\<close>

lemma bit_top_31: "(0x80000000 :: u32) = push_bit 31 1" "(0x7FFFFFFF :: u32) = mask 31"
  by (simp_all add: mask_eq_decr_exp)

lemma dep_split:
  "((dep :: u32) AND 0x7FFFFFFF OR (if e then 0x80000000 else 0)) AND 0x7FFFFFFF = dep AND 0x7FFFFFFF"
  "((dep :: u32) AND 0x7FFFFFFF OR (if e then 0x80000000 else 0)) AND 0x80000000 \<noteq> 0 \<longleftrightarrow> e"
proof -
  show "((dep :: u32) AND 0x7FFFFFFF OR (if e then 0x80000000 else 0)) AND 0x7FFFFFFF = dep AND 0x7FFFFFFF"
    by (rule bit_word_eqI) (auto simp: bit_top_31 bit_simps simp del: push_bit_numeral push_bit_of_1)
  have "dep AND 0x7FFFFFFF AND 0x80000000 = 0"
    by (rule bit_word_eqI) (auto simp: bit_top_31 bit_simps simp del: push_bit_numeral push_bit_of_1)
  then show "((dep :: u32) AND 0x7FFFFFFF OR (if e then 0x80000000 else 0)) AND 0x80000000 \<noteq> 0 \<longleftrightarrow> e"
    by (simp add: bit.conj_disj_distrib2 and.assoc)
qed

end
