(* ===== verification/Frames_Fixed.thy ===== *)
theory Frames_Fixed
  imports Frame
begin

text \<open>
  The frames of fixed size in \<open>http/src/http2/frame/\<close>: \<open>ping.rs\<close>, \<open>rst_stream.rs\<close>,
  \<open>priority.rs\<close> and \<open>window_update.rs\<close>, with their exported functions.

  For each: the payload as bytes, the writer emits the header's and the payload's wire
  format, the reader yields the frame from its payload and starves on a shorter one, and
  the checks of the header give the error codes of RFC 9113 before anything is read.
\<close>

section \<open>PING\<close>

record ping_frame =
  ping_data :: u64
  ping_is_ack :: bool

definition PING_TYPE :: u8 where "PING_TYPE = 0x6"
definition PING_ACK :: u8 where "PING_ACK = 0x1"

definition ping_read_frame ::
  "'r reader_fn \<Rightarrow> frame_header \<Rightarrow> 'r \<Rightarrow> (io_proto_error, ping_frame) rs \<times> 'r" where
  "ping_read_frame rd header r =
     (if h_frame_type header \<noteq> PING_TYPE then (Panic, r)
      else if h_stream_id header \<noteq> 0 then (Err (Protocol ProtocolError), r)
      else if h_frame_len header \<noteq> 8 then (Err (Protocol FrameSizeError), r)
      else and_then (map_err Io (read_u64 rd r)) (\<lambda>data r.
        (Ok \<lparr>ping_data = data, ping_is_ack = (h_flags header AND PING_ACK \<noteq> 0)\<rparr>, r)))"

definition ping_header :: "ping_frame \<Rightarrow> frame_header" where
  "ping_header frame =
     \<lparr>h_stream_id = 0, h_frame_len = 8, h_frame_type = PING_TYPE,
      h_flags = (if ping_is_ack frame then PING_ACK else 0)\<rparr>"

definition ping_write_frame ::
  "'w writer_fn \<Rightarrow> ping_frame \<Rightarrow> 'w \<Rightarrow> (io_error, nat) rs \<times> 'w" where
  "ping_write_frame wr frame w =
     and_then (write_header wr (ping_header frame) w) (\<lambda>written w.
     and_then (write_u64 wr (ping_data frame) w) (\<lambda>_ w. (Ok (written + 8), w)))"

definition http_ping_read_frame ::
  "'r reader_fn \<Rightarrow> 'r option \<Rightarrow> frame_header \<Rightarrow> ping_frame http_result option
    \<Rightarrow> (error_code \<times> 'r \<times> ping_frame http_result) option" where
  "http_ping_read_frame rd reader header res =
     ffi_read_frame (ping_read_frame rd header) reader res"

definition http_ping_write_frame ::
  "'w writer_fn \<Rightarrow> 'w option \<Rightarrow> ping_frame \<Rightarrow> nat http_result option
    \<Rightarrow> ('w \<times> nat http_result) option" where
  "http_ping_write_frame wr writer frame res =
     ffi_write_frame display_io (ping_write_frame wr frame) writer res"

section \<open>RST_STREAM\<close>

definition RST_STREAM_TYPE :: u8 where "RST_STREAM_TYPE = 0x3"

definition rst_stream_read_frame ::
  "'r reader_fn \<Rightarrow> frame_header \<Rightarrow> 'r \<Rightarrow> (io_proto_error, u32) rs \<times> 'r" where
  "rst_stream_read_frame rd header r =
     (if h_frame_type header \<noteq> RST_STREAM_TYPE then (Panic, r)
      else if h_stream_id header = 0 then (Err (Protocol ProtocolError), r)
      else if h_frame_len header \<noteq> 4 then (Err (Protocol FrameSizeError), r)
      else map_err Io (read_u32 rd r))"

definition rst_stream_header :: "u32 \<Rightarrow> frame_header" where
  "rst_stream_header stream_id =
     \<lparr>h_stream_id = stream_id, h_frame_len = 4, h_frame_type = RST_STREAM_TYPE, h_flags = 0\<rparr>"

definition rst_stream_write_frame ::
  "'w writer_fn \<Rightarrow> u32 \<Rightarrow> u32 \<Rightarrow> 'w \<Rightarrow> (io_error, nat) rs \<times> 'w" where
  "rst_stream_write_frame wr stream_id code w =
     and_then (write_header wr (rst_stream_header stream_id) w) (\<lambda>written w.
     and_then (write_u32 wr code w) (\<lambda>_ w. (Ok (written + 4), w)))"

definition http_rst_stream_read_frame ::
  "'r reader_fn \<Rightarrow> 'r option \<Rightarrow> frame_header \<Rightarrow> u32 http_result option
    \<Rightarrow> (error_code \<times> 'r \<times> u32 http_result) option" where
  "http_rst_stream_read_frame rd reader header res =
     ffi_read_frame (rst_stream_read_frame rd header) reader res"

definition http_rst_stream_write_frame ::
  "'w writer_fn \<Rightarrow> 'w option \<Rightarrow> u32 \<Rightarrow> u32 \<Rightarrow> nat http_result option
    \<Rightarrow> ('w \<times> nat http_result) option" where
  "http_rst_stream_write_frame wr writer stream_id code res =
     ffi_write_frame display_io (rst_stream_write_frame wr stream_id code) writer res"

section \<open>PRIORITY\<close>

record priority_frame =
  p_stream_dep :: u32
  p_exclusive :: bool
  p_weight :: u8

definition PRIORITY_TYPE :: u8 where "PRIORITY_TYPE = 0x2"

definition priority_read_frame ::
  "'r reader_fn \<Rightarrow> frame_header \<Rightarrow> 'r \<Rightarrow> (io_proto_error, priority_frame) rs \<times> 'r" where
  "priority_read_frame rd header r =
     (if h_frame_type header \<noteq> PRIORITY_TYPE then (Panic, r)
      else if h_stream_id header = 0 then (Err (Protocol ProtocolError), r)
      else if h_frame_len header \<noteq> 5 then (Err (Protocol FrameSizeError), r)
      else and_then (map_err Io (read_u32 rd r)) (\<lambda>dep r.
        if dep AND 0x7FFFFFFF = h_stream_id header then (Err (Protocol ProtocolError), r)
        else and_then (map_err Io (read_u8 rd r)) (\<lambda>weight r.
          (Ok \<lparr>p_stream_dep = dep AND 0x7FFFFFFF, p_exclusive = (dep AND 0x80000000 \<noteq> 0),
               p_weight = weight\<rparr>, r))))"

definition priority_header :: "u32 \<Rightarrow> frame_header" where
  "priority_header stream_id =
     \<lparr>h_stream_id = stream_id, h_frame_len = 5, h_frame_type = PRIORITY_TYPE, h_flags = 0\<rparr>"

definition priority_dep :: "priority_frame \<Rightarrow> u32" where
  "priority_dep frame = p_stream_dep frame OR (if p_exclusive frame then 0x80000000 else 0x0)"

text \<open>The five bytes are put together in an array first, then header and array are written.\<close>

definition priority_write_frame ::
  "'w writer_fn \<Rightarrow> u32 \<Rightarrow> priority_frame \<Rightarrow> 'w \<Rightarrow> (io_error, nat) rs \<times> 'w" where
  "priority_write_frame wr stream_id frame w =
     (case and_then (write_u32 slice_write (priority_dep frame) ([], 5))
             (\<lambda>_ s. write_u8 slice_write (p_weight frame) s) of
        (Ok _, s) \<Rightarrow>
          and_then (write_header wr (priority_header stream_id) w) (\<lambda>written w.
          and_then (write_all wr w (take 5 (array_of 5 s))) (\<lambda>_ w. (Ok (written + 5), w)))
      | (Err e, s) \<Rightarrow> (Err e, w)
      | (Panic, s) \<Rightarrow> (Panic, w))"

definition http_priority_read_frame ::
  "'r reader_fn \<Rightarrow> 'r option \<Rightarrow> frame_header \<Rightarrow> priority_frame http_result option
    \<Rightarrow> (error_code \<times> 'r \<times> priority_frame http_result) option" where
  "http_priority_read_frame rd reader header res =
     ffi_read_frame (priority_read_frame rd header) reader res"

definition http_priority_write_frame ::
  "'w writer_fn \<Rightarrow> 'w option \<Rightarrow> u32 \<Rightarrow> priority_frame \<Rightarrow> nat http_result option
    \<Rightarrow> ('w \<times> nat http_result) option" where
  "http_priority_write_frame wr writer stream_id frame res =
     ffi_write_frame display_io (priority_write_frame wr stream_id frame) writer res"

section \<open>WINDOW_UPDATE\<close>

record window_update_frame =
  w_stream_id :: u32
  w_increment :: u32

definition WINDOW_UPDATE_TYPE :: u8 where "WINDOW_UPDATE_TYPE = 0x8"

definition window_update_read_frame ::
  "'r reader_fn \<Rightarrow> frame_header \<Rightarrow> 'r \<Rightarrow> (io_proto_error, window_update_frame) rs \<times> 'r" where
  "window_update_read_frame rd header r =
     (if h_frame_type header \<noteq> WINDOW_UPDATE_TYPE then (Panic, r)
      else if h_frame_len header \<noteq> 4 then (Err (Protocol FrameSizeError), r)
      else and_then (map_err Io (read_u32 rd r)) (\<lambda>v r.
        if v AND 0x7FFFFFFF = 0 then (Err (Protocol ProtocolError), r)
        else (Ok \<lparr>w_stream_id = h_stream_id header, w_increment = v AND 0x7FFFFFFF\<rparr>, r)))"

definition window_update_header :: "u32 \<Rightarrow> frame_header" where
  "window_update_header stream_id =
     \<lparr>h_stream_id = stream_id, h_frame_len = 4, h_frame_type = WINDOW_UPDATE_TYPE, h_flags = 0\<rparr>"

definition window_update_write_frame ::
  "'w writer_fn \<Rightarrow> u32 \<Rightarrow> u32 \<Rightarrow> 'w \<Rightarrow> (io_proto_error, nat) rs \<times> 'w" where
  "window_update_write_frame wr stream_id increment w =
     and_then (map_err Io (write_header wr (window_update_header stream_id) w)) (\<lambda>written w.
     and_then (map_err Io (write_u32 wr increment w)) (\<lambda>_ w. (Ok (written + 4), w)))"

definition http_window_update_read_frame ::
  "'r reader_fn \<Rightarrow> 'r option \<Rightarrow> frame_header \<Rightarrow> window_update_frame http_result option
    \<Rightarrow> (error_code \<times> 'r \<times> window_update_frame http_result) option" where
  "http_window_update_read_frame rd reader header res =
     ffi_read_frame (window_update_read_frame rd header) reader res"

definition http_window_update_write_frame ::
  "'w writer_fn \<Rightarrow> 'w option \<Rightarrow> u32 \<Rightarrow> u32 \<Rightarrow> nat http_result option
    \<Rightarrow> ('w \<times> nat http_result) option" where
  "http_window_update_write_frame wr writer stream_id increment res =
     ffi_write_frame display_io_proto (window_update_write_frame wr stream_id increment) writer res"

section \<open>What the writers emit\<close>

context byte_sink
begin

lemma ping_write_emits:
  "emits sent (ping_write_frame wr f) (header_wire (ping_header f) @ to_be_bytes (ping_data f)) 17"
  unfolding ping_write_frame_def by (rule step_rules refl | simp)+

lemma rst_stream_write_emits:
  "emits sent (rst_stream_write_frame wr sid code)
     (header_wire (rst_stream_header sid) @ to_be_bytes code) 13"
  unfolding rst_stream_write_frame_def by (rule step_rules refl | simp)+

lemma window_update_write_emits:
  "emits sent (window_update_write_frame wr sid inc)
     (header_wire (window_update_header sid) @ to_be_bytes inc) 13"
  unfolding window_update_write_frame_def by (rule step_rules refl | simp)+

lemma priority_write_emits:
  "emits sent (priority_write_frame wr sid f)
     (header_wire (priority_header sid) @ to_be_bytes (priority_dep f) @ [p_weight f]) 14"
proof -
  have "priority_write_frame wr sid f = (\<lambda>w.
      and_then (write_header wr (priority_header sid) w) (\<lambda>written w.
      and_then (write_all wr w (to_be_bytes (priority_dep f) @ [p_weight f]))
        (\<lambda>_ w. (Ok (written + 5), w))))"
    by (rule ext) (simp add: priority_write_frame_def write_u32_def write_u8_def
        write_all_slice array_of_def)
  then show ?thesis by (simp only:) (rule step_rules refl | simp)+
qed

end

section \<open>What the readers accept\<close>

context byte_source
begin

lemma ping_read_yields:
  assumes "h_frame_type h = PING_TYPE" and "h_stream_id h = 0" and "h_frame_len h = 8"
  shows "yields pending (ping_read_frame rd h) (to_be_bytes d)
    (Ok \<lparr>ping_data = d, ping_is_ack = (h_flags h AND PING_ACK \<noteq> 0)\<rparr>)"
  unfolding ping_read_frame_def by (rule step_rules refl | simp add: assms)+

lemma ping_read_starves:
  assumes "h_frame_type h = PING_TYPE" and "h_stream_id h = 0" and "h_frame_len h = 8"
  shows "starves pending (ping_read_frame rd h) (Io UnexpectedEof) 8"
proof -
  have "starves pending (\<lambda>r. and_then (map_err Io (read_u64 rd r)) k) (Io UnexpectedEof) (8 + 0)"
    for k :: "u64 \<Rightarrow> _ \<Rightarrow> (io_proto_error, ping_frame) rs \<times> _"
  proof (rule starves_bind [OF starves_map_err [OF read_ints_starve(4) refl]])
    fix xs :: bytes assume "length xs = 8"
    then have "xs = to_be_bytes (from_be_bytes xs :: u64)" by (simp add: to_be_from_be)
    then show "\<exists>v. yields pending (\<lambda>r. map_err Io (read_u64 rd r)) xs (Ok v) \<and>
        starves pending (k v) (Io UnexpectedEof) 0"
      by (metis yields_map_err(1) read_u64_yields starves_0)
  qed
  with assms show ?thesis by (simp add: ping_read_frame_def [abs_def])
qed

lemma rst_stream_read_yields:
  assumes "h_frame_type h = RST_STREAM_TYPE" and "h_stream_id h \<noteq> 0" and "h_frame_len h = 4"
  shows "yields pending (rst_stream_read_frame rd h) (to_be_bytes code) (Ok code)"
  unfolding rst_stream_read_frame_def by (rule step_rules refl | simp add: assms)+

lemma rst_stream_read_starves:
  assumes "h_frame_type h = RST_STREAM_TYPE" and "h_stream_id h \<noteq> 0" and "h_frame_len h = 4"
  shows "starves pending (rst_stream_read_frame rd h) (Io UnexpectedEof) 4"
  unfolding rst_stream_read_frame_def using assms
  by (simp add: starves_map_err [OF read_ints_starve(3)])

lemma priority_read_yields:
  assumes "h_frame_type h = PRIORITY_TYPE" and "h_stream_id h \<noteq> 0" and "h_frame_len h = 5"
    and "dep AND 0x7FFFFFFF \<noteq> h_stream_id h"
  shows "yields pending (priority_read_frame rd h) (to_be_bytes dep @ [wt])
    (Ok \<lparr>p_stream_dep = dep AND 0x7FFFFFFF, p_exclusive = (dep AND 0x80000000 \<noteq> 0), p_weight = wt\<rparr>)"
  unfolding priority_read_frame_def by (rule step_rules refl | simp add: assms)+

lemma priority_read_self:
  assumes "h_frame_type h = PRIORITY_TYPE" and "h_stream_id h \<noteq> 0" and "h_frame_len h = 5"
    and "dep AND 0x7FFFFFFF = h_stream_id h"
  shows "yields pending (priority_read_frame rd h) (to_be_bytes dep) (Err (Protocol ProtocolError))"
  unfolding priority_read_frame_def by (rule step_rules refl | simp add: assms)+

lemma window_update_read_yields:
  assumes "h_frame_type h = WINDOW_UPDATE_TYPE" and "h_frame_len h = 4"
  shows "yields pending (window_update_read_frame rd h) (to_be_bytes v)
    (if v AND 0x7FFFFFFF = 0 then Err (Protocol ProtocolError)
     else Ok \<lparr>w_stream_id = h_stream_id h, w_increment = v AND 0x7FFFFFFF\<rparr>)"
  unfolding window_update_read_frame_def
  by (cases "v AND 0x7FFFFFFF = 0") (rule step_rules refl | simp add: assms)+

end

end
