(* ===== verification/Frames_Data.thy ===== *)
theory Frames_Data
  imports Frame
begin

text \<open>
  The frames of variable size in \<open>http/src/http2/frame/\<close>: \<open>data.rs\<close>, \<open>continuation.rs\<close>,
  \<open>go_away.rs\<close> and the frame functions of \<open>header.rs\<close>, with their exported functions.
  They read their payload into a \<open>Buffer\<close> of the caller's record, which is therefore part
  of the state that is passed along.

  For each: the writer emits the header's and the payload's wire format; the reader, given
  the payload of a frame with any padding, leaves exactly the data in the buffer, keeps the
  buffer's invariant and leaves the following bytes pending; bad padding and dependencies
  are protocol errors.
\<close>

section \<open>Reading into a buffer\<close>

text \<open>\<open>reader.read_exact(&mut buffer[start..])\<close>\<close>

definition fill_from ::
  "'r reader_fn \<Rightarrow> nat \<Rightarrow> buffer \<times> 'r \<Rightarrow> (io_error, unit) rs \<times> (buffer \<times> 'r)" where
  "fill_from rd start s =
     (case s of (b, r) \<Rightarrow>
        (case read_exact rd r (drop start (as_slice b)) of
           (x, got, r') \<Rightarrow> (x, (b\<lparr>b_buf := map_option (\<lambda>cs. overwrite cs start got) (b_buf b)\<rparr>, r'))))"

text \<open>\<open>buffer.reserve_len(n); buffer.len = n; reader.read_exact(&mut buffer)\<close>\<close>

definition read_into ::
  "'r reader_fn \<Rightarrow> nat \<Rightarrow> buffer \<times> 'r \<Rightarrow> (io_error, unit) rs \<times> (buffer \<times> 'r)" where
  "read_into rd n s =
     (case s of (b, r) \<Rightarrow>
        (case reserve_len b n of
           None \<Rightarrow> (Panic, s)
         | Some b' \<Rightarrow> fill_from rd 0 (b'\<lparr>b_len := n\<rparr>, r)))"

text \<open>\<open>buffer.reserve(n); buffer.len += n; reader.read_exact(&mut buffer[start..])\<close>\<close>

definition read_append ::
  "'r reader_fn \<Rightarrow> nat \<Rightarrow> buffer \<times> 'r \<Rightarrow> (io_error, unit) rs \<times> (buffer \<times> 'r)" where
  "read_append rd n s =
     (case s of (b, r) \<Rightarrow>
        (case reserve b n of
           None \<Rightarrow> (Panic, s)
         | Some b' \<Rightarrow> fill_from rd (b_len b') (b'\<lparr>b_len := b_len b' + n\<rparr>, r)))"

lemma fill_wf:
  assumes "wf_buffer b" and "start \<le> b_len b" and "length got = b_len b - start"
  defines "b' \<equiv> b\<lparr>b_buf := map_option (\<lambda>cs. overwrite cs start got) (b_buf b)\<rparr>"
  shows "wf_buffer b'" and "as_slice b' = take start (as_slice b) @ got" and "b_alloc b' = b_alloc b"
proof -
  have len: "b_len b \<le> length (cells b)" by (rule wf_len_cells [OF assms(1)])
  show "wf_buffer b'"
    using assms len by (auto simp: wf_buffer_def is_sane_def cells_def live_blocks_def)
  show "as_slice b' = take start (as_slice b) @ got"
  proof (cases "b_buf b")
    case None
    with len assms show ?thesis by (simp add: as_slice_def cells_def)
  next
    case (Some cs)
    with len assms take_overwrite [of start cs got] show ?thesis
      by (simp add: as_slice_def cells_def min_def)
  qed
qed (simp add: b'_def)

lemma reserve_len_room: "wf_buffer b \<Longrightarrow> buffer_room b n \<Longrightarrow> \<exists>b'. reserve_len b n = Some b'"
  by (rule reserve_len_total [of b "2 * n"]) (auto simp: buffer_room_def)

context byte_source
begin

lemma fill_from_ok:
  assumes "wf_buffer b" and "start \<le> b_len b" and "pending r = xs @ ys"
    and "length xs = b_len b - start"
  obtains b' r' where "fill_from rd start (b, r) = (Ok (), (b', r'))" and "wf_buffer b'"
    and "as_slice b' = take start (as_slice b) @ xs" and "b_alloc b' = b_alloc b"
    and "pending r' = ys"
proof -
  have "length xs = length (drop start (as_slice b))"
    using assms by (simp add: wf_length_slice)
  with assms(3) obtain r' where "read_exact rd r (drop start (as_slice b)) = (Ok (), xs, r')"
    and "pending r' = ys" by (rule read_exact_next)
  then show thesis
    using fill_wf [OF assms(1,2,4)] by (intro that [of "b\<lparr>b_buf := _\<rparr>"]) (simp_all add: fill_from_def)
qed

lemma read_into_ok:
  assumes "wf_buffer b" and "buffer_room b n" and "pending r = xs @ ys" and "length xs = n"
  obtains b' r' where "read_into rd n (b, r) = (Ok (), (b', r'))" and "wf_buffer b'"
    and "as_slice b' = xs" and "b_alloc b' = b_alloc b" and "pending r' = ys"
proof -
  obtain b1 where b1: "reserve_len b n = Some b1"
    using reserve_len_room [OF assms(1,2)] by blast
  have wf: "wf_buffer (b1\<lparr>b_len := n\<rparr>)"
    using wf_reserve_len [OF assms(1) b1] reserve_len_cap [OF b1] by (simp add: wf_set_len)
  from assms(4) have "length xs = b_len (b1\<lparr>b_len := n\<rparr>) - 0" by simp
  from fill_from_ok [OF wf _ assms(3) this] obtain b' r' where
    "fill_from rd 0 (b1\<lparr>b_len := n\<rparr>, r) = (Ok (), (b', r'))" "wf_buffer b'" "as_slice b' = xs"
    "b_alloc b' = b_alloc (b1\<lparr>b_len := n\<rparr>)" "pending r' = ys" by auto
  then show thesis
    using reserve_len_alloc [OF b1] by (intro that [of b' r']) (simp_all add: read_into_def b1)
qed

lemma read_into_eof:
  assumes "wf_buffer b" and "buffer_room b n" and "length (pending r) < n"
  obtains b' r' where "read_into rd n (b, r) = (Err UnexpectedEof, (b', r'))" and "wf_buffer b'"
    and "pending r' = []"
proof -
  obtain b1 where b1: "reserve_len b n = Some b1"
    using reserve_len_room [OF assms(1,2)] by blast
  let ?b = "b1\<lparr>b_len := n\<rparr>"
  have wf: "wf_buffer ?b"
    using wf_reserve_len [OF assms(1) b1] reserve_len_cap [OF b1] by (simp add: wf_set_len)
  have l: "length (as_slice ?b) = n" using wf_length_slice [OF wf] by simp
  with assms(3) read_exact_eof obtain got r' where
    e: "read_exact rd r (as_slice ?b) = (Err UnexpectedEof, got, r')"
    and g: "length got = n" and p: "pending r' = []" by metis
  from g have "length got = b_len ?b - 0" by simp
  from fill_wf(1) [OF wf _ this] p show thesis
    by (intro that) (auto simp: read_into_def fill_from_def b1 e)
qed

lemma read_append_ok:
  assumes "wf_buffer b" and "buffer_room b (b_len b + n)" and "pending r = xs @ ys"
    and "length xs = n"
  obtains b' r' where "read_append rd n (b, r) = (Ok (), (b', r'))" and "wf_buffer b'"
    and "as_slice b' = as_slice b @ xs" and "b_alloc b' = b_alloc b" and "pending r' = ys"
proof -
  obtain b1 where b1: "reserve_len b (b_len b + n) = Some b1"
    using reserve_len_room [OF assms(1,2)] by blast
  have "b_len b + n < usize_lim"
    using assms(1,2) by (cases n) (auto simp: buffer_room_def wf_buffer_def is_sane_def)
  with b1 have res: "reserve b n = Some b1" by (simp add: reserve_def)
  let ?b = "b1\<lparr>b_len := b_len b1 + n\<rparr>"
  have wf1: "wf_buffer b1" by (rule wf_reserve_len [OF assms(1) b1])
  have wf: "wf_buffer ?b"
    using wf1 reserve_len_cap [OF b1] reserve_len_keeps_len [OF b1] by (simp add: wf_set_len)
  have "take (b_len b1) (as_slice ?b) = as_slice b1"
    by (simp add: as_slice_def cells_def min_def)
  then have sl: "take (b_len b1) (as_slice ?b) = as_slice b"
    using reserve_len_slice [OF assms(1) b1] by simp
  from assms(4) have "length xs = b_len ?b - b_len b1" by simp
  from fill_from_ok [OF wf _ assms(3) this] sl obtain b' r' where
    "fill_from rd (b_len b1) (?b, r) = (Ok (), (b', r'))" "wf_buffer b'"
    "as_slice b' = as_slice b @ xs" "b_alloc b' = b_alloc ?b" "pending r' = ys" by auto
  then show thesis
    using reserve_len_alloc [OF b1] by (intro that [of b' r']) (simp_all add: read_append_def res)
qed

end

section \<open>DATA\<close>

record data_frame =
  d_is_end :: bool
  d_data :: buffer

definition DATA_TYPE :: u8 where "DATA_TYPE = 0x0"
definition DATA_END_STREAM :: u8 where "DATA_END_STREAM = 0x1"
definition DATA_PADDED :: u8 where "DATA_PADDED = 0x8"

text \<open>The padding length, when the flag is set, and the length of what follows it.\<close>

definition data_padding ::
  "'r reader_fn \<Rightarrow> frame_header \<Rightarrow> 'r \<Rightarrow> (io_proto_error, u8 \<times> u32) rs \<times> 'r" where
  "data_padding rd header r =
     (if h_flags header AND DATA_PADDED \<noteq> 0
      then (if h_frame_len header = 0 then (Err (Protocol ProtocolError), r)
            else and_then (map_err Io (read_array rd 1 r)) (\<lambda>padding_len r.
              (Ok (padding_len ! 0, h_frame_len header - 1), r)))
      else (Ok (0, h_frame_len header), r))"

definition data_read_frame ::
  "'r reader_fn \<Rightarrow> frame_header \<Rightarrow> data_frame \<Rightarrow> 'r
    \<Rightarrow> (io_proto_error, unit) rs \<times> (data_frame \<times> 'r)" where
  "data_read_frame rd header data r =
     (if h_frame_type header \<noteq> DATA_TYPE then (Panic, (data, r))
      else if h_stream_id header = 0 then (Err (Protocol ProtocolError), (data, r))
      else and_then (on_snd (data_padding rd header) (data, r)) (\<lambda>(padding_len, data_len) (data, r).
        if ucast padding_len > data_len then (Err (Protocol ProtocolError), (data, r))
        else
          (case read_into rd (unat (data_len - ucast padding_len)) (d_data data, r) of
             (x, (b, r)) \<Rightarrow>
               and_then (map_err Io (x, (data\<lparr>d_data := b\<rparr>, r))) (\<lambda>_ (data, r).
               and_then (on_snd (\<lambda>r. map_err Io (read_array rd (unat padding_len) r)) (data, r))
                 (\<lambda>_ (data, r).
                   (Ok (), (data\<lparr>d_is_end := (h_flags header AND DATA_END_STREAM \<noteq> 0)\<rparr>, r)))))))"

definition http_data_read_frame ::
  "'r reader_fn \<Rightarrow> 'r option \<Rightarrow> frame_header \<Rightarrow> data_frame http_result option
    \<Rightarrow> (error_code \<times> 'r \<times> data_frame http_result) option" where
  "http_data_read_frame rd reader header res =
     ffi_read_frame_into (\<lambda>_. True) (data_read_frame rd header) reader res"

definition PAD_BUF :: bytes where "PAD_BUF = replicate 256 0"

text \<open>
  The length of the frame is computed in \<open>u32\<close>: the cast of the data's length drops its high
  bits, and the additions panic when they overflow.
\<close>

definition add_u32 :: "u32 \<Rightarrow> u32 \<Rightarrow> u32 option" where
  "add_u32 a b = (if unat a + unat b < 2 ^ 32 then Some (a + b) else None)"

definition data_frame_len :: "u8 option \<Rightarrow> bytes \<Rightarrow> u32 option" where
  "data_frame_len pad data =
     (case pad of None \<Rightarrow> Some (of_nat (length data))
                | Some p \<Rightarrow> add_u32 (of_nat (length data)) (1 + ucast p))"

definition data_header :: "u32 \<Rightarrow> u8 option \<Rightarrow> bool \<Rightarrow> u32 \<Rightarrow> frame_header" where
  "data_header stream_id pad is_end frame_len =
     \<lparr>h_stream_id = stream_id, h_frame_len = frame_len, h_frame_type = DATA_TYPE,
      h_flags = (if is_end then DATA_END_STREAM else 0)
                OR (if pad \<noteq> None then DATA_PADDED else 0)\<rparr>"

definition data_write_frame ::
  "'w writer_fn \<Rightarrow> u32 \<Rightarrow> u8 option \<Rightarrow> bytes \<Rightarrow> bool \<Rightarrow> 'w \<Rightarrow> (io_error, nat) rs \<times> 'w" where
  "data_write_frame wr stream_id pad data is_end w =
     (case data_frame_len pad data of
        None \<Rightarrow> (Panic, w)
      | Some frame_len \<Rightarrow>
          and_then (write_header wr (data_header stream_id pad is_end frame_len) w) (\<lambda>written w.
          and_then (case pad of
                      None \<Rightarrow> (Ok written, w)
                    | Some p \<Rightarrow> map_ok (\<lambda>_. written + 1) (write_all wr w [p])) (\<lambda>written w.
          and_then (write_all wr w data) (\<lambda>_ w.
            case pad of
              None \<Rightarrow> (Ok (written + length data), w)
            | Some p \<Rightarrow> map_ok (\<lambda>_. written + length data + unat p)
                (write_all wr w (take (unat p) PAD_BUF))))))"

definition http_data_write_frame ::
  "'w writer_fn \<Rightarrow> 'w option \<Rightarrow> u32 \<Rightarrow> bool \<Rightarrow> u8 \<Rightarrow> const_buffer \<Rightarrow> bool
    \<Rightarrow> nat http_result option \<Rightarrow> ('w \<times> nat http_result) option" where
  "http_data_write_frame wr writer stream_id enable_pad pad buffer is_end res =
     (if \<not> const_is_sane buffer then None
      else ffi_write_frame display_io
        (data_write_frame wr stream_id (if enable_pad then Some pad else None)
           (const_as_slice buffer) is_end) writer res)"

section \<open>CONTINUATION\<close>

record continuation_frame =
  c_data :: buffer
  c_is_end :: bool

definition CONTINUATION_TYPE :: u8 where "CONTINUATION_TYPE = 0x9"

definition FLAGS_END_STREAM :: u8 where "FLAGS_END_STREAM = 0x01"
definition FLAGS_END_HEADERS :: u8 where "FLAGS_END_HEADERS = 0x04"
definition FLAGS_PADDED :: u8 where "FLAGS_PADDED = 0x08"
definition FLAGS_PRIORITY :: u8 where "FLAGS_PRIORITY = 0x20"

definition continuation_read_frame ::
  "'r reader_fn \<Rightarrow> frame_header \<Rightarrow> continuation_frame \<Rightarrow> 'r
    \<Rightarrow> (io_proto_error, unit) rs \<times> (continuation_frame \<times> 'r)" where
  "continuation_read_frame rd header out r =
     (if h_frame_type header \<noteq> CONTINUATION_TYPE then (Panic, (out, r))
      else if h_stream_id header = 0 then (Err (Protocol ProtocolError), (out, r))
      else (case read_append rd (unat (h_frame_len header)) (c_data out, r) of
              (x, (b, r)) \<Rightarrow>
                and_then (map_err Io (x, (out\<lparr>c_data := b\<rparr>, r))) (\<lambda>_ (out, r).
                  (Ok (), (out\<lparr>c_is_end := (h_flags header AND FLAGS_END_HEADERS \<noteq> 0)\<rparr>, r)))))"

definition http_continuation_read_frame ::
  "'r reader_fn \<Rightarrow> 'r option \<Rightarrow> frame_header \<Rightarrow> continuation_frame http_result option
    \<Rightarrow> (error_code \<times> 'r \<times> continuation_frame http_result) option" where
  "http_continuation_read_frame rd reader header res =
     ffi_read_frame_into (\<lambda>frame. is_sane (c_data frame)) (continuation_read_frame rd header) reader res"

definition continuation_header :: "u32 \<Rightarrow> bool \<Rightarrow> bytes \<Rightarrow> frame_header" where
  "continuation_header stream_id is_end data =
     \<lparr>h_stream_id = stream_id, h_frame_len = of_nat (length data),
      h_frame_type = CONTINUATION_TYPE, h_flags = (if is_end then FLAGS_END_HEADERS else 0)\<rparr>"

definition continuation_write_frame ::
  "'w writer_fn \<Rightarrow> u32 \<Rightarrow> bool \<Rightarrow> bytes \<Rightarrow> 'w \<Rightarrow> (io_error, nat) rs \<times> 'w" where
  "continuation_write_frame wr stream_id is_end data w =
     and_then (write_header wr (continuation_header stream_id is_end data) w) (\<lambda>written w.
     and_then (write_all wr w data) (\<lambda>_ w. (Ok (written + length data), w)))"

definition http_continuation_write_frame ::
  "'w writer_fn \<Rightarrow> 'w option \<Rightarrow> u32 \<Rightarrow> bool \<Rightarrow> const_buffer \<Rightarrow> nat http_result option
    \<Rightarrow> ('w \<times> nat http_result) option" where
  "http_continuation_write_frame wr writer stream_id is_end data res =
     (if \<not> const_is_sane data then None
      else ffi_write_frame display_io
        (continuation_write_frame wr stream_id is_end (const_as_slice data)) writer res)"

section \<open>GOAWAY\<close>

record go_away_frame =
  g_last_id :: u32
  g_error_code :: u32
  g_debug_data :: buffer

definition GO_AWAY_TYPE :: u8 where "GO_AWAY_TYPE = 0x7"

definition go_away_read_frame ::
  "'r reader_fn \<Rightarrow> frame_header \<Rightarrow> go_away_frame \<Rightarrow> 'r
    \<Rightarrow> (io_proto_error, unit) rs \<times> (go_away_frame \<times> 'r)" where
  "go_away_read_frame rd header data r =
     (if h_frame_type header \<noteq> GO_AWAY_TYPE then (Panic, (data, r))
      else if h_stream_id header \<noteq> 0 then (Err (Protocol ProtocolError), (data, r))
      else if h_frame_len header < 8 then (Err (Protocol FrameSizeError), (data, r))
      else and_then (on_snd (\<lambda>r. map_err Io (read_u32 rd r)) (data, r)) (\<lambda>stream_id (data, r).
           and_then (on_snd (\<lambda>r. map_err Io (read_u32 rd r)) (data, r)) (\<lambda>code (data, r).
             case read_into rd (unat (h_frame_len header - 8)) (g_debug_data data, r) of
               (x, (b, r)) \<Rightarrow>
                 and_then (map_err Io (x, (data\<lparr>g_debug_data := b\<rparr>, r))) (\<lambda>_ (data, r).
                   (Ok (), (data\<lparr>g_last_id := stream_id AND 0x7FFFFFFF, g_error_code := code\<rparr>, r))))))"

definition http_go_away_read_frame ::
  "'r reader_fn \<Rightarrow> 'r option \<Rightarrow> frame_header \<Rightarrow> go_away_frame http_result option
    \<Rightarrow> (error_code \<times> 'r \<times> go_away_frame http_result) option" where
  "http_go_away_read_frame rd reader header res =
     ffi_read_frame_into (\<lambda>_. True) (go_away_read_frame rd header) reader res"

definition go_away_header :: "u32 \<Rightarrow> frame_header" where
  "go_away_header frame_len =
     \<lparr>h_stream_id = 0, h_frame_len = frame_len, h_frame_type = GO_AWAY_TYPE, h_flags = 0\<rparr>"

definition go_away_write_frame ::
  "'w writer_fn \<Rightarrow> u32 \<Rightarrow> error_code \<Rightarrow> bytes \<Rightarrow> 'w \<Rightarrow> (io_error, nat) rs \<times> 'w" where
  "go_away_write_frame wr last_id error data w =
     (case add_u32 (of_nat (length data)) 8 of
        None \<Rightarrow> (Panic, w)
      | Some frame_len \<Rightarrow>
          and_then (write_header wr (go_away_header frame_len) w) (\<lambda>written w.
          and_then (write_u32 wr (last_id AND 0x7FFFFFFF) w) (\<lambda>_ w.
          and_then (write_u32 wr (error_code_num error) w) (\<lambda>_ w.
          and_then (write_all wr w data) (\<lambda>_ w.
            (Ok (written + 4 + 4 + length data), w))))))"

definition http_go_away_write_frame ::
  "'w writer_fn \<Rightarrow> 'w option \<Rightarrow> u32 \<Rightarrow> error_code \<Rightarrow> const_buffer \<Rightarrow> nat http_result option
    \<Rightarrow> ('w \<times> nat http_result) option" where
  "http_go_away_write_frame wr writer last_id error data res =
     ffi_write_frame display_io (go_away_write_frame wr last_id error (const_as_slice data)) writer res"

section \<open>HEADERS\<close>

record header_frame =
  hf_data :: buffer
  hf_stream_dep :: u32
  hf_exclusive :: bool
  hf_weight :: u8
  hf_end :: u8

definition HEADERS_TYPE :: u8 where "HEADERS_TYPE = 0x1"

text \<open>The pad length; the frame length that is left comes back with it.\<close>

definition headers_pad ::
  "'r reader_fn \<Rightarrow> frame_header \<Rightarrow> 'r \<Rightarrow> (io_proto_error, u8 \<times> u32) rs \<times> 'r" where
  "headers_pad rd header r =
     (if h_flags header AND FLAGS_PADDED \<noteq> 0
      then (if h_frame_len header = 0 then (Err (Protocol ProtocolError), r)
            else and_then (map_err Io (read_u8 rd r)) (\<lambda>pad_len r.
              (Ok (pad_len, h_frame_len header - 1), r)))
      else (Ok (0, h_frame_len header), r))"

text \<open>The priority fields, or their defaults, and the frame length that is left.\<close>

definition headers_priority ::
  "'r reader_fn \<Rightarrow> frame_header \<Rightarrow> u32 \<Rightarrow> 'r
    \<Rightarrow> (io_proto_error, u32 \<times> bool \<times> u8 \<times> u32) rs \<times> 'r" where
  "headers_priority rd header frame_len r =
     (if h_flags header AND FLAGS_PRIORITY \<noteq> 0
      then (if frame_len < 5 then (Err (Protocol ProtocolError), r)
            else and_then (map_err Io (read_u32 rd r)) (\<lambda>d r.
                 and_then (map_err Io (read_u8 rd r)) (\<lambda>weight r.
                   (Ok (d AND 0x7FFFFFFF, d AND 0x80000000 \<noteq> 0, weight, frame_len - 5), r))))
      else (Ok (0x0, False, 16, frame_len), r))"

definition headers_read_frame ::
  "'r reader_fn \<Rightarrow> frame_header \<Rightarrow> header_frame \<Rightarrow> 'r
    \<Rightarrow> (io_proto_error, unit) rs \<times> (header_frame \<times> 'r)" where
  "headers_read_frame rd header frame r =
     (if h_frame_type header \<noteq> HEADERS_TYPE then (Panic, (frame, r))
      else if h_stream_id header = 0 then (Err (Protocol ProtocolError), (frame, r))
      else and_then (on_snd (headers_pad rd header) (frame, r)) (\<lambda>(pad_len, frame_len) (frame, r).
        and_then (on_snd (headers_priority rd header frame_len) (frame, r))
          (\<lambda>(dep, exclusive, weight, frame_len) (frame, r).
            if ucast pad_len > frame_len then (Err (Protocol ProtocolError), (frame, r))
            else if dep = h_stream_id header then (Err (Protocol ProtocolError), (frame, r))
            else
              let frame = frame\<lparr>hf_exclusive := exclusive, hf_stream_dep := dep,
                    hf_weight := weight,
                    hf_end := h_flags header AND (FLAGS_END_STREAM OR FLAGS_END_HEADERS)\<rparr>
              in (case read_into rd (unat (frame_len - ucast pad_len)) (hf_data frame, r) of
                    (x, (b, r)) \<Rightarrow>
                      and_then (map_err Io (x, (frame\<lparr>hf_data := b\<rparr>, r))) (\<lambda>_ (frame, r).
                      map_ok (\<lambda>_. ())
                        (on_snd (\<lambda>r. map_err Io (read_array rd (unat pad_len) r)) (frame, r)))))))"

definition http_header_read_frame ::
  "'r reader_fn \<Rightarrow> 'r option \<Rightarrow> frame_header \<Rightarrow> header_frame http_result option
    \<Rightarrow> (error_code \<times> 'r \<times> header_frame http_result) option" where
  "http_header_read_frame rd reader header res =
     ffi_read_frame_into (\<lambda>_. True) (headers_read_frame rd header) reader res"

definition headers_frame_len ::
  "u8 option \<Rightarrow> (u32 \<times> bool \<times> u8) option \<Rightarrow> bytes \<Rightarrow> u32 option" where
  "headers_frame_len pad priority data =
     (case (case pad of None \<Rightarrow> Some (of_nat (length data))
                      | Some p \<Rightarrow> add_u32 (of_nat (length data)) (1 + ucast p)) of
        None \<Rightarrow> None
      | Some len \<Rightarrow> (case priority of None \<Rightarrow> Some len | Some _ \<Rightarrow> add_u32 len 5))"

definition headers_header ::
  "u32 \<Rightarrow> u8 option \<Rightarrow> (u32 \<times> bool \<times> u8) option \<Rightarrow> u8 \<Rightarrow> u32 \<Rightarrow> frame_header" where
  "headers_header stream_id pad priority end_flags len =
     \<lparr>h_stream_id = stream_id, h_frame_len = len, h_frame_type = HEADERS_TYPE,
      h_flags = (end_flags AND (FLAGS_END_HEADERS OR FLAGS_END_STREAM))
                OR (if pad \<noteq> None then FLAGS_PADDED else 0)
                OR (if priority \<noteq> None then FLAGS_PRIORITY else 0)\<rparr>"

definition headers_write_frame ::
  "'w writer_fn \<Rightarrow> u32 \<Rightarrow> u8 option \<Rightarrow> (u32 \<times> bool \<times> u8) option \<Rightarrow> u8 \<Rightarrow> bytes \<Rightarrow> 'w
    \<Rightarrow> (io_error, nat) rs \<times> 'w" where
  "headers_write_frame wr stream_id pad priority end_flags data w =
     (case headers_frame_len pad priority data of
        None \<Rightarrow> (Panic, w)
      | Some len \<Rightarrow>
          and_then (write_header wr (headers_header stream_id pad priority end_flags len) w)
            (\<lambda>written w.
          and_then (case pad of
                      None \<Rightarrow> (Ok written, w)
                    | Some p \<Rightarrow> map_ok (\<lambda>_. written + 1) (write_u8 wr p w)) (\<lambda>written w.
          and_then (case priority of
                      None \<Rightarrow> (Ok written, w)
                    | Some (stream, exclusive, weight) \<Rightarrow>
                        and_then (write_u32 wr
                          (stream AND 0x7FFFFFFF OR (if exclusive then 0x80000000 else 0)) w) (\<lambda>_ w.
                        map_ok (\<lambda>_. written + 5) (write_u8 wr weight w))) (\<lambda>written w.
          and_then (write_all wr w data) (\<lambda>_ w.
            case pad of
              None \<Rightarrow> (Ok (written + length data), w)
            | Some p \<Rightarrow> map_ok (\<lambda>_. written + length data + unat p)
                (write_all wr w (take (unat p) PAD_BUF)))))))"

text \<open>The exported function unpacks pad, priority and flags from one 64-bit word.\<close>

definition unpack_props ::
  "u64 \<Rightarrow> u8 option \<times> (u32 \<times> bool \<times> u8) option \<times> u8" where
  "unpack_props props =
     (let flags = ucast (props AND 0xFF) :: u8;
          weight = ucast (drop_bit 0x08 props AND 0xFF) :: u8;
          pad = ucast (drop_bit 0x10 props AND 0xFF) :: u8;
          stream_id = ucast (drop_bit 0x20 props AND 0x7FFFFFFF) :: u32
      in (if flags AND FLAGS_PADDED \<noteq> 0 then Some pad else None,
          if flags AND FLAGS_PRIORITY \<noteq> 0 then Some (stream_id, flags AND 0x2 \<noteq> 0, weight) else None,
          flags AND (FLAGS_END_HEADERS OR FLAGS_END_STREAM)))"

definition http_header_write_frame ::
  "'w writer_fn \<Rightarrow> 'w option \<Rightarrow> u32 \<Rightarrow> u64 \<Rightarrow> const_buffer \<Rightarrow> nat http_result option
    \<Rightarrow> ('w \<times> nat http_result) option" where
  "http_header_write_frame wr writer stream_id frame_props_packed data res =
     (if \<not> const_is_sane data then None
      else (case unpack_props frame_props_packed of
              (pad, priority, end_flags) \<Rightarrow>
                ffi_write_frame display_io
                  (headers_write_frame wr stream_id pad priority end_flags (const_as_slice data))
                  writer res))"

section \<open>What the writers emit\<close>

text \<open>The payload of a padded frame, and the count its fields add to the data.\<close>

definition pad_prefix :: "u8 option \<Rightarrow> bytes" where
  "pad_prefix pad = (case pad of None \<Rightarrow> [] | Some p \<Rightarrow> [p])"

definition pad_count :: "u8 option \<Rightarrow> nat" where
  "pad_count pad = (case pad of None \<Rightarrow> 0 | Some p \<Rightarrow> unat p)"

definition priority_bytes :: "(u32 \<times> bool \<times> u8) option \<Rightarrow> bytes" where
  "priority_bytes priority =
     (case priority of
        None \<Rightarrow> []
      | Some (dep, exclusive, weight) \<Rightarrow>
          to_be_bytes (dep AND 0x7FFFFFFF OR (if exclusive then 0x80000000 else 0)) @ [weight])"

definition data_payload :: "u8 option \<Rightarrow> bytes \<Rightarrow> bytes" where
  "data_payload pad data = pad_prefix pad @ data @ replicate (pad_count pad) 0"

definition headers_payload :: "u8 option \<Rightarrow> (u32 \<times> bool \<times> u8) option \<Rightarrow> bytes \<Rightarrow> bytes" where
  "headers_payload pad priority data =
     pad_prefix pad @ priority_bytes priority @ data @ replicate (pad_count pad) 0"

lemma take_PAD_BUF [simp]: "take (unat (p :: u8)) PAD_BUF = replicate (unat p) 0"
  using unat_u8_less [of p] by (simp add: PAD_BUF_def)

lemma unat_ucast_u8 [simp]: "unat (ucast (p :: u8) :: u32) = unat p"
  using unat_u8_less [of p] by (simp add: unsigned_ucast_eq take_bit_nat_eq_self)

lemma add_u32_unat: "add_u32 a b = Some c \<Longrightarrow> unat c = unat a + unat b"
  by (auto simp: add_u32_def unat_word_ariths split: if_splits)

lemma add_u32_total: "unat a + unat b < 2 ^ 32 \<Longrightarrow> add_u32 a b = Some (a + b)"
  by (simp add: add_u32_def)

context byte_sink
begin

lemma data_write_emits:
  assumes "data_frame_len pad data = Some n"
  shows "emits sent (data_write_frame wr sid pad data is_end)
    (header_wire (data_header sid pad is_end n) @ data_payload pad data)
    (9 + length (data_payload pad data))"
  using assms unfolding data_write_frame_def data_payload_def pad_prefix_def pad_count_def
  by (cases pad; simp) (rule step_rules refl | simp)+

lemma continuation_write_emits:
  "emits sent (continuation_write_frame wr sid is_end data)
    (header_wire (continuation_header sid is_end data) @ data) (9 + length data)"
  unfolding continuation_write_frame_def by (rule step_rules refl | simp)+

lemma go_away_write_emits:
  assumes "add_u32 (of_nat (length data)) 8 = Some n"
  shows "emits sent (go_away_write_frame wr last_id e data)
    (header_wire (go_away_header n) @ to_be_bytes (last_id AND 0x7FFFFFFF) @
     to_be_bytes (error_code_num e) @ data) (17 + length data)"
  unfolding go_away_write_frame_def by (simp add: assms) (rule step_rules refl | simp)+

lemma headers_write_emits:
  assumes "headers_frame_len pad priority data = Some n"
  shows "emits sent (headers_write_frame wr sid pad priority fl data)
    (header_wire (headers_header sid pad priority fl n) @ headers_payload pad priority data)
    (9 + length (headers_payload pad priority data))"
proof (cases priority)
  case None
  with assms show ?thesis
    unfolding headers_write_frame_def headers_payload_def pad_prefix_def pad_count_def
      priority_bytes_def
    by (cases pad; simp) (rule step_rules refl | simp)+
next
  case (Some t)
  obtain dep e wt where "t = (dep, e, wt)" by (cases t)
  with Some assms show ?thesis
    unfolding headers_write_frame_def headers_payload_def pad_prefix_def pad_count_def
      priority_bytes_def
    by (cases pad; cases e; simp) (rule step_rules refl | simp)+
qed

end

section \<open>What the readers accept\<close>

text \<open>The arithmetic on lengths: what is left of the frame after the pad byte and the padding.\<close>

lemma len_split:
  assumes "unat (l :: u32) = n + unat (q :: u8)"
  shows "\<not> l < ucast q" and "unat (l - ucast q) = n"
proof -
  have le: "ucast q \<le> l" using assms by (simp add: word_le_nat_alt)
  then show "\<not> l < ucast q" by simp
  show "unat (l - ucast q) = n" using le assms by (simp add: unat_sub)
qed

lemma len_pred: "unat (l :: u32) = Suc n \<Longrightarrow> l \<noteq> 0 \<and> unat (l - 1) = n"
  by (auto simp: unat_sub word_le_nat_alt)

lemma len_5: "unat (l :: u32) = 5 + n \<Longrightarrow> \<not> l < 5 \<and> unat (l - 5) = n"
  by (auto simp: unat_sub word_le_nat_alt word_less_nat_alt)

lemma len_8: "unat (l :: u32) = 8 + n \<Longrightarrow> \<not> l < 8 \<and> unat (l - 8) = n"
  by (auto simp: unat_sub word_le_nat_alt word_less_nat_alt)

definition pad_byte :: "u8 option \<Rightarrow> u8" where
  "pad_byte pad = (case pad of None \<Rightarrow> 0 | Some p \<Rightarrow> p)"

lemma pad_simps [simp]:
  "pad_byte None = 0" "pad_byte (Some p) = p" "pad_prefix None = []" "pad_prefix (Some p) = [p]"
  "pad_count None = 0" "pad_count (Some p) = unat p" "unat (pad_byte pad) = pad_count pad"
  by (cases pad; simp add: pad_byte_def pad_prefix_def pad_count_def)+

text \<open>A buffer that a caller can go on using: its invariant, and the allocator it came with.\<close>

definition usable :: "allocator \<Rightarrow> buffer \<Rightarrow> bool" where
  "usable A b \<longleftrightarrow> wf_buffer b \<and> b_alloc b = A"

context byte_source
begin

lemma data_padding_yields:
  assumes "h_flags h AND DATA_PADDED \<noteq> 0 \<longleftrightarrow> pad \<noteq> None"
    and "unat (h_frame_len h) = length (pad_prefix pad) + n"
  obtains l where "yields pending (data_padding rd h) (pad_prefix pad) (Ok (pad_byte pad, l))"
    and "unat l = n"
proof (cases pad)
  case None
  with assms show thesis
    by (intro that [of "h_frame_len h"]) (auto simp: data_padding_def [abs_def] yields_return)
next
  case (Some p)
  with assms(2) have l: "h_frame_len h \<noteq> 0" "unat (h_frame_len h - 1) = n"
    using len_pred by auto
  have "yields pending (\<lambda>r. and_then (map_err Io (read_array rd 1 r)) (\<lambda>padding_len r.
      (Ok (padding_len ! 0, h_frame_len h - 1), r))) [p] (Ok (p, h_frame_len h - 1))"
    by (rule yields_last [where a = "[p]"]) (rule step_rules refl | simp)+
  with assms Some l show thesis
    by (intro that [of "h_frame_len h - 1"]) (simp_all add: data_padding_def [abs_def])
qed

lemma headers_pad_yields:
  assumes "h_flags h AND FLAGS_PADDED \<noteq> 0 \<longleftrightarrow> pad \<noteq> None"
    and "unat (h_frame_len h) = length (pad_prefix pad) + n"
  obtains l where "yields pending (headers_pad rd h) (pad_prefix pad) (Ok (pad_byte pad, l))"
    and "unat l = n"
proof (cases pad)
  case None
  with assms show thesis
    by (intro that [of "h_frame_len h"]) (auto simp: headers_pad_def [abs_def] yields_return)
next
  case (Some p)
  with assms(2) have l: "h_frame_len h \<noteq> 0" "unat (h_frame_len h - 1) = n"
    using len_pred by auto
  have "yields pending (\<lambda>r. and_then (map_err Io (read_u8 rd r)) (\<lambda>pad_len r.
      (Ok (pad_len, h_frame_len h - 1), r))) [p] (Ok (p, h_frame_len h - 1))"
    by (rule yields_last [where a = p]) (rule step_rules refl | simp)+
  with assms Some l show thesis
    by (intro that [of "h_frame_len h - 1"]) (simp_all add: headers_pad_def [abs_def])
qed

lemma data_read_ok:
  assumes type: "h_frame_type h = DATA_TYPE" and sid: "h_stream_id h \<noteq> 0"
    and pad: "h_flags h AND DATA_PADDED \<noteq> 0 \<longleftrightarrow> pad \<noteq> None"
    and len: "unat (h_frame_len h) = length (pad_prefix pad) + length xs + pad_count pad"
    and wf: "wf_buffer (d_data f)" and room: "buffer_room (d_data f) (length xs)"
    and p: "pending r = pad_prefix pad @ xs @ ps @ ys" and ps: "length ps = pad_count pad"
  obtains f' r' where "data_read_frame rd h f r = (Ok (), (f', r'))" and "wf_buffer (d_data f')"
    and "as_slice (d_data f') = xs" and "d_is_end f' \<longleftrightarrow> h_flags h AND DATA_END_STREAM \<noteq> 0"
    and "pending r' = ys"
proof -
  obtain l where y: "yields pending (data_padding rd h) (pad_prefix pad) (Ok (pad_byte pad, l))"
    and l: "unat l = length xs + unat (pad_byte pad)"
    using data_padding_yields [OF pad] len by (metis add.assoc pad_simps(7))
  from yieldsD [OF y p] obtain r1 where 1: "data_padding rd h r = (Ok (pad_byte pad, l), r1)"
    and p1: "pending r1 = xs @ (ps @ ys)" by auto
  from read_into_ok [OF wf room p1 refl] obtain b r2 where
    2: "read_into rd (length xs) (d_data f, r1) = (Ok (), (b, r2))" and b: "wf_buffer b" "as_slice b = xs"
    and p2: "pending r2 = ps @ ys" by blast
  from read_array_next [OF p2 ps] obtain r3 where
    3: "read_array rd (pad_count pad) r2 = (Ok ps, r3)" and p3: "pending r3 = ys" by auto
  show thesis
    by (rule that [of "f\<lparr>d_data := b, d_is_end := (h_flags h AND DATA_END_STREAM \<noteq> 0)\<rparr>" r3])
      (simp_all add: data_read_frame_def type sid on_snd.simps 1 len_split [OF l] 2 3 b p3)
qed

lemma data_read_bad_padding:
  assumes "h_frame_type h = DATA_TYPE" and "h_stream_id h \<noteq> 0"
    and "h_flags h AND DATA_PADDED \<noteq> 0" and "h_frame_len h \<noteq> 0"
    and "pending r = p # ys" and "unat (h_frame_len h) \<le> unat p"
  obtains r' where "data_read_frame rd h f r = (Err (Protocol ProtocolError), (f, r'))"
    and "pending r' = ys"
proof -
  from assms(5) obtain r1 where 1: "read_array rd 1 r = (Ok [p], r1)" and "pending r1 = ys"
    using read_array_next [of r "[p]" ys 1] by auto
  moreover have "0 < unat (h_frame_len h)" using assms(4) by (simp add: unat_gt_0)
  with assms(6) have "h_frame_len h - 1 < ucast p"
    using len_pred [of "h_frame_len h" "unat (h_frame_len h) - 1"]
    by (simp add: word_less_nat_alt)
  ultimately show thesis
    using assms(1-4)
    by (intro that [of r1]) (simp_all add: data_read_frame_def data_padding_def)
qed

lemma go_away_read_ok:
  assumes type: "h_frame_type h = GO_AWAY_TYPE" and sid: "h_stream_id h = 0"
    and len: "unat (h_frame_len h) = 8 + length xs"
    and wf: "wf_buffer (g_debug_data f)" and room: "buffer_room (g_debug_data f) (length xs)"
    and p: "pending r = to_be_bytes last_id @ to_be_bytes code @ xs @ ys"
  obtains f' r' where "go_away_read_frame rd h f r = (Ok (), (f', r'))"
    and "wf_buffer (g_debug_data f')" and "as_slice (g_debug_data f') = xs"
    and "g_last_id f' = last_id AND 0x7FFFFFFF" and "g_error_code f' = code"
    and "pending r' = ys"
proof -
  from yieldsD [OF read_u32_yields p] obtain r1 where 1: "read_u32 rd r = (Ok last_id, r1)"
    and p1: "pending r1 = to_be_bytes code @ xs @ ys" by auto
  from yieldsD [OF read_u32_yields p1] obtain r2 where 2: "read_u32 rd r1 = (Ok code, r2)"
    and p2: "pending r2 = xs @ ys" by auto
  from read_into_ok [OF wf room p2 refl] obtain b r3 where
    3: "read_into rd (length xs) (g_debug_data f, r2) = (Ok (), (b, r3))"
    and b: "wf_buffer b" "as_slice b = xs" and p3: "pending r3 = ys" by blast
  show thesis
    by (rule that [of "f\<lparr>g_debug_data := b, g_last_id := last_id AND 0x7FFFFFFF,
          g_error_code := code\<rparr>" r3])
      (use len_8 [OF len] in \<open>simp_all add: go_away_read_frame_def type sid 1 2 3 b p3\<close>)
qed

lemma continuation_read_ok:
  assumes type: "h_frame_type h = CONTINUATION_TYPE" and sid: "h_stream_id h \<noteq> 0"
    and len: "unat (h_frame_len h) = length xs"
    and wf: "wf_buffer (c_data f)" and room: "buffer_room (c_data f) (b_len (c_data f) + length xs)"
    and p: "pending r = xs @ ys"
  obtains f' r' where "continuation_read_frame rd h f r = (Ok (), (f', r'))"
    and "wf_buffer (c_data f')" and "as_slice (c_data f') = as_slice (c_data f) @ xs"
    and "c_is_end f' \<longleftrightarrow> h_flags h AND FLAGS_END_HEADERS \<noteq> 0" and "pending r' = ys"
proof -
  from read_append_ok [OF wf room p refl] obtain b r1 where
    1: "read_append rd (length xs) (c_data f, r) = (Ok (), (b, r1))"
    and b: "wf_buffer b" "as_slice b = as_slice (c_data f) @ xs" and p1: "pending r1 = ys" by blast
  show thesis
    by (rule that [of "f\<lparr>c_data := b, c_is_end := (h_flags h AND FLAGS_END_HEADERS \<noteq> 0)\<rparr>" r1])
      (simp_all add: continuation_read_frame_def type sid len 1 b p1)
qed

text \<open>The fields that a header block's frame reports for a priority that was sent or not.\<close>

lemma headers_priority_yields:
  assumes "h_flags h AND FLAGS_PRIORITY \<noteq> 0 \<longleftrightarrow> priority \<noteq> None"
    and "unat l0 = length (priority_bytes priority) + n"
  obtains l dep where "yields pending (headers_priority rd h l0) (priority_bytes priority)
      (Ok (dep, (case priority of None \<Rightarrow> False | Some (_, e, _) \<Rightarrow> e),
           (case priority of None \<Rightarrow> 16 | Some (_, _, wt) \<Rightarrow> wt), l))"
    and "dep = (case priority of None \<Rightarrow> 0 | Some (d, _, _) \<Rightarrow> d AND 0x7FFFFFFF)" and "unat l = n"
proof (cases priority)
  case None
  with assms show thesis
    by (intro that [of 0 l0])
      (auto simp: headers_priority_def [abs_def] priority_bytes_def yields_return)
next
  case (Some t)
  obtain d e wt where t: "t = (d, e, wt)" by (cases t)
  let ?d = "d AND 0x7FFFFFFF OR (if e then 0x80000000 else 0)"
  from assms(2) Some t have l: "\<not> l0 < 5" "unat (l0 - 5) = n"
    using len_5 [of l0 n] by (auto simp: priority_bytes_def)
  have "yields pending (\<lambda>r. and_then (map_err Io (read_u32 rd r)) (\<lambda>d r.
      and_then (map_err Io (read_u8 rd r)) (\<lambda>weight r.
        (Ok (d AND 0x7FFFFFFF, d AND 0x80000000 \<noteq> 0, weight, l0 - 5), r))))
      (to_be_bytes ?d @ [wt]) (Ok (?d AND 0x7FFFFFFF, ?d AND 0x80000000 \<noteq> 0, wt, l0 - 5))"
    by (rule step_rules refl)+
  with assms Some t l show thesis
    by (intro that [of "d AND 0x7FFFFFFF" "l0 - 5"])
      (simp_all add: headers_priority_def [abs_def] priority_bytes_def dep_split)
qed

lemma headers_read_ok:
  assumes type: "h_frame_type h = HEADERS_TYPE" and sid: "h_stream_id h \<noteq> 0"
    and pad: "h_flags h AND FLAGS_PADDED \<noteq> 0 \<longleftrightarrow> pad \<noteq> None"
    and prio: "h_flags h AND FLAGS_PRIORITY \<noteq> 0 \<longleftrightarrow> priority \<noteq> None"
    and len: "unat (h_frame_len h) = length (pad_prefix pad) + length (priority_bytes priority)
                + length xs + pad_count pad"
    and dep: "(case priority of None \<Rightarrow> 0 | Some (d, _, _) \<Rightarrow> d AND 0x7FFFFFFF) = dep"
    and self: "dep \<noteq> h_stream_id h"
    and wf: "wf_buffer (hf_data f)" and room: "buffer_room (hf_data f) (length xs)"
    and p: "pending r = pad_prefix pad @ priority_bytes priority @ xs @ ps @ ys"
    and ps: "length ps = pad_count pad"
  obtains f' r' where "headers_read_frame rd h f r = (Ok (), (f', r'))" and "wf_buffer (hf_data f')"
    and "as_slice (hf_data f') = xs" and "hf_stream_dep f' = dep"
    and "hf_exclusive f' = (case priority of None \<Rightarrow> False | Some (_, e, _) \<Rightarrow> e)"
    and "hf_weight f' = (case priority of None \<Rightarrow> 16 | Some (_, _, wt) \<Rightarrow> wt)"
    and "hf_end f' = h_flags h AND (FLAGS_END_STREAM OR FLAGS_END_HEADERS)"
    and "pending r' = ys"
proof -
  let ?e = "case priority of None \<Rightarrow> False | Some (_, e, _) \<Rightarrow> e"
  let ?w = "case priority of None \<Rightarrow> 16 | Some (_, _, wt) \<Rightarrow> wt"
  let ?n = "length xs + unat (pad_byte pad)"
  obtain l0 where y: "yields pending (headers_pad rd h) (pad_prefix pad) (Ok (pad_byte pad, l0))"
    and l0: "unat l0 = length (priority_bytes priority) + ?n"
    using headers_pad_yields [OF pad] len by (metis add.assoc pad_simps(7))
  obtain l where y2: "yields pending (headers_priority rd h l0) (priority_bytes priority)
      (Ok (dep, ?e, ?w, l))" and l: "unat l = ?n"
    using headers_priority_yields [OF prio l0] dep by metis
  from yieldsD [OF y p] obtain r1 where 1: "headers_pad rd h r = (Ok (pad_byte pad, l0), r1)"
    and p1: "pending r1 = priority_bytes priority @ (xs @ ps @ ys)" by blast
  from yieldsD [OF y2 p1] obtain r2 where 2: "headers_priority rd h l0 r1 = (Ok (dep, ?e, ?w, l), r2)"
    and p2: "pending r2 = xs @ (ps @ ys)" by blast
  from read_into_ok [OF wf room p2 refl] obtain b r3 where
    3: "read_into rd (length xs) (hf_data f, r2) = (Ok (), (b, r3))" and b: "wf_buffer b" "as_slice b = xs"
    and p3: "pending r3 = ps @ ys" by blast
  from read_array_next [OF p3 ps] obtain r4 where
    4: "read_array rd (pad_count pad) r3 = (Ok ps, r4)" and p4: "pending r4 = ys" by blast
  show thesis
    by (rule that [of "f\<lparr>hf_data := b, hf_exclusive := ?e, hf_stream_dep := dep, hf_weight := ?w,
          hf_end := h_flags h AND (FLAGS_END_STREAM OR FLAGS_END_HEADERS)\<rparr>" r4])
      (simp_all add: headers_read_frame_def type sid 1 2 self len_split [OF l] 3 4 b p4)
qed

section \<open>Safety on every input\<close>

text \<open>
  Whatever the peer sends, and whatever the header says, the read functions do not panic
  (given the frame type they are called for and memory for the frame's length), and the
  caller's buffer keeps its invariant and allocator, also when they fail.
\<close>

lemma fill_from_safe:
  assumes "usable A b" and "start \<le> b_len b"
  shows "safe (\<lambda>(b, r). usable A b) (fill_from rd start (b, r))"
proof -
  from assms have wf: "wf_buffer b" by (simp add: usable_def)
  let ?s = "drop start (as_slice b)"
  have l: "length ?s = b_len b - start" by (simp add: wf_length_slice [OF wf])
  consider xs ys r' where "read_exact rd r ?s = (Ok (), xs, r')" "length xs = length ?s"
    | got r' where "read_exact rd r ?s = (Err UnexpectedEof, got, r')" "length got = length ?s"
    using read_exact_ok [of ?s r] read_exact_eof [of r ?s]
    by (metis linorder_not_less length_take min.absorb2)
  then show ?thesis
    using fill_wf [OF wf assms(2)] assms(1) l
    by cases (simp_all add: fill_from_def usable_def)
qed

lemma read_into_safe:
  assumes "usable A b" and "buffer_room b n"
  shows "safe (\<lambda>(b, r). usable A b) (read_into rd n (b, r))"
proof -
  from assms obtain b1 where b1: "reserve_len b n = Some b1"
    using reserve_len_room by (auto simp: usable_def)
  with assms(1) have "usable A (b1\<lparr>b_len := n\<rparr>)"
    using wf_reserve_len reserve_len_cap reserve_len_alloc
    by (fastforce simp: usable_def intro: wf_set_len)
  from fill_from_safe [OF this, of 0] show ?thesis by (simp add: read_into_def b1)
qed

lemma read_append_safe:
  assumes "usable A b" and "buffer_room b (b_len b + n)"
  shows "safe (\<lambda>(b, r). usable A b) (read_append rd n (b, r))"
proof -
  from assms obtain b1 where b1: "reserve_len b (b_len b + n) = Some b1"
    using reserve_len_room by (auto simp: usable_def)
  have "b_len b + n < usize_lim"
    using assms by (cases n) (auto simp: usable_def buffer_room_def wf_buffer_def is_sane_def)
  with b1 have res: "reserve b n = Some b1" by (simp add: reserve_def)
  from assms(1) b1 have "usable A (b1\<lparr>b_len := b_len b1 + n\<rparr>)"
    using wf_reserve_len reserve_len_cap reserve_len_alloc reserve_len_keeps_len
    by (fastforce simp: usable_def intro: wf_set_len)
  from fill_from_safe [OF this, of "b_len b1"] show ?thesis by (simp add: read_append_def res)
qed

lemma read_array_safe: "Q \<Longrightarrow> safe (\<lambda>_. Q) (read_array rd n r)"
  by (simp add: safe_def read_array_no_panic)

lemma read_ints_safe:
  "Q \<Longrightarrow> safe (\<lambda>_. Q) (read_u8 rd r)" "Q \<Longrightarrow> safe (\<lambda>_. Q) (read_u32 rd r)"
  by (simp_all add: read_u8_def read_u32_def read_array_safe)

end

lemma word_pred_le: "unat ((l :: u32) - 1) \<le> unat l" if "l \<noteq> 0"
  using that by (metis diff_le_self unat_minus_one)

lemma sub_le: "\<not> (l :: u32) < q \<Longrightarrow> unat (l - q) \<le> unat l"
  by (simp add: unat_sub word_less_nat_alt word_le_nat_alt)

context byte_source
begin

lemma data_padding_le:
  "data_padding rd h r = (Ok (q, l), r') \<Longrightarrow> unat l \<le> unat (h_frame_len h)"
  by (auto simp: data_padding_def word_pred_le elim!: and_then_OkE split: if_splits)

lemma data_padding_safe: "safe (\<lambda>_. True) (data_padding rd h r)"
  by (auto simp: data_padding_def read_array_safe intro!: safe_bind)

lemma headers_pad_le:
  "headers_pad rd h r = (Ok (q, l), r') \<Longrightarrow> unat l \<le> unat (h_frame_len h)"
  by (auto simp: headers_pad_def word_pred_le elim!: and_then_OkE split: if_splits)

lemma headers_pad_safe: "safe (\<lambda>_. True) (headers_pad rd h r)"
  by (auto simp: headers_pad_def read_ints_safe intro!: safe_bind)

lemma headers_priority_le:
  "headers_priority rd h l0 r = (Ok (d, e, wt, l), r') \<Longrightarrow> unat l \<le> unat l0"
  by (auto simp: headers_priority_def sub_le elim!: and_then_OkE split: if_splits)

lemma headers_priority_safe: "safe (\<lambda>_. True) (headers_priority rd h l0 r)"
  by (auto simp: headers_priority_def read_ints_safe intro!: safe_bind)

text \<open>The fields of the state in which the caller's record and the reader travel together.\<close>

lemma on_snd_OkD: "on_snd g (f, r) = (Ok a, (f', r')) \<Longrightarrow> f' = f \<and> g r = (Ok a, r')"
  by (cases "g r") auto

lemma safe_field:
  assumes "safe (\<lambda>(b, r). usable A b) x"
  obtains y b r' where "x = (y, (b, r'))" and "usable A b" and "y \<noteq> Panic"
  using assms by (cases x) (auto simp: safe_def)

lemma data_read_safe:
  assumes "h_frame_type h = DATA_TYPE" and "usable A (d_data f)"
    and "buffer_room (d_data f) (unat (h_frame_len h))"
  shows "safe (\<lambda>(f, r). usable A (d_data f)) (data_read_frame rd h f r)"
proof -
  let ?P = "\<lambda>(f, r). usable A (d_data f)"
  have body: "safe ?P (case read_into rd (unat (l - ucast q)) (d_data f, r1) of (x, (b, r)) \<Rightarrow>
      and_then (map_err Io (x, (f\<lparr>d_data := b\<rparr>, r))) (\<lambda>_ (data, r).
      and_then (on_snd (\<lambda>r. map_err Io (read_array rd (unat q) r)) (data, r)) (\<lambda>_ (data, r).
        (Ok (), (data\<lparr>d_is_end := e\<rparr>, r)))))"
    if "\<not> l < ucast q" and "unat l \<le> unat (h_frame_len h)" for l :: u32 and q :: u8 and r1 e
  proof -
    have "buffer_room (d_data f) (unat (l - ucast q))"
      using buffer_room_mono [OF assms(3)] sub_le [OF that(1)] that(2) by simp
    from read_into_safe [OF assms(2) this, of r1] obtain y b r' where
      "read_into rd (unat (l - ucast q)) (d_data f, r1) = (y, (b, r'))"
      "usable A b" "y \<noteq> Panic" by (rule safe_field)
    then show ?thesis
      by (cases y) (auto intro!: safe_bind safe_on_snd simp: read_array_safe simp del: on_snd.simps)
  qed
  have "safe ?P (on_snd (data_padding rd h) (f, r))"
    using data_padding_safe [of h r] assms(2) by (intro safe_on_snd) (simp add: safe_def)
  then show ?thesis
    unfolding data_read_frame_def using assms(1,2)
    by (auto intro!: safe_bind body dest!: on_snd_OkD data_padding_le simp del: on_snd.simps)
qed

lemma go_away_read_safe:
  assumes "h_frame_type h = GO_AWAY_TYPE" and "usable A (g_debug_data f)"
    and "buffer_room (g_debug_data f) (unat (h_frame_len h))"
  shows "safe (\<lambda>(f, r). usable A (g_debug_data f)) (go_away_read_frame rd h f r)"
proof -
  let ?P = "\<lambda>(f, r). usable A (g_debug_data f)"
  have body: "safe ?P (case read_into rd (unat (h_frame_len h - 8)) (g_debug_data f, r1) of
      (x, (b, r)) \<Rightarrow> and_then (map_err Io (x, (f\<lparr>g_debug_data := b\<rparr>, r))) (\<lambda>_ (data, r).
        (Ok (), (data\<lparr>g_last_id := i, g_error_code := c\<rparr>, r))))"
    if "\<not> h_frame_len h < 8" for r1 i c
  proof -
    have "buffer_room (g_debug_data f) (unat (h_frame_len h - 8))"
      using buffer_room_mono [OF assms(3)] sub_le [OF that] by simp
    from read_into_safe [OF assms(2) this, of r1] obtain y b r' where
      "read_into rd (unat (h_frame_len h - 8)) (g_debug_data f, r1) = (y, (b, r'))"
      "usable A b" "y \<noteq> Panic" by (rule safe_field)
    then show ?thesis by (cases y) auto
  qed
  show ?thesis
    unfolding go_away_read_frame_def using assms(1,2)
    by (auto intro!: safe_bind safe_on_snd body dest!: on_snd_OkD simp: read_ints_safe
        simp del: on_snd.simps)
qed

lemma continuation_read_safe:
  assumes "h_frame_type h = CONTINUATION_TYPE" and "usable A (c_data f)"
    and "buffer_room (c_data f) (b_len (c_data f) + unat (h_frame_len h))"
  shows "safe (\<lambda>(f, r). usable A (c_data f)) (continuation_read_frame rd h f r)"
proof -
  from read_append_safe [OF assms(2,3), of r] obtain y b r' where
    "read_append rd (unat (h_frame_len h)) (c_data f, r) = (y, (b, r'))"
    "usable A b" "y \<noteq> Panic" by (rule safe_field)
  then show ?thesis
    using assms(1,2) by (cases y) (simp_all add: continuation_read_frame_def)
qed

lemma headers_read_safe:
  assumes "h_frame_type h = HEADERS_TYPE" and "usable A (hf_data f)"
    and "buffer_room (hf_data f) (unat (h_frame_len h))"
  shows "safe (\<lambda>(f, r). usable A (hf_data f)) (headers_read_frame rd h f r)"
proof -
  let ?P = "\<lambda>(f, r). usable A (hf_data f)"
  have body: "safe ?P (case read_into rd (unat (l - ucast q)) (hf_data f, r1) of (x, (b, r)) \<Rightarrow>
      and_then (map_err Io (x, (g b, r))) (\<lambda>_ (frame, r).
      map_ok (\<lambda>_. ()) (on_snd (\<lambda>r. map_err Io (read_array rd (unat q) r)) (frame, r))))"
    if "\<not> l < ucast q" and "unat l \<le> unat (h_frame_len h)" and "\<And>b. hf_data (g b) = b"
    for l :: u32 and q :: u8 and g r1
  proof -
    have "buffer_room (hf_data f) (unat (l - ucast q))"
      using buffer_room_mono [OF assms(3)] sub_le [OF that(1)] that(2) by simp
    from read_into_safe [OF assms(2) this, of r1] obtain y b r' where
      "read_into rd (unat (l - ucast q)) (hf_data f, r1) = (y, (b, r'))"
      "usable A b" "y \<noteq> Panic" by (rule safe_field)
    with that(3) show ?thesis
      by (cases y) (auto intro!: safe_bind safe_on_snd simp: read_array_safe simp del: on_snd.simps)
  qed
  have 1: "safe ?P (on_snd (headers_pad rd h) (f, r1))"
    and 2: "safe ?P (on_snd (headers_priority rd h l) (f, r1))" for l r1
    using headers_pad_safe [of h r1] headers_priority_safe [of h l r1] assms(2)
    by (intro safe_on_snd; simp add: safe_def)+
  show ?thesis
    unfolding headers_read_frame_def Let_def using assms(1,2)
    by (auto intro!: safe_bind 1 2 body dest!: on_snd_OkD headers_pad_le headers_priority_le
        simp del: on_snd.simps)
qed

end

end
