(* ===== verification/Frame_Settings.thy ===== *)
theory Frame_Settings
  imports Frame
begin

text \<open>
  \<open>http/src/http2/frame/settings.rs\<close>: the SETTINGS frame.

  The reader starts from the defaults, applies the parameters in the order they come,
  ignores unknown numbers, and then checks the values (\<open>settings_check\<close>). The lemmas: what
  the reader returns for every sequence of parameters (\<open>settings_read_yields\<close>), that the
  last value of a parameter wins (\<open>apply_settings_get\<close>), and that reading what the writer
  wrote gives the same settings back (\<open>apply_changed\<close>).
\<close>

section \<open>The frame\<close>

datatype settings_frame = Settings settings | Ack

definition SETTINGS_TYPE :: u8 where "SETTINGS_TYPE = 0x4"
definition SETTINGS_ACK :: u8 where "SETTINGS_ACK = 0x1"

text \<open>The loop over the parameters; \<open>read\<close> counts the bytes that were read.\<close>

function settings_loop ::
  "'r reader_fn \<Rightarrow> nat \<Rightarrow> nat \<Rightarrow> settings \<Rightarrow> 'r \<Rightarrow> (io_proto_error, settings) rs \<times> 'r" where
  "settings_loop rd read frame_len settings r =
     (if read < frame_len
      then and_then (map_err Io (read_u16 rd r)) (\<lambda>setting r.
           and_then (map_err Io (read_u32 rd r)) (\<lambda>value r.
             case setting_name_try_from setting of
               None \<Rightarrow> settings_loop rd (read + 6) frame_len settings r
             | Some name \<Rightarrow>
                 settings_loop rd (read + 6) frame_len (settings_set settings name value) r))
      else (Ok settings, r))"
  by pat_completeness auto
termination
  by (relation "measure (\<lambda>(rd, read, frame_len, settings, r). frame_len - read)") auto

declare settings_loop.simps [simp del]

definition settings_check :: "settings \<Rightarrow> (io_proto_error, settings_frame) rs" where
  "settings_check settings =
     (let enable_push = setting_value (settings_get settings EnablePush);
          window_size = setting_value (settings_get settings InitialWindowSize);
          frame_size = setting_value (settings_get settings MaxFrameSize)
      in if enable_push \<noteq> 0 \<and> enable_push \<noteq> 1 then Err (Protocol ProtocolError)
         else if window_size \<ge> 0x80000000 then Err (Protocol FlowControlError)
         else if frame_size < push_bit 14 1 \<or> frame_size \<ge> push_bit 24 1
         then Err (Protocol ProtocolError)
         else Ok (Settings settings))"

definition settings_read_frame ::
  "'r reader_fn \<Rightarrow> frame_header \<Rightarrow> 'r \<Rightarrow> (io_proto_error, settings_frame) rs \<times> 'r" where
  "settings_read_frame rd header r =
     (if h_frame_type header \<noteq> SETTINGS_TYPE then (Panic, r)
      else if h_stream_id header \<noteq> 0 then (Err (Protocol ProtocolError), r)
      else if h_flags header AND SETTINGS_ACK \<noteq> 0 then
        (if h_frame_len header \<noteq> 0 then (Err (Protocol FrameSizeError), r) else (Ok Ack, r))
      else if h_frame_len header mod 6 \<noteq> 0 then (Err (Protocol FrameSizeError), r)
      else and_then (settings_loop rd 0 (unat (h_frame_len header)) settings_default r)
             (\<lambda>settings r. (settings_check settings, r)))"

definition settings_header :: "u32 \<Rightarrow> bool \<Rightarrow> frame_header" where
  "settings_header len ack =
     \<lparr>h_stream_id = 0, h_frame_len = len, h_frame_type = SETTINGS_TYPE,
      h_flags = (if ack then SETTINGS_ACK else 0)\<rparr>"

text \<open>The loop of the writer over the names, into the array of 36 bytes.\<close>

fun settings_array ::
  "settings \<Rightarrow> setting_name list \<Rightarrow> u32 \<Rightarrow> slice_writer \<Rightarrow> (io_error, u32) rs \<times> slice_writer" where
  "settings_array s [] len st = (Ok len, st)"
| "settings_array s (name # names) len st =
     (let v = settings_get s name
      in if v \<noteq> settings_get settings_default name
         then and_then (write_u16 slice_write (setting_num v) st) (\<lambda>_ st.
              and_then (write_u32 slice_write (setting_value v) st) (\<lambda>_ st.
                settings_array s names (len + 6) st))
         else settings_array s names len st)"

definition settings_write_frame ::
  "'w writer_fn \<Rightarrow> settings_frame \<Rightarrow> 'w \<Rightarrow> (io_error, nat) rs \<times> 'w" where
  "settings_write_frame wr settings w =
     (case settings of
        Ack \<Rightarrow> write_header wr (settings_header 0 True) w
      | Settings s \<Rightarrow>
          (case settings_array s ALL_names 0 ([], 36) of
             (Ok len, st) \<Rightarrow>
               and_then (write_header wr (settings_header len False) w) (\<lambda>written w.
               and_then (write_all wr w (take (unat len) (array_of 36 st))) (\<lambda>_ w.
                 (Ok (written + unat len), w)))
           | (Err e, st) \<Rightarrow> (Err e, w)
           | (Panic, st) \<Rightarrow> (Panic, w)))"

definition http_settings_read_frame ::
  "'r reader_fn \<Rightarrow> 'r option \<Rightarrow> frame_header \<Rightarrow> settings_frame http_result option
    \<Rightarrow> (error_code \<times> 'r \<times> settings_frame http_result) option" where
  "http_settings_read_frame rd reader header res =
     ffi_read_frame (settings_read_frame rd header) reader res"

definition http_settings_write_frame ::
  "'w writer_fn \<Rightarrow> 'w option \<Rightarrow> settings_frame \<Rightarrow> nat http_result option
    \<Rightarrow> ('w \<times> nat http_result) option" where
  "http_settings_write_frame wr writer settings res =
     ffi_write_frame display_io (settings_write_frame wr settings) writer res"

section \<open>The meaning of a payload\<close>

text \<open>A payload is a sequence of numbered values.\<close>

definition params_wire :: "(u16 \<times> u32) list \<Rightarrow> bytes" where
  "params_wire ps = concat (map (\<lambda>(i, v). to_be_bytes i @ to_be_bytes v) ps)"

fun apply_param :: "u16 \<times> u32 \<Rightarrow> settings \<Rightarrow> settings" where
  "apply_param (i, v) s =
     (case setting_name_try_from i of None \<Rightarrow> s | Some name \<Rightarrow> settings_set s name v)"

lemma params_wire_simps [simp]:
  "params_wire [] = []"
  "params_wire ((i, v) # ps) = to_be_bytes i @ to_be_bytes v @ params_wire ps"
  by (simp_all add: params_wire_def)

lemma length_params_wire [simp]: "length (params_wire ps) = 6 * length ps"
  by (induction ps) auto

lemma length_fold_params [simp]:
  "length (entries (fold apply_param ps s)) = length (entries s)"
  by (induction ps arbitrary: s) (auto split: option.split)

lemma wf_fold_params: "wf_settings s \<Longrightarrow> wf_settings (fold apply_param ps s)"
  by (induction ps arbitrary: s) (auto simp: wf_settings_set split: option.split)

context byte_source
begin

lemma settings_loop_yields:
  "m = k + 6 * length ps \<Longrightarrow>
   yields pending (settings_loop rd k m s) (params_wire ps) (Ok (fold apply_param ps s))"
proof (induction ps arbitrary: k s)
  case Nil
  then show ?case by (simp add: settings_loop.simps [abs_def] yields_return)
next
  case (Cons p ps)
  obtain i v where p: "p = (i, v)" by (cases p)
  have ih: "yields pending (settings_loop rd (k + 6) m t) (params_wire ps)
      (Ok (fold apply_param ps t))" for t
    using Cons.prems by (intro Cons.IH) simp
  have "yields pending (\<lambda>r. and_then (map_err Io (read_u16 rd r)) (\<lambda>setting r.
      and_then (map_err Io (read_u32 rd r)) (\<lambda>value r.
        case setting_name_try_from setting of
          None \<Rightarrow> settings_loop rd (k + 6) m s r
        | Some name \<Rightarrow> settings_loop rd (k + 6) m (settings_set s name value) r)))
      (to_be_bytes i @ to_be_bytes v @ params_wire ps) (Ok (fold apply_param (p # ps) s))"
    using ih by (cases "setting_name_try_from i")
      ((rule yields_append yields_map_err(1) read_u16_yields read_u32_yields)+, simp add: p)+
  moreover have "k < m" using Cons.prems by simp
  ultimately show ?case by (simp add: settings_loop.simps [of rd k, abs_def] p)
qed

lemma settings_read_yields:
  assumes "h_frame_type h = SETTINGS_TYPE" and "h_stream_id h = 0"
    and "h_flags h AND SETTINGS_ACK = 0" and "unat (h_frame_len h) = 6 * length ps"
  shows "yields pending (settings_read_frame rd h) (params_wire ps)
    (settings_check (fold apply_param ps settings_default))"
proof -
  have "unat (h_frame_len h mod 6) = 0" using assms(4) by (simp add: unat_mod)
  then have m: "h_frame_len h mod 6 = 0" by (simp add: unat_eq_0)
  have "yields pending (\<lambda>r. and_then (settings_loop rd 0 (unat (h_frame_len h)) settings_default r)
      (\<lambda>settings r. (settings_check settings, r))) (params_wire ps)
      (settings_check (fold apply_param ps settings_default))"
    by (rule yields_last [OF settings_loop_yields yields_return]) (simp add: assms(4))
  with assms(1-3) m show ?thesis by (simp add: settings_read_frame_def [abs_def])
qed

end

section \<open>The last value wins\<close>

text \<open>What a parameter has after a payload: the last value sent for it, or what it had.\<close>

lemma apply_params_other:
  "length (entries s) = 6 \<Longrightarrow> \<forall>v. (setting_name_num n, v) \<notin> set ps \<Longrightarrow>
   settings_get (fold apply_param ps s) n = settings_get s n"
proof (induction ps arbitrary: s)
  case Nil
  then show ?case by simp
next
  case (Cons p ps)
  obtain i v where p: "p = (i, v)" by (cases p)
  have "settings_get (apply_param p s) n = settings_get s n"
    using Cons.prems setting_name_num_try_from [of i]
    by (auto simp: p settings_get_set split: option.split)
  moreover have "length (entries (apply_param p s)) = 6"
    using Cons.prems(1) by (simp add: p split: option.split)
  ultimately show ?case using Cons.IH [of "apply_param p s"] Cons.prems(2) by auto
qed

lemma apply_settings_get:
  assumes "length (entries s) = 6" and "\<forall>u. (setting_name_num n, u) \<notin> set ps'"
  shows "settings_get (fold apply_param (ps @ (setting_name_num n, v) # ps') s) n =
    set_value v (settings_get (fold apply_param ps s) n)"
  using assms by (simp add: apply_params_other settings_get_set)

section \<open>What the writer sends\<close>

definition changed :: "settings \<Rightarrow> setting_name list \<Rightarrow> (u16 \<times> u32) list" where
  "changed s names =
     map (\<lambda>n. (setting_num (settings_get s n), setting_value (settings_get s n)))
       (filter (\<lambda>n. settings_get s n \<noteq> settings_get settings_default n) names)"

lemma changed_simps [simp]:
  "changed s [] = []"
  "changed s (n # ns) =
     (if settings_get s n \<noteq> settings_get settings_default n
      then (setting_num (settings_get s n), setting_value (settings_get s n)) # changed s ns
      else changed s ns)"
  by (simp_all add: changed_def)

lemma length_changed: "length (changed s ns) \<le> length ns"
  by (simp add: changed_def)

lemma settings_array_wire:
  "6 * length ns \<le> left \<Longrightarrow>
   settings_array s ns len (d, left) =
     (Ok (len + of_nat (6 * length (changed s ns))),
      (d @ params_wire (changed s ns), left - 6 * length (changed s ns)))"
proof (induction ns arbitrary: len d left)
  case Nil
  then show ?case by simp
next
  case (Cons n ns)
  then show ?case
    using Cons.IH [of left len d]
      Cons.IH [of "left - 6" "len + 6" "d @ to_be_bytes (setting_num (settings_get s n)) @
        to_be_bytes (setting_value (settings_get s n))"]
    by (simp add: write_u16_def write_u32_def write_all_slice Let_def)
qed

definition settings_payload :: "settings \<Rightarrow> bytes" where
  "settings_payload s = params_wire (changed s ALL_names)"

lemma length_settings_payload: "length (settings_payload s) \<le> 36"
  using length_changed [of s ALL_names] by (simp add: settings_payload_def ALL_names_def)

lemma settings_len: "unat (of_nat (length (settings_payload s)) :: u32) = length (settings_payload s)"
  using length_settings_payload [of s] by (simp add: unat_of_nat)

context byte_sink
begin

lemma settings_write_emits:
  "emits sent (settings_write_frame wr (Settings s))
     (header_wire (settings_header (of_nat (length (settings_payload s))) False) @ settings_payload s)
     (9 + length (settings_payload s))"
proof -
  let ?n = "of_nat (length (settings_payload s)) :: u32"
  have arr: "settings_array s ALL_names 0 ([], 36) =
      (Ok ?n, (settings_payload s, 36 - length (settings_payload s)))"
    using settings_array_wire [of ALL_names 36 s 0 "[]"]
    by (simp add: settings_payload_def ALL_names_def del: changed_simps settings_array.simps)
  have tk: "take (length (settings_payload s)) (array_of 36 (settings_payload s, m)) = settings_payload s"
    for m by (simp add: array_of_def)
  show ?thesis
    unfolding settings_write_frame_def
    by (simp add: arr settings_len tk) (rule step_rules refl | simp add: settings_len)+
qed

lemma settings_ack_emits:
  "emits sent (settings_write_frame wr Ack) (header_wire (settings_header 0 True)) 9"
  by (simp add: settings_write_frame_def [abs_def] write_header_emits)

end

section \<open>The round trip\<close>

lemma changed_num: "wf_settings s \<Longrightarrow> setting_num (settings_get s n) = setting_name_num n"
  by (erule valid_entry_cases [OF wf_settings_entry, of s n]) simp_all

lemma fold_changed_get:
  "wf_settings s \<Longrightarrow> length (entries t) = 6 \<Longrightarrow> distinct ns \<Longrightarrow>
   settings_get (fold apply_param (changed s ns) t) m =
     (if m \<in> set ns \<and> settings_get s m \<noteq> settings_get settings_default m
      then set_value (setting_value (settings_get s m)) (settings_get t m) else settings_get t m)"
proof (induction ns arbitrary: t)
  case Nil
  then show ?case by simp
next
  case (Cons n ns)
  then show ?case by (auto simp: settings_get_set changed_num)
qed

lemma apply_changed:
  assumes "wf_settings s"
  shows "fold apply_param (changed s ALL_names) settings_default = s"
proof (rule settings_eqI)
  fix n
  let ?a = "settings_get s n" and ?d = "settings_get settings_default n"
  have "?a = set_value (setting_value ?a) ?d" if "?a \<noteq> ?d"
    using that valid_entry_eqI [OF wf_settings_entry [OF assms] wf_settings_entry [OF wf_settings_default]]
      differs_default_exists [OF wf_settings_entry [OF assms]] by blast
  moreover have "distinct ALL_names" using ALL_names_increasing by (simp add: strict_sorted_iff)
  ultimately show "settings_get (fold apply_param (changed s ALL_names) settings_default) n = ?a"
    using fold_changed_get [OF assms length_settings_default, of ALL_names n] in_ALL_names [of n]
    by auto
qed (use assms in \<open>simp_all add: wf_settings_def\<close>)

context byte_source
begin

lemma settings_payload_yields:
  assumes "wf_settings s"
  shows "yields pending
    (settings_read_frame rd (settings_header (of_nat (length (settings_payload s))) False))
    (settings_payload s) (settings_check s)"
  using settings_read_yields [of "settings_header (of_nat (length (settings_payload s))) False"
      "changed s ALL_names"] settings_len [of s] apply_changed [OF assms]
  by (simp add: settings_header_def settings_payload_def)

lemma settings_ack_yields:
  "yields pending (settings_read_frame rd (settings_header 0 True)) [] (Ok Ack)"
  by (simp add: settings_read_frame_def [abs_def] settings_header_def SETTINGS_ACK_def yields_return)

end

text \<open>The checks accept exactly the values that RFC 9113 allows, and refuse a window size with the
  flow control error, the other two with a protocol error.\<close>

lemma settings_accepted:
  "settings_check s =
     (let push = unat (setting_value (settings_get s EnablePush));
          window = unat (setting_value (settings_get s InitialWindowSize));
          frame = unat (setting_value (settings_get s MaxFrameSize))
      in if push > 1 then Err (Protocol ProtocolError)
         else if window > 2 ^ 31 - 1 then Err (Protocol FlowControlError)
         else if frame \<in> {2 ^ 14..2 ^ 24 - 1} then Ok (Settings s)
         else Err (Protocol ProtocolError))"
proof -
  have "v \<noteq> 0 \<and> v \<noteq> 1 \<longleftrightarrow> unat v > 1" for v :: u32
  proof -
    have "v = 0 \<longleftrightarrow> unat v = 0" "v = 1 \<longleftrightarrow> unat v = 1" by (simp_all add: word_unat_eq_iff)
    then show ?thesis by linarith
  qed
  then show ?thesis
    by (auto simp: settings_check_def Let_def word_le_nat_alt word_less_nat_alt)
qed

end
