(* ===== verification/Huffman_Tables.thy ===== *)
theory Huffman_Tables
  imports Prelude
begin

text \<open>
  The tables of \<open>http/src/http2/hpack/huffman.rs\<close>: the code and the code length of every
  symbol (256 is the end-of-string symbol), and the decoding tree as the array of its
  nodes; with the proof that the tree and the codes agree.

  The tree is also given as a term \<open>huffman_tree\<close>, of which the array is the preorder
  listing (\<open>TREE_LIST_flat\<close>); \<open>codes_agree\<close> checks every leaf against the code tables. The
  decoder's proofs use \<open>walk_leaf\<close> and the \<open>node_at\<close> lemmas only, never the tables.
\<close>

section \<open>The tables of the source\<close>

definition HUFFMAN_CODES :: "nat list" where
  "HUFFMAN_CODES = [
     0x1ff8, 0x7fffd8, 0xfffffe2, 0xfffffe3, 0xfffffe4, 0xfffffe5, 0xfffffe6, 0xfffffe7,
     0xfffffe8, 0xffffea, 0x3ffffffc, 0xfffffe9, 0xfffffea, 0x3ffffffd, 0xfffffeb, 0xfffffec,
     0xfffffed, 0xfffffee, 0xfffffef, 0xffffff0, 0xffffff1, 0xffffff2, 0x3ffffffe, 0xffffff3,
     0xffffff4, 0xffffff5, 0xffffff6, 0xffffff7, 0xffffff8, 0xffffff9, 0xffffffa, 0xffffffb,
     0x14, 0x3f8, 0x3f9, 0xffa, 0x1ff9, 0x15, 0xf8, 0x7fa, 0x3fa, 0x3fb, 0xf9, 0x7fb, 0xfa,
     0x16, 0x17, 0x18, 0x0, 0x1, 0x2, 0x19, 0x1a, 0x1b, 0x1c, 0x1d, 0x1e, 0x1f, 0x5c, 0xfb,
     0x7ffc, 0x20, 0xffb, 0x3fc, 0x1ffa, 0x21, 0x5d, 0x5e, 0x5f, 0x60, 0x61, 0x62, 0x63, 0x64,
     0x65, 0x66, 0x67, 0x68, 0x69, 0x6a, 0x6b, 0x6c, 0x6d, 0x6e, 0x6f, 0x70, 0x71, 0x72, 0xfc,
     0x73, 0xfd, 0x1ffb, 0x7fff0, 0x1ffc, 0x3ffc, 0x22, 0x7ffd, 0x3, 0x23, 0x4, 0x24, 0x5,
     0x25, 0x26, 0x27, 0x6, 0x74, 0x75, 0x28, 0x29, 0x2a, 0x7, 0x2b, 0x76, 0x2c, 0x8, 0x9,
     0x2d, 0x77, 0x78, 0x79, 0x7a, 0x7b, 0x7ffe, 0x7fc, 0x3ffd, 0x1ffd, 0xffffffc, 0xfffe6,
     0x3fffd2, 0xfffe7, 0xfffe8, 0x3fffd3, 0x3fffd4, 0x3fffd5, 0x7fffd9, 0x3fffd6, 0x7fffda,
     0x7fffdb, 0x7fffdc, 0x7fffdd, 0x7fffde, 0xffffeb, 0x7fffdf, 0xffffec, 0xffffed, 0x3fffd7,
     0x7fffe0, 0xffffee, 0x7fffe1, 0x7fffe2, 0x7fffe3, 0x7fffe4, 0x1fffdc, 0x3fffd8, 0x7fffe5,
     0x3fffd9, 0x7fffe6, 0x7fffe7, 0xffffef, 0x3fffda, 0x1fffdd, 0xfffe9, 0x3fffdb, 0x3fffdc,
     0x7fffe8, 0x7fffe9, 0x1fffde, 0x7fffea, 0x3fffdd, 0x3fffde, 0xfffff0, 0x1fffdf, 0x3fffdf,
     0x7fffeb, 0x7fffec, 0x1fffe0, 0x1fffe1, 0x3fffe0, 0x1fffe2, 0x7fffed, 0x3fffe1, 0x7fffee,
     0x7fffef, 0xfffea, 0x3fffe2, 0x3fffe3, 0x3fffe4, 0x7ffff0, 0x3fffe5, 0x3fffe6, 0x7ffff1,
     0x3ffffe0, 0x3ffffe1, 0xfffeb, 0x7fff1, 0x3fffe7, 0x7ffff2, 0x3fffe8, 0x1ffffec,
     0x3ffffe2, 0x3ffffe3, 0x3ffffe4, 0x7ffffde, 0x7ffffdf, 0x3ffffe5, 0xfffff1, 0x1ffffed,
     0x7fff2, 0x1fffe3, 0x3ffffe6, 0x7ffffe0, 0x7ffffe1, 0x3ffffe7, 0x7ffffe2, 0xfffff2,
     0x1fffe4, 0x1fffe5, 0x3ffffe8, 0x3ffffe9, 0xffffffd, 0x7ffffe3, 0x7ffffe4, 0x7ffffe5,
     0xfffec, 0xfffff3, 0xfffed, 0x1fffe6, 0x3fffe9, 0x1fffe7, 0x1fffe8, 0x7ffff3, 0x3fffea,
     0x3fffeb, 0x1ffffee, 0x1ffffef, 0xfffff4, 0xfffff5, 0x3ffffea, 0x7ffff4, 0x3ffffeb,
     0x7ffffe6, 0x3ffffec, 0x3ffffed, 0x7ffffe7, 0x7ffffe8, 0x7ffffe9, 0x7ffffea, 0x7ffffeb,
     0xffffffe, 0x7ffffec, 0x7ffffed, 0x7ffffee, 0x7ffffef, 0x7fffff0, 0x3ffffee, 0x3fffffff]"

definition HUFFMAN_CODE_LEN :: "nat list" where
  "HUFFMAN_CODE_LEN = [
     13, 23, 28, 28, 28, 28, 28, 28, 28, 24, 30, 28, 28, 30, 28, 28, 28, 28, 28, 28, 28, 28,
     30, 28, 28, 28, 28, 28, 28, 28, 28, 28, 6, 10, 10, 12, 13, 6, 8, 11, 10, 10, 8, 11, 8, 6,
     6, 6, 5, 5, 5, 6, 6, 6, 6, 6, 6, 6, 7, 8, 15, 6, 12, 10, 13, 6, 7, 7, 7, 7, 7, 7, 7, 7, 7,
     7, 7, 7, 7, 7, 7, 7, 7, 7, 7, 7, 7, 7, 8, 7, 8, 13, 19, 13, 14, 6, 15, 5, 6, 5, 6, 5, 6,
     6, 6, 5, 7, 7, 6, 6, 6, 5, 6, 7, 6, 5, 5, 6, 7, 7, 7, 7, 7, 15, 11, 14, 13, 28, 20, 22,
     20, 20, 22, 22, 22, 23, 22, 23, 23, 23, 23, 23, 24, 23, 24, 24, 22, 23, 24, 23, 23, 23,
     23, 21, 22, 23, 22, 23, 23, 24, 22, 21, 20, 22, 22, 23, 23, 21, 23, 22, 22, 24, 21, 22,
     23, 23, 21, 21, 22, 21, 23, 22, 23, 23, 20, 22, 22, 22, 23, 22, 22, 23, 26, 26, 20, 19,
     22, 23, 22, 25, 26, 26, 26, 27, 27, 26, 24, 25, 19, 21, 26, 27, 27, 26, 27, 24, 21, 21,
     26, 26, 28, 27, 27, 27, 20, 24, 20, 21, 22, 21, 21, 23, 22, 22, 25, 25, 24, 24, 26, 23,
     26, 27, 26, 26, 27, 27, 27, 27, 27, 28, 27, 27, 27, 27, 27, 26, 30]"

datatype tree_node = TreeNode (node_left: nat) (node_right: nat)

definition leaf :: "nat \<Rightarrow> tree_node" where "leaf value = TreeNode 0 value"
definition branch :: "nat \<Rightarrow> nat \<Rightarrow> tree_node" where "branch left right = TreeNode left right"

fun get_indices :: "tree_node \<Rightarrow> nat \<times> nat" where
  "get_indices (TreeNode l r) = (l, r)"

text \<open>The array of the tree, in four parts.\<close>

definition TREE_LIST_0 :: "tree_node list" where
  "TREE_LIST_0 = [
     branch 1 44, branch 2 17, branch 3 10, branch 4 7, branch 5 6, leaf 48, leaf 49,
     branch 8 9, leaf 50, leaf 97, branch 11 14, branch 12 13, leaf 99, leaf 101, branch 15 16,
     leaf 105, leaf 111, branch 18 29, branch 19 22, branch 20 21, leaf 115, leaf 116,
     branch 23 26, branch 24 25, leaf 32, leaf 37, branch 27 28, leaf 45, leaf 46,
     branch 30 37, branch 31 34, branch 32 33, leaf 47, leaf 51, branch 35 36, leaf 52,
     leaf 53, branch 38 41, branch 39 40, leaf 54, leaf 55, branch 42 43, leaf 56, leaf 57,
     branch 45 80, branch 46 61, branch 47 54, branch 48 51, branch 49 50, leaf 61, leaf 65,
     branch 52 53, leaf 95, leaf 98, branch 55 58, branch 56 57, leaf 100, leaf 102,
     branch 59 60, leaf 103, leaf 104, branch 62 69, branch 63 66, branch 64 65, leaf 108,
     leaf 109, branch 67 68, leaf 110, leaf 112, branch 70 73, branch 71 72, leaf 114,
     leaf 117, branch 74 77, branch 75 76, leaf 58, leaf 66, branch 78 79, leaf 67, leaf 68,
     branch 81 112, branch 82 97, branch 83 90, branch 84 87, branch 85 86, leaf 69, leaf 70,
     branch 88 89, leaf 71, leaf 72, branch 91 94, branch 92 93, leaf 73, leaf 74,
     branch 95 96, leaf 75, leaf 76, branch 98 105, branch 99 102, branch 100 101, leaf 77,
     leaf 78, branch 103 104, leaf 79, leaf 80, branch 106 109, branch 107 108, leaf 81,
     leaf 82, branch 110 111, leaf 83, leaf 84, branch 113 128, branch 114 121, branch 115 118,
     branch 116 117, leaf 85, leaf 86, branch 119 120, leaf 87, leaf 89, branch 122 125,
     branch 123 124, leaf 106, leaf 107, branch 126 127, leaf 113, leaf 118]"

definition TREE_LIST_1 :: "tree_node list" where
  "TREE_LIST_1 = [
     branch 129 136, branch 130 133, branch 131 132, leaf 119, leaf 120, branch 134 135,
     leaf 121, leaf 122, branch 137 144, branch 138 141, branch 139 140, leaf 38, leaf 42,
     branch 142 143, leaf 44, leaf 59, branch 145 148, branch 146 147, leaf 88, leaf 90,
     branch 149 156, branch 150 153, branch 151 152, leaf 33, leaf 34, branch 154 155, leaf 40,
     leaf 41, branch 157 162, branch 158 159, leaf 63, branch 160 161, leaf 39, leaf 43,
     branch 163 168, branch 164 165, leaf 124, branch 166 167, leaf 35, leaf 62,
     branch 169 176, branch 170 173, branch 171 172, leaf 0, leaf 36, branch 174 175, leaf 64,
     leaf 91, branch 177 180, branch 178 179, leaf 93, leaf 126, branch 181 184,
     branch 182 183, leaf 94, leaf 125, branch 185 188, branch 186 187, leaf 60, leaf 96,
     branch 189 190, leaf 123, branch 191 220, branch 192 201, branch 193 196, branch 194 195,
     leaf 92, leaf 195, branch 197 198, leaf 208, branch 199 200, leaf 128, leaf 130,
     branch 202 209, branch 203 206, branch 204 205, leaf 131, leaf 162, branch 207 208,
     leaf 184, leaf 194, branch 210 213, branch 211 212, leaf 224, leaf 226, branch 214 217,
     branch 215 216, leaf 153, leaf 161, branch 218 219, leaf 167, leaf 172, branch 221 266,
     branch 222 237, branch 223 230, branch 224 227, branch 225 226, leaf 176, leaf 177,
     branch 228 229, leaf 179, leaf 209, branch 231 234, branch 232 233, leaf 216, leaf 217,
     branch 235 236, leaf 227, leaf 229, branch 238 251, branch 239 244, branch 240 241,
     leaf 230, branch 242 243, leaf 129, leaf 132, branch 245 248, branch 246 247, leaf 133,
     leaf 134, branch 249 250, leaf 136, leaf 146, branch 252 259, branch 253 256,
     branch 254 255, leaf 154, leaf 156]"

definition TREE_LIST_2 :: "tree_node list" where
  "TREE_LIST_2 = [
     branch 257 258, leaf 160, leaf 163, branch 260 263, branch 261 262, leaf 164, leaf 169,
     branch 264 265, leaf 170, leaf 173, branch 267 306, branch 268 283, branch 269 276,
     branch 270 273, branch 271 272, leaf 178, leaf 181, branch 274 275, leaf 185, leaf 186,
     branch 277 280, branch 278 279, leaf 187, leaf 189, branch 281 282, leaf 190, leaf 196,
     branch 284 291, branch 285 288, branch 286 287, leaf 198, leaf 228, branch 289 290,
     leaf 232, leaf 233, branch 292 299, branch 293 296, branch 294 295, leaf 1, leaf 135,
     branch 297 298, leaf 137, leaf 138, branch 300 303, branch 301 302, leaf 139, leaf 140,
     branch 304 305, leaf 141, leaf 143, branch 307 338, branch 308 323, branch 309 316,
     branch 310 313, branch 311 312, leaf 147, leaf 149, branch 314 315, leaf 150, leaf 151,
     branch 317 320, branch 318 319, leaf 152, leaf 155, branch 321 322, leaf 157, leaf 158,
     branch 324 331, branch 325 328, branch 326 327, leaf 165, leaf 166, branch 329 330,
     leaf 168, leaf 174, branch 332 335, branch 333 334, leaf 175, leaf 180, branch 336 337,
     leaf 182, leaf 183, branch 339 360, branch 340 347, branch 341 344, branch 342 343,
     leaf 188, leaf 191, branch 345 346, leaf 197, leaf 231, branch 348 353, branch 349 350,
     leaf 239, branch 351 352, leaf 9, leaf 142, branch 354 357, branch 355 356, leaf 144,
     leaf 145, branch 358 359, leaf 148, leaf 159, branch 361 380, branch 362 369,
     branch 363 366, branch 364 365, leaf 171, leaf 206, branch 367 368, leaf 215, leaf 225,
     branch 370 373, branch 371 372, leaf 236, leaf 237, branch 374 377, branch 375 376,
     leaf 199, leaf 207, branch 378 379, leaf 234, leaf 235, branch 381 414, branch 382 397,
     branch 383 390, branch 384 387]"

definition TREE_LIST_3 :: "tree_node list" where
  "TREE_LIST_3 = [
     branch 385 386, leaf 192, leaf 193, branch 388 389, leaf 200, leaf 201, branch 391 394,
     branch 392 393, leaf 202, leaf 205, branch 395 396, leaf 210, leaf 213, branch 398 405,
     branch 399 402, branch 400 401, leaf 218, leaf 219, branch 403 404, leaf 238, leaf 240,
     branch 406 409, branch 407 408, leaf 242, leaf 243, branch 410 411, leaf 255,
     branch 412 413, leaf 203, leaf 204, branch 415 446, branch 416 431, branch 417 424,
     branch 418 421, branch 419 420, leaf 211, leaf 212, branch 422 423, leaf 214, leaf 221,
     branch 425 428, branch 426 427, leaf 222, leaf 223, branch 429 430, leaf 241, leaf 244,
     branch 432 439, branch 433 436, branch 434 435, leaf 245, leaf 246, branch 437 438,
     leaf 247, leaf 248, branch 440 443, branch 441 442, leaf 250, leaf 251, branch 444 445,
     leaf 252, leaf 253, branch 447 476, branch 448 461, branch 449 454, branch 450 451,
     leaf 254, branch 452 453, leaf 2, leaf 3, branch 455 458, branch 456 457, leaf 4, leaf 5,
     branch 459 460, leaf 6, leaf 7, branch 462 469, branch 463 466, branch 464 465, leaf 8,
     leaf 11, branch 467 468, leaf 12, leaf 14, branch 470 473, branch 471 472, leaf 15,
     leaf 16, branch 474 475, leaf 17, leaf 18, branch 477 492, branch 478 485, branch 479 482,
     branch 480 481, leaf 19, leaf 20, branch 483 484, leaf 21, leaf 23, branch 486 489,
     branch 487 488, leaf 24, leaf 25, branch 490 491, leaf 26, leaf 27, branch 493 500,
     branch 494 497, branch 495 496, leaf 28, leaf 29, branch 498 499, leaf 30, leaf 31,
     branch 501 504, branch 502 503, leaf 127, leaf 220, branch 505 506, leaf 249,
     branch 507 510, branch 508 509, leaf 10, leaf 13, branch 511 512, leaf 22, leaf 256]"

definition TREE_LIST :: "tree_node list" where
  "TREE_LIST = TREE_LIST_0 @ TREE_LIST_1 @ TREE_LIST_2 @ TREE_LIST_3"

section \<open>The tree as a term\<close>

datatype htree = L nat | N htree htree

definition huffman_tree :: htree where
  "huffman_tree =
     N (N (N (N (N (L 48) (L 49)) (N (L 50) (L 97))) (N (N (L 99) (L 101)) (N (L 105) (L
     111)))) (N (N (N (L 115) (L 116)) (N (N (L 32) (L 37)) (N (L 45) (L 46)))) (N (N (N (L 47)
     (L 51)) (N (L 52) (L 53))) (N (N (L 54) (L 55)) (N (L 56) (L 57)))))) (N (N (N (N (N (L
     61) (L 65)) (N (L 95) (L 98))) (N (N (L 100) (L 102)) (N (L 103) (L 104)))) (N (N (N (L
     108) (L 109)) (N (L 110) (L 112))) (N (N (L 114) (L 117)) (N (N (L 58) (L 66)) (N (L 67)
     (L 68)))))) (N (N (N (N (N (L 69) (L 70)) (N (L 71) (L 72))) (N (N (L 73) (L 74)) (N (L
     75) (L 76)))) (N (N (N (L 77) (L 78)) (N (L 79) (L 80))) (N (N (L 81) (L 82)) (N (L 83) (L
     84))))) (N (N (N (N (L 85) (L 86)) (N (L 87) (L 89))) (N (N (L 106) (L 107)) (N (L 113) (L
     118)))) (N (N (N (L 119) (L 120)) (N (L 121) (L 122))) (N (N (N (L 38) (L 42)) (N (L 44)
     (L 59))) (N (N (L 88) (L 90)) (N (N (N (L 33) (L 34)) (N (L 40) (L 41))) (N (N (L 63) (N
     (L 39) (L 43))) (N (N (L 124) (N (L 35) (L 62))) (N (N (N (L 0) (L 36)) (N (L 64) (L 91)))
     (N (N (L 93) (L 126)) (N (N (L 94) (L 125)) (N (N (L 60) (L 96)) (N (L 123) (N (N (N (N (L
     92) (L 195)) (N (L 208) (N (L 128) (L 130)))) (N (N (N (L 131) (L 162)) (N (L 184) (L
     194))) (N (N (L 224) (L 226)) (N (N (L 153) (L 161)) (N (L 167) (L 172)))))) (N (N (N (N
     (N (L 176) (L 177)) (N (L 179) (L 209))) (N (N (L 216) (L 217)) (N (L 227) (L 229)))) (N
     (N (N (L 230) (N (L 129) (L 132))) (N (N (L 133) (L 134)) (N (L 136) (L 146)))) (N (N (N
     (L 154) (L 156)) (N (L 160) (L 163))) (N (N (L 164) (L 169)) (N (L 170) (L 173)))))) (N (N
     (N (N (N (L 178) (L 181)) (N (L 185) (L 186))) (N (N (L 187) (L 189)) (N (L 190) (L
     196)))) (N (N (N (L 198) (L 228)) (N (L 232) (L 233))) (N (N (N (L 1) (L 135)) (N (L 137)
     (L 138))) (N (N (L 139) (L 140)) (N (L 141) (L 143)))))) (N (N (N (N (N (L 147) (L 149))
     (N (L 150) (L 151))) (N (N (L 152) (L 155)) (N (L 157) (L 158)))) (N (N (N (L 165) (L
     166)) (N (L 168) (L 174))) (N (N (L 175) (L 180)) (N (L 182) (L 183))))) (N (N (N (N (L
     188) (L 191)) (N (L 197) (L 231))) (N (N (L 239) (N (L 9) (L 142))) (N (N (L 144) (L 145))
     (N (L 148) (L 159))))) (N (N (N (N (L 171) (L 206)) (N (L 215) (L 225))) (N (N (L 236) (L
     237)) (N (N (L 199) (L 207)) (N (L 234) (L 235))))) (N (N (N (N (N (L 192) (L 193)) (N (L
     200) (L 201))) (N (N (L 202) (L 205)) (N (L 210) (L 213)))) (N (N (N (L 218) (L 219)) (N
     (L 238) (L 240))) (N (N (L 242) (L 243)) (N (L 255) (N (L 203) (L 204)))))) (N (N (N (N (N
     (L 211) (L 212)) (N (L 214) (L 221))) (N (N (L 222) (L 223)) (N (L 241) (L 244)))) (N (N
     (N (L 245) (L 246)) (N (L 247) (L 248))) (N (N (L 250) (L 251)) (N (L 252) (L 253))))) (N
     (N (N (N (L 254) (N (L 2) (L 3))) (N (N (L 4) (L 5)) (N (L 6) (L 7)))) (N (N (N (L 8) (L
     11)) (N (L 12) (L 14))) (N (N (L 15) (L 16)) (N (L 17) (L 18))))) (N (N (N (N (L 19) (L
     20)) (N (L 21) (L 23))) (N (N (L 24) (L 25)) (N (L 26) (L 27)))) (N (N (N (L 28) (L 29))
     (N (L 30) (L 31))) (N (N (L 127) (L 220)) (N (L 249) (N (N (L 10) (L 13)) (N (L 22) (L
     256))))))))))))))))))))))))))))))"

fun node_count :: "htree \<Rightarrow> nat" where
  "node_count (L v) = 1"
| "node_count (N a b) = 1 + node_count a + node_count b"

fun flat :: "htree \<Rightarrow> nat \<Rightarrow> tree_node list" where
  "flat (L v) i = [leaf v]"
| "flat (N a b) i =
     branch (i + 1) (i + 1 + node_count a) # flat a (i + 1) @ flat b (i + 1 + node_count a)"

lemma TREE_LIST_flat: "TREE_LIST = flat huffman_tree 0"
  by (simp add: huffman_tree_def TREE_LIST_def TREE_LIST_0_def TREE_LIST_1_def TREE_LIST_2_def
      TREE_LIST_3_def del: One_nat_def)

text \<open>Every leaf against the tables, on the way down with the depth and the path as a number.\<close>

fun codes_agree :: "htree \<Rightarrow> nat \<Rightarrow> nat \<Rightarrow> bool" where
  "codes_agree (L v) n c \<longleftrightarrow> v < 257 \<and> HUFFMAN_CODE_LEN ! v = n \<and> HUFFMAN_CODES ! v = c"
| "codes_agree (N a b) n c \<longleftrightarrow> codes_agree a (n + 1) (2 * c) \<and> codes_agree b (n + 1) (2 * c + 1)"

lemma codes_agree_huffman: "codes_agree huffman_tree 0 0"
  by (simp add: HUFFMAN_CODES_def HUFFMAN_CODE_LEN_def huffman_tree_def del: One_nat_def)

section \<open>Paths\<close>

text \<open>The leaves with the paths that lead to them (\<open>True\<close> is right, the bit 1).\<close>

fun paths :: "htree \<Rightarrow> (bool list \<times> nat) list" where
  "paths (L v) = [([], v)]"
| "paths (N a b) = map (apfst ((#) False)) (paths a) @ map (apfst ((#) True)) (paths b)"

fun walk :: "htree \<Rightarrow> bool list \<Rightarrow> htree option" where
  "walk t [] = Some t"
| "walk (L v) (b # bs) = None"
| "walk (N x y) (b # bs) = walk (if b then y else x) bs"

text \<open>The number that a path spells, and the bits of a code.\<close>

definition path_num :: "bool list \<Rightarrow> nat" where
  "path_num p = foldl (\<lambda>c b. 2 * c + of_bool b) 0 p"

definition num_bits :: "nat \<Rightarrow> nat \<Rightarrow> bool list" where
  "num_bits n c = map (\<lambda>i. odd (c div 2 ^ i)) (rev [0..<n])"

lemma length_num_bits [simp]: "length (num_bits n c) = n"
  by (simp add: num_bits_def)

lemma num_bits_Suc: "num_bits (Suc n) c = num_bits n (c div 2) @ [odd c]"
proof -
  have "[0..<Suc n] = 0 # map Suc [0..<n]" by (simp add: upt_conv_Cons map_Suc_upt)
  then show ?thesis by (simp add: num_bits_def rev_map div_mult2_eq)
qed

lemma num_bits_foldl: "num_bits (length p) (path_num p) = p"
proof (induction p rule: rev_induct)
  case Nil
  then show ?case by (simp add: num_bits_def)
next
  case (snoc b p)
  then show ?case by (cases b) (simp_all add: num_bits_Suc path_num_def)
qed

lemma walk_append: "walk t (p @ q) = (case walk t p of None \<Rightarrow> None | Some u \<Rightarrow> walk u q)"
  by (induction t p rule: walk.induct) (auto split: option.split)

lemma paths_walk: "(p, v) \<in> set (paths t) \<longleftrightarrow> walk t p = Some (L v)"
proof (induction t arbitrary: p)
  case (L w)
  then show ?case by (cases p) auto
next
  case (N a b)
  show ?case
  proof (cases p)
    case Nil
    then show ?thesis by (auto simp: apfst_def map_prod_def)
  next
    case (Cons c q)
    have "(c # q, v) \<in> apfst ((#) d) ` A \<longleftrightarrow> c = d \<and> (q, v) \<in> A" for d and A :: "(bool list \<times> nat) set"
      by (force simp: apfst_def map_prod_def image_iff split_beta)
    with N.IH [of q] Cons show ?thesis by (cases c) auto
  qed
qed

lemma distinct_paths: "distinct (map fst (paths t))"
proof (induction t)
  case (N a b)
  have "map fst (map (apfst ((#) c)) ps) = map ((#) c) (map fst ps)" for c :: bool and ps :: "(bool list \<times> nat) list"
    by simp
  with N.IH show ?case by (auto simp: distinct_map inj_on_def)
qed simp

lemma foldl_path: "foldl (\<lambda>c b. 2 * c + of_bool b) c p = c * 2 ^ length p + path_num p"
proof (induction p rule: rev_induct)
  case Nil
  then show ?case by (simp add: path_num_def)
next
  case (snoc b p)
  then show ?case by (simp add: path_num_def algebra_simps)
qed

lemma codes_agree_paths:
  "codes_agree t n c \<Longrightarrow> (p, v) \<in> set (paths t) \<Longrightarrow>
   v < 257 \<and> HUFFMAN_CODE_LEN ! v = n + length p \<and>
   HUFFMAN_CODES ! v = foldl (\<lambda>c b. 2 * c + of_bool b) c p"
  by (induction t arbitrary: n c p) (auto simp: apfst_def map_prod_def)

text \<open>The bits that encode a symbol.\<close>

definition code_bits :: "nat \<Rightarrow> bool list" where
  "code_bits v = num_bits (HUFFMAN_CODE_LEN ! v) (HUFFMAN_CODES ! v)"

lemma path_code:
  assumes "(p, v) \<in> set (paths huffman_tree)"
  shows "v < 257" and "p = code_bits v"
proof -
  from codes_agree_paths [OF codes_agree_huffman assms] foldl_path [of 0 p]
  have "v < 257" "HUFFMAN_CODE_LEN ! v = length p" "HUFFMAN_CODES ! v = path_num p" by auto
  then show "v < 257" and "p = code_bits v" by (simp_all add: code_bits_def num_bits_foldl)
qed

text \<open>Every symbol is a leaf: there are 257 of them, and no two carry the same symbol.\<close>

fun leaf_count :: "htree \<Rightarrow> nat" where
  "leaf_count (L v) = 1"
| "leaf_count (N a b) = leaf_count a + leaf_count b"

lemma length_paths [simp]: "length (paths t) = leaf_count t"
  by (induction t) auto

lemma leaf_count_huffman: "leaf_count huffman_tree = 257"
  by (simp add: huffman_tree_def)

lemma set_symbols: "set (map snd (paths huffman_tree)) = {..<257}"
proof -
  have "map fst (paths huffman_tree) = map (code_bits \<circ> snd) (paths huffman_tree)"
    using path_code(2) by (auto intro!: map_cong)
  with distinct_paths [of huffman_tree] have "distinct (map snd (paths huffman_tree))"
    by (metis distinct_map map_map)
  then have "card (set (map snd (paths huffman_tree))) = 257"
    by (simp add: distinct_card leaf_count_huffman del: set_map)
  moreover have "set (map snd (paths huffman_tree)) \<subseteq> {..<257}" using path_code(1) by auto
  ultimately show ?thesis by (intro card_subset_eq) simp_all
qed

lemma walk_leaf: "walk huffman_tree p = Some (L v) \<longleftrightarrow> v < 257 \<and> p = code_bits v"
proof
  assume "walk huffman_tree p = Some (L v)"
  then show "v < 257 \<and> p = code_bits v" using path_code paths_walk by blast
next
  assume v: "v < 257 \<and> p = code_bits v"
  then have "v \<in> set (map snd (paths huffman_tree))" unfolding set_symbols by simp
  then obtain q where "(q, v) \<in> set (paths huffman_tree)" by auto
  with v path_code(2) [OF this] show "walk huffman_tree p = Some (L v)"
    using paths_walk by blast
qed

section \<open>Nodes of the array\<close>

text \<open>\<open>node_at i t\<close>: the subtree \<open>t\<close> is listed in the array from index \<open>i\<close> on.\<close>

definition node_at :: "nat \<Rightarrow> htree \<Rightarrow> bool" where
  "node_at i t \<longleftrightarrow> (\<exists>pre post. TREE_LIST = pre @ flat t i @ post \<and> length pre = i)"

lemma length_flat [simp]: "length (flat t i) = node_count t"
  by (induction t arbitrary: i) auto

lemma node_at_root: "node_at 0 huffman_tree"
  unfolding node_at_def by (intro exI [of _ "[]"]) (simp add: TREE_LIST_flat)

lemma node_atE:
  assumes "node_at i t"
  obtains pre post where "TREE_LIST = pre @ flat t i @ post" and "length pre = i"
  using assms by (auto simp: node_at_def)

lemma node_at_less: "node_at i t \<Longrightarrow> i < length TREE_LIST"
proof (erule node_atE)
  fix pre post assume l: "TREE_LIST = pre @ flat t i @ post" and i: "length pre = i"
  show "i < length TREE_LIST" unfolding l using i by (cases t) simp_all
qed

lemma node_at_leaf: "node_at i (L v) \<Longrightarrow> TREE_LIST ! i = leaf v"
proof (erule node_atE)
  fix pre post assume l: "TREE_LIST = pre @ flat (L v) i @ post" and i: "length pre = i"
  show "TREE_LIST ! i = leaf v" unfolding l using i by (simp add: nth_append)
qed

lemma node_at_branch:
  assumes "node_at i (N a b)"
  shows "TREE_LIST ! i = branch (i + 1) (i + 1 + node_count a)"
    and "node_at (i + 1) a" and "node_at (i + 1 + node_count a) b"
proof -
  from assms obtain pre post where
    t: "TREE_LIST = pre @ flat (N a b) i @ post" and i: "length pre = i" by (rule node_atE)
  let ?n = "branch (i + 1) (i + 1 + node_count a)"
  show "TREE_LIST ! i = ?n" using i by (simp add: t nth_append)
  have "TREE_LIST = (pre @ [?n]) @ flat a (i + 1) @ (flat b (i + 1 + node_count a) @ post)"
    by (simp add: t)
  then show "node_at (i + 1) a" unfolding node_at_def using i by (metis length_append_singleton Suc_eq_plus1)
  have "TREE_LIST = (pre @ [?n] @ flat a (i + 1)) @ flat b (i + 1 + node_count a) @ post"
    by (simp add: t)
  moreover have "length (pre @ [?n] @ flat a (i + 1)) = i + 1 + node_count a" using i by simp
  ultimately show "node_at (i + 1 + node_count a) b" unfolding node_at_def by blast
qed

end
