(* ===== verification/Huffman.thy ===== *)
theory Huffman
  imports Huffman_Tables "HOL-Library.Sublist"
begin

text \<open>
  The coder of \<open>http/src/http2/hpack/huffman.rs\<close>. The output \<open>Buffer\<close> is represented by
  its contents: \<open>clear\<close> empties it, \<open>push\<close> appends a byte, \<open>last_mut\<close> is its last byte (the
  theory \<open>Buffer\<close> proves this of the operations).

  \<open>encode_bytes\<close> writes bit by bit into the last byte; \<open>decode_bytes\<close> walks the array of the
  tree. Both are related to \<open>encoding\<close>, the concatenation of the code words: the encoder
  writes it and pads with ones (\<open>encode_bytes_spec\<close>), the decoder accepts exactly the
  encodings padded with fewer than thirty ones (\<open>decode_bytes_iff\<close>), it never leaves the
  array and never panics (\<open>decode_bytes_total\<close>).
\<close>

section \<open>Loops\<close>

text \<open>A \<open>for\<close> loop whose body may panic, and one whose body may return an error.\<close>

fun for_opt :: "('s \<Rightarrow> 'x \<Rightarrow> 's option) \<Rightarrow> 's \<Rightarrow> 'x list \<Rightarrow> 's option" where
  "for_opt f s [] = Some s"
| "for_opt f s (x # xs) = (case f s x of None \<Rightarrow> None | Some s' \<Rightarrow> for_opt f s' xs)"

fun for_each :: "('s \<Rightarrow> 'x \<Rightarrow> ('e, unit) rs \<times> 's) \<Rightarrow> 's \<Rightarrow> 'x list \<Rightarrow> ('e, unit) rs \<times> 's" where
  "for_each f s [] = (Ok (), s)"
| "for_each f s (x # xs) = and_then (f s x) (\<lambda>_ s. for_each f s xs)"

lemma for_each_append:
  "for_each f s (xs @ ys) = and_then (for_each f s xs) (\<lambda>_ s. for_each f s ys)"
proof (induction xs arbitrary: s)
  case (Cons x xs)
  then show ?case by (cases "f s x"; cases "fst (f s x)") auto
qed simp

lemma for_each_concat:
  "for_each (\<lambda>s x. for_each f s (g x)) s xs = for_each f s (concat (map g xs))"
  by (induction xs arbitrary: s) (simp_all add: for_each_append)

section \<open>Encoding\<close>

text \<open>The bits of a byte in the order in which both loops visit them.\<close>

definition byte_bits :: "u8 \<Rightarrow> bool list" where
  "byte_bits v = map (bit v) (rev [0..<8])"

definition encode_bit :: "bytes \<times> u8 \<Rightarrow> bool \<Rightarrow> (bytes \<times> u8) option" where
  "encode_bit s b =
     (case s of (out, offset) \<Rightarrow>
        let out = (if offset = 7 then out @ [0] else out)
        in if out = [] then None
           else Some (butlast out @ [last out OR push_bit (unat offset) (of_bool b)],
                      (offset - 1) AND 7))"

definition encode_bytes :: "bytes \<Rightarrow> bytes option" where
  "encode_bytes data =
     (case for_opt (\<lambda>s v. for_opt encode_bit s (code_bits (unat v))) ([], 7) data of
        None \<Rightarrow> None
      | Some (out, offset) \<Rightarrow>
          if offset \<noteq> 7
          then (if out = [] then None
                else Some (butlast out @ [last out OR (push_bit (unat (offset + 1)) 1 - 1)]))
          else Some out)"

text \<open>The size in bits is a sum in \<open>u32\<close>; its overflow panics.\<close>

fun size_bits :: "nat \<Rightarrow> bytes \<Rightarrow> nat option" where
  "size_bits sz [] = Some sz"
| "size_bits sz (v # data) =
     (let sz = sz + HUFFMAN_CODE_LEN ! unat v
      in if sz < 2 ^ 32 then size_bits sz data else None)"

definition get_size :: "bytes \<Rightarrow> nat option" where
  "get_size data =
     (case size_bits 0 data of
        None \<Rightarrow> None
      | Some sz \<Rightarrow> Some (sz div 8 + (if sz mod 8 > 0 then 1 else 0)))"

section \<open>Decoding\<close>

datatype decode_error =
  TooSmall | Overflow | FoundEOS | IncompleteData | IndexNotFound | TableTooSmall

fun decode_error_num :: "decode_error \<Rightarrow> u32" where
  "decode_error_num TooSmall = 0"
| "decode_error_num Overflow = 1"
| "decode_error_num FoundEOS = 2"
| "decode_error_num IncompleteData = 3"
| "decode_error_num IndexNotFound = 4"
| "decode_error_num TableTooSmall = 5"

fun display_decode_error :: "decode_error \<Rightarrow> bytes" where
  "display_decode_error TooSmall = ascii ''Not enough data to parse next item''"
| "display_decode_error Overflow = ascii ''Data overflowed type''"
| "display_decode_error FoundEOS = ascii ''Found EOS while decoding''"
| "display_decode_error IncompleteData = ascii ''Incomplete data''"
| "display_decode_error IndexNotFound = ascii ''Index not found in tables''"
| "display_decode_error TableTooSmall = ascii ''Table too small for given size''"

text \<open>Indexing the tree panics out of bounds.\<close>

definition tree_indices :: "nat \<Rightarrow> (nat \<times> nat) option" where
  "tree_indices index =
     (if index < length TREE_LIST then Some (get_indices (TREE_LIST ! index)) else None)"

text \<open>The body of the inner loop; the state is \<open>index\<close>, \<open>all_ones\<close> and the output.\<close>

type_synonym decode_state = "nat \<times> bool option \<times> bytes"

definition decode_bit :: "decode_state \<Rightarrow> bool \<Rightarrow> (decode_error, unit) rs \<times> decode_state" where
  "decode_bit s b =
     (case s of (index, all_ones, out) \<Rightarrow>
       (case tree_indices index of
          None \<Rightarrow> (Panic, s)
        | Some indices \<Rightarrow>
           (let all_ones = (if b then (if all_ones = None then Some True else all_ones)
                            else Some False);
                index = (if b then snd indices else fst indices)
            in (case tree_indices index of
                  None \<Rightarrow> (Panic, s)
                | Some indices \<Rightarrow>
                    if fst indices = 0
                    then (if snd indices = 256 then (Err FoundEOS, (index, all_ones, out))
                          else (Ok (), (0, None, out @ [of_nat (snd indices)])))
                    else (Ok (), (index, all_ones, out))))))"

definition decode_bytes :: "bytes \<Rightarrow> (decode_error, unit) rs \<times> bytes" where
  "decode_bytes data =
     (case for_each (\<lambda>s v. for_each decode_bit s (byte_bits v)) (0, None, []) data of
        (Ok _, (index, all_ones, out)) \<Rightarrow>
          (if \<not> (case all_ones of None \<Rightarrow> True | Some b \<Rightarrow> b) then (Err IncompleteData, out)
           else (Ok (), out))
      | (Err e, (index, all_ones, out)) \<Rightarrow> (Err e, out)
      | (Panic, (index, all_ones, out)) \<Rightarrow> (Panic, out))"

section \<open>The specification of both\<close>

definition bytes_bits :: "bytes \<Rightarrow> bool list" where
  "bytes_bits xs = concat (map byte_bits xs)"

definition enc :: "nat list \<Rightarrow> bool list" where
  "enc vs = concat (map code_bits vs)"

definition encoding :: "bytes \<Rightarrow> bool list" where
  "encoding data = enc (map unat data)"

lemma enc_simps [simp]:
  "enc [] = []" "enc (v # vs) = code_bits v @ enc vs" "enc (us @ vs) = enc us @ enc vs"
  by (simp_all add: enc_def)

lemma length_byte_bits [simp]: "length (byte_bits v) = 8"
  by (simp add: byte_bits_def)

lemma nth_byte_bits: "i < 8 \<Longrightarrow> byte_bits v ! i = bit v (7 - i)"
  by (simp add: byte_bits_def rev_nth)

lemma bytes_bits_simps [simp]:
  "bytes_bits [] = []" "bytes_bits (x # xs) = byte_bits x @ bytes_bits xs"
  "bytes_bits (xs @ ys) = bytes_bits xs @ bytes_bits ys"
  by (simp_all add: bytes_bits_def)

lemma length_bytes_bits [simp]: "length (bytes_bits xs) = 8 * length xs"
  by (induction xs) auto

lemma byte_bits_0: "byte_bits 0 = replicate 8 False"
  by (rule nth_equalityI) (simp_all add: nth_byte_bits)

section \<open>The encoder writes the encoding\<close>

lemma byte_set_bit:
  assumes "byte_bits w = pre @ replicate (Suc m) False"
  shows "byte_bits (w OR push_bit m (of_bool b)) = pre @ b # replicate m False"
proof (rule nth_equalityI)
  have l: "length pre + Suc m = 8" using arg_cong [OF assms, of length] by simp
  then show "length (byte_bits (w OR push_bit m (of_bool b))) = length (pre @ b # replicate m False)"
    by simp
  fix i assume "i < length (byte_bits (w OR push_bit m (of_bool b)))"
  then have i: "i < 8" by simp
  have "bit (push_bit m (of_bool b :: u8)) (7 - i) \<longleftrightarrow> b \<and> 7 - i = m"
    using l by (auto simp: bit_simps)
  moreover have "bit w (7 - i) = (pre @ replicate (Suc m) False) ! i"
    unfolding assms [symmetric] using i by (simp add: nth_byte_bits)
  ultimately show "byte_bits (w OR push_bit m (of_bool b)) ! i = (pre @ b # replicate m False) ! i"
    using i l by (auto simp: nth_byte_bits bit_or_iff nth_append nth_Cons split: nat.splits)
qed

lemma byte_fill_ones:
  assumes "byte_bits w = pre @ replicate k False"
  shows "byte_bits (w OR mask k) = pre @ replicate k True"
proof (rule nth_equalityI)
  have l: "length pre + k = 8" using arg_cong [OF assms, of length] by simp
  then show "length (byte_bits (w OR mask k)) = length (pre @ replicate k True)" by simp
  fix i assume "i < length (byte_bits (w OR mask k))"
  then have i: "i < 8" by simp
  have "bit w (7 - i) = (pre @ replicate k False) ! i"
    unfolding assms [symmetric] using i by (simp add: nth_byte_bits)
  with i l show "byte_bits (w OR mask k) ! i = (pre @ replicate k True) ! i"
    by (auto simp: nth_byte_bits bit_or_iff bit_mask_iff nth_append)
qed

text \<open>Bits followed by fewer than nine zeros that fill whole bytes: the last byte has them.\<close>

lemma last_byte:
  assumes "bytes_bits out = bits @ replicate k False" and "0 < k" and "k \<le> 8"
  obtains pre where "out \<noteq> []" and "byte_bits (last out) = pre @ replicate k False"
    and "bits = bytes_bits (butlast out) @ pre"
proof -
  have ne: "out \<noteq> []" using assms by auto
  then have out: "bytes_bits out = bytes_bits (butlast out) @ byte_bits (last out)"
    by (metis append_butlast_last_id bytes_bits_simps(1,2,3) append_Nil2)
  let ?pre = "take (8 - k) (byte_bits (last out))"
  have "bits @ replicate k False =
      (bytes_bits (butlast out) @ ?pre) @ drop (8 - k) (byte_bits (last out))"
    using assms(1) out by (metis append.assoc append_take_drop_id)
  moreover have "length (drop (8 - k) (byte_bits (last out))) = length (replicate k False)"
    using assms(3) by simp
  ultimately have "bits = bytes_bits (butlast out) @ ?pre"
    and "drop (8 - k) (byte_bits (last out)) = replicate k False"
    by (metis append_eq_append_conv)+
  then show thesis using ne by (intro that [of ?pre]) (metis append_take_drop_id)+
qed

text \<open>The invariant: the bits so far, then zeros for the cells of the last byte still free.\<close>

definition free_bits :: "u8 \<Rightarrow> nat" where
  "free_bits offset = (if offset = 7 then 0 else unat offset + 1)"

definition enc_inv :: "bytes \<times> u8 \<Rightarrow> bool list \<Rightarrow> bool" where
  "enc_inv s bits \<longleftrightarrow>
     (case s of (out, offset) \<Rightarrow>
        offset \<le> 7 \<and> bytes_bits out = bits @ replicate (free_bits offset) False)"

lemma offset_cases:
  assumes "(offset :: u8) \<le> 7"
  shows "offset \<in> {0, 1, 2, 3, 4, 5, 6, 7}"
proof -
  have "unat offset \<le> 7" using assms by (simp add: word_le_nat_alt)
  then have "unat offset \<in> {0, 1, 2, 3, 4, 5, 6, 7}" by auto
  then show ?thesis by (auto simp: word_unat_eq_iff)
qed

lemma next_offset:
  assumes "(offset :: u8) \<le> 7"
  shows "(offset - 1) AND 7 \<le> 7" and "free_bits ((offset - 1) AND 7) = unat offset"
  using offset_cases [OF assms] by (auto simp: free_bits_def)

lemma encode_bit_step:
  assumes "enc_inv s bits"
  obtains s' where "encode_bit s b = Some s'" and "enc_inv s' (bits @ [b])"
proof -
  obtain out offset where s: "s = (out, offset)" by (cases s)
  from assms have le: "offset \<le> 7"
    and bits: "bytes_bits out = bits @ replicate (free_bits offset) False"
    by (simp_all add: enc_inv_def s)
  have m: "unat offset \<le> 7" using le by (simp add: word_le_nat_alt)
  let ?out = "if offset = 7 then out @ [0] else out"
  have "bytes_bits ?out = bits @ replicate (Suc (unat offset)) False"
  proof (cases "offset = 7")
    case True
    then have "Suc (unat offset) = 8" by simp
    with True bits show ?thesis by (simp only: free_bits_def) (simp add: byte_bits_0)
  qed (use bits in \<open>simp add: free_bits_def\<close>)
  then obtain pre where ne: "?out \<noteq> []"
    and pre: "byte_bits (last ?out) = pre @ replicate (Suc (unat offset)) False"
    and b': "bits = bytes_bits (butlast ?out) @ pre"
    using m by (elim last_byte) simp_all
  let ?s' = "(butlast ?out @ [last ?out OR push_bit (unat offset) (of_bool b)], (offset - 1) AND 7)"
  have "encode_bit s b = Some ?s'"
    using ne by (simp only: s encode_bit_def Let_def case_prod_conv if_False)
  moreover have "enc_inv ?s' (bits @ [b])"
    using next_offset [OF le] byte_set_bit [OF pre, of b] by (simp add: enc_inv_def b')
  ultimately show thesis by (rule that)
qed

lemma for_opt_encode:
  assumes "enc_inv s bits"
  obtains s' where "for_opt encode_bit s bs = Some s'" and "enc_inv s' (bits @ bs)"
  using assms
proof (induction bs arbitrary: s bits thesis)
  case Nil
  then show ?case by simp
next
  case (Cons b bs)
  obtain s1 where 1: "encode_bit s b = Some s1" and i1: "enc_inv s1 (bits @ [b])"
    using encode_bit_step [OF Cons.prems(2)] .
  from Cons.IH [OF _ i1] obtain s2 where "for_opt encode_bit s1 bs = Some s2"
    and "enc_inv s2 ((bits @ [b]) @ bs)" .
  then show ?case using Cons.prems(1) 1 by simp
qed

lemma for_opt_encode_data:
  assumes "enc_inv s bits"
  obtains s' where "for_opt (\<lambda>s v. for_opt encode_bit s (code_bits (unat v))) s data = Some s'"
    and "enc_inv s' (bits @ encoding data)"
  using assms
proof (induction data arbitrary: s bits thesis)
  case Nil
  then show ?case by (simp add: encoding_def)
next
  case (Cons v data)
  obtain s1 where 1: "for_opt encode_bit s (code_bits (unat v)) = Some s1"
    and i1: "enc_inv s1 (bits @ code_bits (unat v))" using for_opt_encode [OF Cons.prems(2)] .
  from Cons.IH [OF _ i1] obtain s2 where
    "for_opt (\<lambda>s v. for_opt encode_bit s (code_bits (unat v))) s1 data = Some s2"
    and "enc_inv s2 ((bits @ code_bits (unat v)) @ encoding data)" .
  then show ?case using Cons.prems(1) 1 by (simp add: encoding_def)
qed

lemma encode_bytes_spec:
  obtains out k where "encode_bytes data = Some out"
    and "bytes_bits out = encoding data @ replicate k True" and "k < 8"
proof -
  have "enc_inv ([], 7) []" by (simp add: enc_inv_def free_bits_def)
  from for_opt_encode_data [OF this, of data] obtain out offset where
    l: "for_opt (\<lambda>s v. for_opt encode_bit s (code_bits (unat v))) ([], 7) data = Some (out, offset)"
    and i: "enc_inv (out, offset) (encoding data)" by auto
  show thesis
  proof (cases "offset = 7")
    case True
    with l i show thesis
      by (intro that [of out 0]) (simp_all add: encode_bytes_def enc_inv_def free_bits_def)
  next
    case False
    let ?k = "free_bits offset"
    from False i have le: "offset \<le> 7" and "?k = unat (offset + 1)" and k: "0 < ?k" "?k < 8"
      and b: "bytes_bits out = encoding data @ replicate ?k False"
      using offset_cases [of offset] by (auto simp: enc_inv_def free_bits_def)
    from last_byte [OF b k(1)] k obtain pre where "out \<noteq> []"
      and pre: "byte_bits (last out) = pre @ replicate ?k False"
      and e: "encoding data = bytes_bits (butlast out) @ pre" by auto
    then have "encode_bytes data = Some (butlast out @ [last out OR mask ?k])"
      using False l \<open>?k = _\<close> by (simp add: encode_bytes_def mask_eq_decr_exp push_bit_of_1)
    moreover have "bytes_bits (butlast out @ [last out OR mask ?k]) = encoding data @ replicate ?k True"
      by (simp add: byte_fill_ones [OF pre] e)
    ultimately show thesis using k(2) by (rule that)
  qed
qed

text \<open>The size computed in advance is the size of the encoding.\<close>

lemma size_bits_spec:
  "n + length (encoding data) < 2 ^ 32 \<Longrightarrow> size_bits n data = Some (n + length (encoding data))"
  by (induction data arbitrary: n) (simp_all add: encoding_def Let_def code_bits_def add.assoc)

lemma size_bits_overflow:
  "2 ^ 32 \<le> n + length (encoding data) \<Longrightarrow> n < 2 ^ 32 \<Longrightarrow> size_bits n data = None"
  by (induction data arbitrary: n) (simp_all add: encoding_def Let_def code_bits_def add.assoc)

lemma round_up:
  assumes "8 * q = (n :: nat) + k" and "k < 8"
  shows "n div 8 + (if n mod 8 > 0 then 1 else 0) = q"
proof (cases "k = 0")
  case True
  with assms(1) have "n = 8 * q" by simp
  then show ?thesis by simp
next
  case False
  with assms obtain m j where "q = Suc m" and n: "n = 8 * m + j" and "0 < j" "j < 8"
    by (intro that [of "q - 1" "8 - k"]) auto
  then show ?thesis by simp
qed

lemma get_size_spec:
  assumes "length (encoding data) < 2 ^ 32" and "encode_bytes data = Some out"
  shows "get_size data = Some (length out)"
proof -
  obtain out' k where "encode_bytes data = Some out'"
    and b: "bytes_bits out' = encoding data @ replicate k True" and k: "k < 8"
    by (rule encode_bytes_spec)
  with assms(2) have [simp]: "out' = out" by simp
  have "8 * length out = length (encoding data) + k" using arg_cong [OF b, of length] by simp
  from round_up [OF this k] assms(1) show ?thesis by (simp add: get_size_def size_bits_spec)
qed

section \<open>Prefix freedom\<close>

lemma root_is_node: obtains a b where "huffman_tree = N a b"
proof (cases huffman_tree)
  case (L v)
  with leaf_count_huffman have "leaf_count (L v) = 257" by metis
  then show thesis by simp
qed (rule that)

lemma walk_code: "v < 257 \<Longrightarrow> walk huffman_tree (code_bits v) = Some (L v)"
  by (simp add: walk_leaf)

lemma walk_L: "walk (L v) p = Some t \<longleftrightarrow> p = [] \<and> t = L v"
  by (cases p) auto

lemma code_prefix:
  assumes "u < 257" and "v < 257" and "code_bits u @ p = code_bits v @ q"
  shows "u = v"
proof -
  have *: "x = y" if "x < 257" "y < 257" "code_bits x = code_bits y @ z" for x y z
    using walk_code [OF that(1)] walk_code [OF that(2)] walk_L [of y z "L x"]
    by (simp add: that(3) walk_append)
  from assms(3) show ?thesis
    using * [OF assms(1,2)] * [OF assms(2,1)] by (metis append_eq_append_conv2)
qed

lemma code_not_in_path:
  assumes "v < 257" and "walk huffman_tree q = Some (N a b)"
  shows "code_bits v @ p \<noteq> q"
  using assms walk_code [OF assms(1)] walk_L [of v p "N a b"] by (auto simp: walk_append)

text \<open>Two readings of the same bits agree as far as the second ends inside the tree.\<close>

lemma enc_prefix:
  assumes "enc us @ p = enc vs @ q" and "walk huffman_tree q = Some (N a b)"
    and "set us \<union> set vs \<subseteq> {..<257}"
  shows "prefix us vs"
  using assms(1,3)
proof (induction us arbitrary: vs)
  case (Cons u us)
  show ?case
  proof (cases vs)
    case Nil
    with Cons.prems code_not_in_path [OF _ assms(2), of u "enc us @ p"] show ?thesis by auto
  next
    case (Cons v vs')
    with Cons.prems have "code_bits u @ (enc us @ p) = code_bits v @ (enc vs' @ q)"
      and "u < 257" "v < 257" by auto
    then have "u = v" by (intro code_prefix)
    with Cons Cons.prems Cons.IH [of vs'] show ?thesis by auto
  qed
qed simp

lemma eos_bits: "code_bits 256 = replicate 30 True"
proof -
  have "HUFFMAN_CODE_LEN ! 256 = 30" and "HUFFMAN_CODES ! 256 = 2 ^ 30 - 1"
    by (simp_all add: HUFFMAN_CODE_LEN_def HUFFMAN_CODES_def)
  moreover have "num_bits n (2 ^ n - 1) = replicate n True" for n
  proof (induction n)
    case 0
    then show ?case by (simp add: num_bits_def)
  next
    case (Suc n)
    have "odd (2 ^ Suc n - 1 :: nat)" and "(2 ^ Suc n - 1 :: nat) div 2 = 2 ^ n - 1" by auto
    with Suc show ?case by (simp only: num_bits_Suc) (simp add: replicate_append_same)
  qed
  ultimately show ?thesis by (simp only: code_bits_def)
qed

lemma walk_ones:
  assumes "k < 30"
  obtains a b where "walk huffman_tree (replicate k True) = Some (N a b)"
proof -
  have "replicate 30 True = replicate k True @ replicate (30 - k) True"
    using assms by (simp flip: replicate_add)
  then have "walk huffman_tree (replicate k True @ replicate (30 - k) True) = Some (L 256)"
    using walk_code [of 256] by (simp add: eos_bits)
  then obtain u where u: "walk huffman_tree (replicate k True) = Some u"
    and "walk u (replicate (30 - k) True) = Some (L 256)"
    by (auto simp: walk_append split: option.splits)
  with assms show thesis using that walk_L [of _ "replicate (30 - k) True"] by (cases u) auto
qed

lemma ones_inside:
  assumes "walk huffman_tree p = Some (N a b)" and "p = replicate k True"
  shows "k < 30"
proof (rule ccontr)
  assume "\<not> k < 30"
  then have "p = code_bits 256 @ replicate (k - 30) True"
    by (simp add: assms(2) eos_bits flip: replicate_add)
  with code_not_in_path [OF _ assms(1), of 256] show False by auto
qed

section \<open>The decoder accepts the padded encodings\<close>

text \<open>
  The invariant of the loop, with the path \<open>p\<close> from the root that the bits since the last
  symbol spell.
\<close>

definition dec_inv :: "decode_state \<Rightarrow> bool list \<Rightarrow> bool" where
  "dec_inv s p \<longleftrightarrow>
     (case s of (index, all_ones, out) \<Rightarrow>
        (\<exists>a b. walk huffman_tree p = Some (N a b) \<and> node_at index (N a b)) \<and>
        all_ones = (if p = [] then None else Some (list_all id p)))"

lemma dec_inv_start: "dec_inv (0, None, out) []"
proof -
  obtain a b where "huffman_tree = N a b" by (rule root_is_node)
  then show ?thesis using node_at_root by (metis (mono_tags, lifting) dec_inv_def case_prodI walk.simps(1))
qed

lemma tree_indices_leaf: "node_at i (L v) \<Longrightarrow> tree_indices i = Some (0, v)"
  by (simp add: tree_indices_def node_at_less node_at_leaf leaf_def)

lemma tree_indices_branch:
  "node_at i (N a b) \<Longrightarrow> tree_indices i = Some (i + 1, i + 1 + node_count a)"
  by (simp add: tree_indices_def node_at_less node_at_branch branch_def)

text \<open>One bit: the path grows, or it ends in a symbol, or in the end-of-string symbol.\<close>

lemma decode_bit_step:
  assumes "dec_inv (i, ones, out) p"
  obtains (inside) i' ones' where "decode_bit (i, ones, out) c = (Ok (), (i', ones', out))"
      and "dec_inv (i', ones', out) (p @ [c])"
    | (symbol) v where "decode_bit (i, ones, out) c = (Ok (), (0, None, out @ [of_nat v]))"
      and "v < 256" and "p @ [c] = code_bits v"
    | (eos) s' where "decode_bit (i, ones, out) c = (Err FoundEOS, s')" and "p @ [c] = code_bits 256"
proof -
  from assms obtain a b where w: "walk huffman_tree p = Some (N a b)" and n: "node_at i (N a b)"
    and o: "ones = (if p = [] then None else Some (list_all id p))"
    by (auto simp: dec_inv_def)
  let ?i = "if c then i + 1 + node_count a else i + 1" and ?t = "if c then b else a"
  let ?o = "if c then if ones = None then Some True else ones else Some False"
  have n': "node_at ?i ?t" using node_at_branch [OF n] by simp
  have w': "walk huffman_tree (p @ [c]) = Some ?t" using w by (simp add: walk_append)
  have o': "?o = Some (list_all id (p @ [c]))" using o by (cases p) auto
  show thesis
  proof (cases ?t)
    case (L v)
    with n' have "tree_indices ?i = Some (0, v)" by (simp only: tree_indices_leaf)
    moreover from L w' have v: "v < 257" and p: "p @ [c] = code_bits v" by (simp_all add: walk_leaf)
    moreover have "v = 256 \<or> v < 256" using v by auto
    ultimately show thesis
      using tree_indices_branch [OF n] symbol [of v] eos
      by (cases "v = 256"; cases c) (auto simp: decode_bit_def Let_def)
  next
    case (N x y)
    with n' have "tree_indices ?i = Some (?i + 1, ?i + 1 + node_count x)"
      by (simp only: tree_indices_branch)
    moreover have "dec_inv (?i, ?o, out) (p @ [c])"
      using w' n' o' N by (simp only: dec_inv_def) simp
    ultimately show thesis
      using tree_indices_branch [OF n] inside [of ?i ?o]
      by (cases c) (simp_all add: decode_bit_def Let_def)
  qed
qed

text \<open>All bits: they read as symbols and an inner path, or as symbols up to the end of string.\<close>

lemma decode_run:
  assumes "dec_inv (i, ones, out) p"
  shows "(\<exists>syms q i' ones'. for_each decode_bit (i, ones, out) bits
              = (Ok (), (i', ones', out @ map of_nat syms)) \<and>
            p @ bits = enc syms @ q \<and> set syms \<subseteq> {..<256} \<and>
            dec_inv (i', ones', out @ map of_nat syms) q) \<or>
         (\<exists>syms rest s'. for_each decode_bit (i, ones, out) bits = (Err FoundEOS, s') \<and>
            p @ bits = enc syms @ code_bits 256 @ rest \<and> set syms \<subseteq> {..<256})"
    (is "?ok i ones out p bits \<or> ?eos i ones out p bits")
  using assms
proof (induction bits arbitrary: i ones out p)
  case Nil
  have "for_each decode_bit (i, ones, out) [] = (Ok (), (i, ones, out @ map of_nat []))"
    and "p @ [] = enc [] @ p" by simp_all
  with Nil have "?ok i ones out p []" by (metis append_Nil2 empty_subsetI list.map(1) list.set(1))
  then show ?case ..
next
  case (Cons c bits)
  from Cons.prems show ?case
  proof (cases rule: decode_bit_step [where c = c])
    case (inside i' ones')
    with Cons.IH [OF inside(2)] show ?thesis by simp
  next
    case (symbol v)
    from Cons.IH [OF dec_inv_start] show ?thesis
    proof
      assume "?ok 0 None (out @ [of_nat v]) [] bits"
      then obtain syms q i' ones' where
        "for_each decode_bit (0, None, out @ [of_nat v]) bits
           = (Ok (), (i', ones', (out @ [of_nat v]) @ map of_nat syms))"
        "bits = enc syms @ q" "set syms \<subseteq> {..<256}"
        "dec_inv (i', ones', (out @ [of_nat v]) @ map of_nat syms) q" by auto
      moreover have "p @ c # bits = (p @ [c]) @ bits" by simp
      ultimately have "?ok i ones out p (c # bits)"
        using symbol by (intro exI [of _ "v # syms"] exI [of _ q] exI [of _ i'] exI [of _ ones']) simp
      then show ?thesis ..
    next
      assume "?eos 0 None (out @ [of_nat v]) [] bits"
      then obtain syms rest s' where
        "for_each decode_bit (0, None, out @ [of_nat v]) bits = (Err FoundEOS, s')"
        "bits = enc syms @ code_bits 256 @ rest" "set syms \<subseteq> {..<256}" by auto
      moreover have "p @ c # bits = (p @ [c]) @ bits" by simp
      ultimately have "?eos i ones out p (c # bits)"
        using symbol by (intro exI [of _ "v # syms"] exI [of _ rest] exI [of _ s']) simp
      then show ?thesis ..
    qed
  next
    case (eos s')
    moreover have "p @ c # bits = (p @ [c]) @ bits" by simp
    ultimately have "?eos i ones out p (c # bits)"
      by (intro exI [of _ "[]"] exI [of _ bits] exI [of _ s']) simp
    then show ?thesis ..
  qed
qed

lemma map_of_nat_unat:
  "set syms \<subseteq> {..<256} \<Longrightarrow> map unat (map of_nat syms :: bytes) = syms"
  by (induction syms) (auto simp: unat_of_nat)

lemma set_map_unat: "set (map unat (xs :: bytes)) \<subseteq> {..<256}"
  using unat_u8_less by auto

lemma set_map_unat': "set (map unat (xs :: bytes)) \<subseteq> {..<257}"
  using set_map_unat [of xs] by force

lemma ones_replicate: "list_all id p \<longleftrightarrow> p = replicate (length p) True"
  by (induction p) auto

text \<open>The three outcomes of the decoder.\<close>

lemma decode_bytes_cases:
  obtains (ok) out k where "decode_bytes data = (Ok (), out)" and "k < 30"
      and "bytes_bits data = encoding out @ replicate k True"
  | (incomplete) out p a b where "decode_bytes data = (Err IncompleteData, out)"
      and "walk huffman_tree p = Some (N a b)" and "\<not> list_all id p"
      and "bytes_bits data = encoding out @ p"
  | (eos) out syms rest where "decode_bytes data = (Err FoundEOS, out)"
      and "bytes_bits data = enc syms @ code_bits 256 @ rest" and "set syms \<subseteq> {..<256}"
proof -
  have loop: "for_each (\<lambda>s v. for_each decode_bit s (byte_bits v)) (0, None, []) data =
      for_each decode_bit (0, None, []) (bytes_bits data)"
    by (simp add: for_each_concat bytes_bits_def)
  from decode_run [OF dec_inv_start, of "[]" "bytes_bits data"] show thesis
  proof
    assume "\<exists>syms q i' ones'. for_each decode_bit (0, None, []) (bytes_bits data)
              = (Ok (), (i', ones', [] @ map of_nat syms)) \<and>
            [] @ bytes_bits data = enc syms @ q \<and> set syms \<subseteq> {..<256} \<and>
            dec_inv (i', ones', [] @ map of_nat syms) q"
    then obtain syms q i ones where
      r: "for_each decode_bit (0, None, []) (bytes_bits data) = (Ok (), (i, ones, map of_nat syms))"
      and b: "bytes_bits data = enc syms @ q" and s: "set syms \<subseteq> {..<256}"
      and d: "dec_inv (i, ones, map of_nat syms) q" by auto
    from d obtain x y where w: "walk huffman_tree q = Some (N x y)"
      and o: "ones = (if q = [] then None else Some (list_all id q))" by (auto simp: dec_inv_def)
    have e: "bytes_bits data = encoding (map of_nat syms) @ q"
      using b map_of_nat_unat [OF s] by (simp add: encoding_def)
    show thesis
    proof (cases "list_all id q")
      case True
      with o loop r have "decode_bytes data = (Ok (), map of_nat syms)"
        by (auto simp: decode_bytes_def)
      moreover have "q = replicate (length q) True" using True ones_replicate by simp
      moreover from this have "length q < 30" by (rule ones_inside [OF w])
      ultimately show thesis using ok e by metis
    next
      case False
      with o loop r have "decode_bytes data = (Err IncompleteData, map of_nat syms)"
        by (auto simp: decode_bytes_def)
      then show thesis using incomplete w False e by blast
    qed
  next
    assume "\<exists>syms rest s'. for_each decode_bit (0, None, []) (bytes_bits data) = (Err FoundEOS, s') \<and>
            [] @ bytes_bits data = enc syms @ code_bits 256 @ rest \<and> set syms \<subseteq> {..<256}"
    then obtain syms rest i ones out where
      "for_each decode_bit (0, None, []) (bytes_bits data) = (Err FoundEOS, (i, ones, out))"
      and "bytes_bits data = enc syms @ code_bits 256 @ rest" and "set syms \<subseteq> {..<256}" by auto
    moreover from this(1) loop have "decode_bytes data = (Err FoundEOS, out)"
      by (simp add: decode_bytes_def)
    ultimately show thesis using eos by blast
  qed
qed

text \<open>Padded encodings are read back, whatever the padding below thirty ones.\<close>

lemma decode_bytes_padded:
  assumes "bytes_bits data = encoding xs @ replicate k True" and "k < 30"
  shows "decode_bytes data = (Ok (), xs)"
proof -
  obtain a b where w: "walk huffman_tree (replicate k True) = Some (N a b)"
    using walk_ones [OF assms(2)] .
  have le: "set (map unat xs) \<subseteq> {..<256}" by (rule set_map_unat)
  have injo: "xs = out" if "map unat out = map unat xs" for out :: bytes
    using that by (metis inj_map_eq_map injI unsigned_word_eqI)
  show ?thesis
  proof (cases rule: decode_bytes_cases [of data])
    case (ok out k')
    obtain c d where w': "walk huffman_tree (replicate k' True) = Some (N c d)"
      using walk_ones [OF ok(2)] .
    have "enc (map unat out) @ replicate k' True = enc (map unat xs) @ replicate k True"
      using ok(3) assms(1) by (simp add: encoding_def)
    then have "prefix (map unat out) (map unat xs)" "prefix (map unat xs) (map unat out)"
      using enc_prefix [OF _ w] enc_prefix [OF sym w'] set_map_unat' by (meson Un_least)+
    then have "map unat out = map unat xs" by (rule prefix_order.antisym)
    with ok(1) injo show ?thesis by simp
  next
    case (incomplete out p c d)
    have e: "enc (map unat out) @ p = enc (map unat xs) @ replicate k True"
      using incomplete(4) assms(1) by (simp add: encoding_def)
    then have "prefix (map unat out) (map unat xs)" "prefix (map unat xs) (map unat out)"
      using enc_prefix [OF _ w] enc_prefix [OF sym incomplete(2)] set_map_unat' by (meson Un_least)+
    then have "map unat out = map unat xs" by (rule prefix_order.antisym)
    with e have "p = replicate k True" by simp
    with incomplete(3) show ?thesis by (simp add: list_all_iff)
  next
    case (eos out syms rest)
    then have "enc (syms @ [256]) @ rest = enc (map unat xs) @ replicate k True"
      using assms(1) by (simp add: encoding_def)
    moreover have "set (syms @ [256]) \<subseteq> {..<257}" using eos(3) by force
    then have "set (syms @ [256]) \<union> set (map unat xs) \<subseteq> {..<257}"
      using set_map_unat' [of xs] by (rule Un_least)
    ultimately have "prefix (syms @ [256]) (map unat xs)" by (rule enc_prefix [OF _ w])
    then have "256 \<in> set (map unat xs)" by (auto dest: set_mono_prefix)
    with le show ?thesis by auto
  qed
qed

lemma decode_bytes_iff:
  "decode_bytes data = (Ok (), out) \<longleftrightarrow>
     (\<exists>k<30. bytes_bits data = encoding out @ replicate k True)"
proof
  assume "decode_bytes data = (Ok (), out)"
  then show "\<exists>k<30. bytes_bits data = encoding out @ replicate k True"
    by (cases rule: decode_bytes_cases [of data]) auto
qed (auto simp: decode_bytes_padded)

lemma decode_bytes_total: "fst (decode_bytes data) \<in> {Ok (), Err IncompleteData, Err FoundEOS}"
  by (cases rule: decode_bytes_cases [of data]) auto

lemma decode_encode: "encode_bytes data = Some out \<Longrightarrow> decode_bytes out = (Ok (), data)"
proof -
  assume "encode_bytes data = Some out"
  moreover obtain out' k where "encode_bytes data = Some out'"
    and "bytes_bits out' = encoding data @ replicate k True" and "k < 8" by (rule encode_bytes_spec)
  ultimately show ?thesis by (intro decode_bytes_padded) auto
qed

end
