(* ===== verification/Literal.thy ===== *)
theory Literal
  imports Huffman Bio
begin

text \<open>
  \<open>http/src/http2/hpack/literal.rs\<close>: the integers and strings of HPACK (RFC 7541 section 5).

  \<open>int_wire\<close> and \<open>string_wire\<close> are the formats of the RFC. The lemmas: \<open>write_integer\<close> emits
  \<open>int_wire\<close> and \<open>parse_integer\<close> reads it back for every 64-bit value and every prefix below
  eight bits (\<open>parse_int_wire\<close>); an integer that is read lies inside the data
  (\<open>parse_integer_bounds\<close>); \<open>parse_string\<close> reads both forms of \<open>string_wire\<close>. What
  \<open>write_string\<close> writes is not \<open>string_wire\<close> (\<open>write_string_not_read\<close>), since it passes a
  prefix of one bit instead of seven; and \<open>parse_integer\<close> overflows on long inputs.
\<close>

section \<open>Integers\<close>

definition int_mask :: "nat \<Rightarrow> u8" where
  "int_mask bits = push_bit bits 1 - 1"

definition data_get :: "bytes \<Rightarrow> nat \<Rightarrow> u8 option" where
  "data_get data i = (if i < length data then Some (data ! i) else None)"

text \<open>
  The loop of \<open>parse_integer\<close>. The shift drops bits beyond 64; the addition panics when it
  overflows.
\<close>

function parse_loop :: "bytes \<Rightarrow> nat \<Rightarrow> nat \<Rightarrow> u64 \<Rightarrow> (decode_error, u64 \<times> nat) rs" where
  "parse_loop data m offset output =
     (if m < 64
      then (case data_get data offset of
              None \<Rightarrow> Err TooSmall
            | Some byte \<Rightarrow>
                let add = push_bit m (ucast (byte AND 0x7F)) in
                if unat output + unat add \<ge> 2 ^ 64 then Panic
                else if byte AND 0x80 = 0 then Ok (output + add, offset + 1)
                else parse_loop data (m + 7) (offset + 1) (output + add))
      else Err Overflow)"
  by pat_completeness auto
termination
  by (relation "measure (\<lambda>(data, m, offset, output). 64 - m)") auto

declare parse_loop.simps [simp del]

text \<open>The shift \<open>1 << bits\<close> is in \<open>u8\<close> and panics from eight bits on.\<close>

definition parse_integer :: "nat \<Rightarrow> bytes \<Rightarrow> (decode_error, u64 \<times> nat) rs" where
  "parse_integer bits data =
     (case data_get data 0 of
        None \<Rightarrow> Err TooSmall
      | Some first_byte \<Rightarrow>
          if bits \<ge> 8 then Panic
          else (let mask = int_mask bits; first = first_byte AND mask; output = ucast first
                in if first < mask then Ok (output, 1) else parse_loop data 0 1 output))"

function write_int_loop :: "'w writer_fn \<Rightarrow> u64 \<Rightarrow> nat \<Rightarrow> 'w \<Rightarrow> (io_error, nat) rs \<times> 'w" where
  "write_int_loop wr value len w =
     (if value \<ge> 128
      then and_then (write_all wr w [ucast (value AND 0x7F) OR 0x80]) (\<lambda>_ w.
             write_int_loop wr (drop_bit 7 value) (len + 1) w)
      else map_ok (\<lambda>_. len + 1) (write_all wr w [ucast (value AND 0x7F)]))"
  by pat_completeness auto
termination
proof (relation "measure (\<lambda>(wr, value, len, w). unat value)", goal_cases)
  case (2 wr v len w a s)
  then have "128 \<le> unat v" by (simp add: word_le_nat_alt)
  then show ?case by (simp add: drop_bit_eq_div unat_div)
qed simp

declare write_int_loop.simps [simp del]

definition write_integer ::
  "'w writer_fn \<Rightarrow> u8 \<Rightarrow> nat \<Rightarrow> u64 \<Rightarrow> 'w \<Rightarrow> (io_error, nat) rs \<times> 'w" where
  "write_integer wr pfx bits value w =
     (if bits \<ge> 8 then (Panic, w)
      else (let mask = int_mask bits
            in if value < ucast mask
               then map_ok (\<lambda>_. 1) (write_all wr w [push_bit bits pfx OR (ucast value AND mask)])
               else and_then (write_all wr w [push_bit bits pfx OR mask]) (\<lambda>_ w.
                      write_int_loop wr (value - ucast mask) 1 w)))"

section \<open>Strings\<close>

text \<open>
  \<open>data.get(parsed..parsed + len)\<close>: the sum panics when it overflows, a range that ends
  beyond the data is \<open>None\<close>.
\<close>

definition parse_string :: "bytes \<Rightarrow> bytes \<Rightarrow> (decode_error, nat) rs \<times> bytes" where
  "parse_string data out =
     (case parse_integer 7 data of
        Panic \<Rightarrow> (Panic, out)
      | Err e \<Rightarrow> (Err e, out)
      | Ok (v, parsed) \<Rightarrow>
          (let len = unat v in
           if parsed + len \<ge> usize_lim then (Panic, out)
           else if parsed + len > length data then (Err TooSmall, out)
           else (let d = take len (drop parsed data)
                 in if data ! 0 AND 0x80 = 0x80
                    then map_ok (\<lambda>_. parsed + len) (decode_bytes d)
                    else (Ok (parsed + len), d))))"

definition write_string :: "'w writer_fn \<Rightarrow> bytes \<Rightarrow> 'w \<Rightarrow> (io_error, nat) rs \<times> 'w" where
  "write_string wr s w =
     (case get_size s of
        None \<Rightarrow> (Panic, w)
      | Some sz \<Rightarrow>
          if sz < length s
          then and_then (write_integer wr 0x1 1 (of_nat sz) w) (\<lambda>i w.
                 case encode_bytes s of
                   None \<Rightarrow> (Panic, w)
                 | Some buffer \<Rightarrow> map_ok (\<lambda>_. i + sz) (write_all wr w buffer))
          else and_then (write_integer wr 0x0 1 (of_nat (length s)) w) (\<lambda>i w.
                 map_ok (\<lambda>_. i + length s) (write_all wr w s)))"

section \<open>The wire format of integers\<close>

function groups :: "nat \<Rightarrow> bytes" where
  "groups n = (if n \<ge> 128 then of_nat (n mod 128 + 128) # groups (n div 128) else [of_nat n])"
  by pat_completeness auto
termination by (relation "measure id") auto

declare groups.simps [simp del]

definition int_wire :: "u8 \<Rightarrow> nat \<Rightarrow> nat \<Rightarrow> bytes" where
  "int_wire pfx bits n =
     (if n < 2 ^ bits - 1 then [push_bit bits pfx OR of_nat n]
      else (push_bit bits pfx OR int_mask bits) # groups (n - (2 ^ bits - 1)))"

lemma groups_ne [simp]: "groups n \<noteq> []"
  by (simp add: groups.simps [of n])

lemma int_mask_eq: "int_mask bits = mask bits"
  by (simp add: int_mask_def mask_eq_exp_minus_1 push_bit_of_1)

lemma unat_int_mask: "bits < 8 \<Longrightarrow> unat (int_mask bits) = 2 ^ bits - 1"
proof -
  assume "bits < 8"
  then have "bits \<in> {0, 1, 2, 3, 4, 5, 6, 7}" by auto
  then show ?thesis by (auto simp: int_mask_def)
qed

lemma u8_low: "unat ((x :: u8) AND 0x7F) = unat x mod 128"
proof -
  have "(0x7F :: u8) = mask 7" by (simp add: mask_eq_decr_exp)
  then show ?thesis by (simp only: flip: take_bit_eq_mask) (simp add: take_bit_eq_mod unat_mod)
qed

lemma u8_top: "(x :: u8) AND 0x80 = 0 \<longleftrightarrow> unat x < 128"
proof -
  have "(x AND 0x80 = 0) = (\<not> bit x 7)"
    using bit_iff_and_push_bit_not_eq_0 [of x 7] by (simp add: push_bit_of_1)
  also have "bit x 7 = odd (unat x div 128)" 
    using bit_iff_odd [of "unat x" 7] by (simp add: bit_unsigned_iff)
  also have "odd (unat x div 128) \<longleftrightarrow> 128 \<le> unat x"
  proof -
    have "unat x div 128 = 0 \<or> unat x div 128 = 1" using unat_u8_less [of x] by arith
    then show ?thesis by (auto simp: div_eq_0_iff)
  qed
  finally show ?thesis by auto
qed

lemma u8_cont: "n < 128 \<Longrightarrow> unat (of_nat (n + 128) :: u8) = n + 128"
  by (subst unat_of_nat) simp

lemma unat_shift:
  assumes "unat (x :: u8) * 2 ^ m < 2 ^ 64"
  shows "unat (push_bit m (ucast x) :: u64) = unat x * 2 ^ m"
proof -
  have "unat (ucast x :: u64) = unat x"
    using unat_u8_less [of x] by (simp add: unsigned_ucast_eq take_bit_nat_eq_self)
  then show ?thesis
    using assms
    by (simp only: unsigned_push_bit_eq) (simp add: push_bit_eq_mult take_bit_nat_eq_self)
qed

lemma eq_of_nat: "unat w = k \<Longrightarrow> w = of_nat k"
  by auto

text \<open>Reading the groups of a number that fits adds it, shifted, to the output.\<close>

lemma parse_loop_groups:
  assumes "\<And>i. i < length (groups n) \<Longrightarrow> data_get data (offset + i) = Some (groups n ! i)"
    and "unat out + n * 2 ^ m < 2 ^ 64" and "m < 64"
  shows "parse_loop data m offset out =
    Ok (of_nat (unat out + n * 2 ^ m), offset + length (groups n))"
  using assms
proof (induction n arbitrary: m offset out rule: groups.induct)
  case (1 n)
  show ?case
  proof (cases "128 \<le> n")
    case False
    then have g: "groups n = [of_nat n]" by (simp add: groups.simps [of n])
    let ?b = "of_nat n :: u8"
    have b: "data_get data offset = Some ?b" using "1.prems"(1) [of 0] by (simp add: g)
    have u: "unat ?b = n" using False by (simp add: unat_of_nat)
    then have low: "?b AND 0x7F = ?b" using False u8_low [of ?b] by (simp add: word_unat_eq_iff)
    have add: "unat (push_bit m (ucast ?b) :: u64) = n * 2 ^ m"
      using unat_shift [of ?b m] u "1.prems"(2) by simp
    have sm: "out + push_bit m (ucast ?b) = of_nat (unat out + n * 2 ^ m)"
      using "1.prems"(2) by (intro eq_of_nat) (simp add: unat_word_ariths add)
    have "?b AND 0x80 = 0" using False u by (simp add: u8_top)
    then have "parse_loop data m offset out = Ok (out + push_bit m (ucast ?b), offset + 1)"
      using "1.prems"(2,3) by (simp add: parse_loop.simps [of data m] b low add Let_def)
    then show ?thesis unfolding sm by (simp add: g)
  next
    case True
    then have g: "groups n = of_nat (n mod 128 + 128) # groups (n div 128)"
      by (simp add: groups.simps [of n])
    define c :: u8 where "c = of_nat (n mod 128 + 128)"
    have b: "data_get data offset = Some c" using "1.prems"(1) [of 0] by (simp add: g c_def)
    have u: "unat c = n mod 128 + 128" unfolding c_def by (rule u8_cont) simp
    have low: "unat (c AND 0x7F) = n mod 128" by (simp add: u8_low u)
    have split: "n * 2 ^ m = (n mod 128) * 2 ^ m + (n div 128) * 2 ^ (m + 7)"
      by (simp add: power_add algebra_simps flip: distrib_right) (metis mod_mult_div_eq mult.commute distrib_left)
    have add: "unat (push_bit m (ucast (c AND 0x7F)) :: u64) = (n mod 128) * 2 ^ m"
      using unat_shift [of "c AND 0x7F" m] low "1.prems"(2) split by simp
    let ?o = "out + push_bit m (ucast (c AND 0x7F))"
    have o: "unat ?o = unat out + (n mod 128) * 2 ^ m"
      using "1.prems"(2) split by (simp add: unat_word_ariths add)
    have m: "m + 7 < 64"
    proof (rule ccontr)
      assume "\<not> m + 7 < 64"
      then have "(2 :: nat) ^ 64 \<le> 1 * 2 ^ (m + 7)" by (simp only: mult_1) (rule power_increasing; simp)
      also have "\<dots> \<le> (n div 128) * 2 ^ (m + 7)" using True by (intro mult_le_mono1) simp
      finally show False using "1.prems"(2) split by linarith
    qed
    have "parse_loop data (m + 7) (offset + 1) ?o =
        Ok (of_nat (unat ?o + (n div 128) * 2 ^ (m + 7)), offset + 1 + length (groups (n div 128)))"
    proof (rule "1.IH" [OF True _ _ m])
      show "data_get data (offset + 1 + i) = Some (groups (n div 128) ! i)"
        if "i < length (groups (n div 128))" for i
        using "1.prems"(1) [of "Suc i"] that by (simp add: g)
      show "unat ?o + (n div 128) * 2 ^ (m + 7) < 2 ^ 64" using "1.prems"(2) split o by simp
    qed
    moreover have "c AND 0x80 \<noteq> 0" by (simp add: u8_top u)
    moreover have "unat ?o + (n div 128) * 2 ^ (m + 7) = unat out + n * 2 ^ m" using o split by simp
    ultimately show ?thesis
      using "1.prems"(2,3) split
      by (simp add: parse_loop.simps [of data m] b add g Let_def)
  qed
qed

text \<open>The first byte: the value, or the full mask, under the prefix.\<close>

lemma of_nat_and_mask: "n < 2 ^ bits \<Longrightarrow> (of_nat n :: u8) AND int_mask bits = of_nat n"
  by (simp add: int_mask_eq take_bit_of_nat take_bit_nat_eq_self flip: take_bit_eq_mask)

lemma first_byte_value:
  assumes "n < 2 ^ bits" and "bits < 8"
  shows "unat ((push_bit bits pfx OR of_nat n :: u8) AND int_mask bits) = n"
proof -
  have "n < 2 ^ 8" using assms(1) power_strict_increasing [OF assms(2), of "2 :: nat"] by simp
  have "(push_bit bits pfx OR of_nat n :: u8) AND int_mask bits = of_nat n AND int_mask bits"
    by (rule bit_word_eqI) (auto simp: int_mask_eq bit_simps)
  also have "\<dots> = of_nat n" using assms(1) by (rule of_nat_and_mask)
  finally show ?thesis using \<open>n < 2 ^ 8\<close> by (simp add: unat_of_nat)
qed

lemma first_byte_mask:
  "(push_bit bits pfx OR int_mask bits :: u8) AND int_mask bits = int_mask bits"
  by (rule bit_word_eqI) (auto simp: int_mask_eq bit_simps)

lemma ucast_mask: "bits < 8 \<Longrightarrow> unat (ucast (int_mask bits) :: u64) = 2 ^ bits - 1"
  using unat_int_mask [of bits] unat_u8_less [of "int_mask bits"]
  by (simp add: unsigned_ucast_eq take_bit_nat_eq_self)

lemma ucast_u8_less: "n < 256 \<Longrightarrow> unat x = n \<Longrightarrow> ucast (x :: u8) = (of_nat n :: u64)"
  by (intro eq_of_nat) (simp add: unsigned_ucast_eq take_bit_nat_eq_self)

lemma two_pow_le: "bits < 8 \<Longrightarrow> (2 :: nat) ^ bits \<le> 128"
  using power_increasing [of bits 7 "2 :: nat"] by simp

text \<open>Every value is read back from its format, whatever follows.\<close>

theorem parse_int_wire:
  assumes "bits < 8" and "n < 2 ^ 64"
  shows "parse_integer bits (int_wire pfx bits n @ rest) =
    Ok (of_nat n, length (int_wire pfx bits n))"
proof (cases "n < 2 ^ bits - 1")
  case True
  let ?b = "push_bit bits pfx OR of_nat n :: u8"
  have v: "unat (?b AND int_mask bits) = n" using True assms(1) by (intro first_byte_value) simp_all
  then have "?b AND int_mask bits < int_mask bits"
    using True unat_int_mask [OF assms(1)] by (simp add: word_less_nat_alt)
  moreover have "ucast (?b AND int_mask bits) = (of_nat n :: u64)"
    using True two_pow_le [OF assms(1)] v by (intro ucast_u8_less) simp_all
  ultimately show ?thesis
    using True assms(1) by (simp add: parse_integer_def int_wire_def data_get_def Let_def)
next
  case False
  let ?m = "2 ^ bits - 1 :: nat" and ?g = "groups (n - (2 ^ bits - 1))"
  let ?data = "(push_bit bits pfx OR int_mask bits) # ?g @ rest"
  have "parse_loop ?data 0 1 (ucast (int_mask bits)) =
      Ok (of_nat (unat (ucast (int_mask bits) :: u64) + (n - ?m) * 2 ^ 0), 1 + length ?g)"
    using assms False by (intro parse_loop_groups) (auto simp: data_get_def nth_append ucast_mask)
  moreover have "?m + (n - ?m) = n" using False by simp
  ultimately show ?thesis
    using False assms(1)
    by (simp add: parse_integer_def int_wire_def data_get_def Let_def first_byte_mask ucast_mask)
qed

text \<open>An integer that was read ends inside the data.\<close>

lemma parse_loop_bounds:
  "parse_loop data m offset out = Ok (v, k) \<Longrightarrow> offset < k \<and> k \<le> length data"
proof (induction data m offset out rule: parse_loop.induct)
  case (1 data m offset out)
  then show ?case
    by (subst (asm) parse_loop.simps)
      (fastforce simp: Let_def data_get_def split: if_splits)
qed

lemma parse_integer_bounds:
  "parse_integer bits data = Ok (v, k) \<Longrightarrow> 0 < k \<and> k \<le> length data"
  by (auto simp: parse_integer_def data_get_def Let_def Suc_le_eq dest: parse_loop_bounds
      split: if_splits)

section \<open>What \<open>write_integer\<close> emits\<close>

context byte_sink
begin

lemma write_int_loop_emits:
  "emits sent (write_int_loop wr v len) (groups (unat v)) (len + length (groups (unat v)))"
proof (induction "unat v" arbitrary: v len rule: less_induct)
  case less
  show ?case
  proof (cases "128 \<le> v")
    case False
    then have n: "\<not> 128 \<le> unat v" by (simp add: word_le_nat_alt)
    then have "ucast (v AND 0x7F) = (of_nat (unat v) :: u8)"
      using mask_small [of v 7] by (simp add: word_less_nat_alt mask_eq_decr_exp)
    with False n show ?thesis
      unfolding write_int_loop.simps [of wr v, abs_def] groups.simps [of "unat v"]
      by simp (rule step_rules refl | simp)+
  next
    case True
    then have n: "128 \<le> unat v" by (simp add: word_le_nat_alt)
    let ?d = "drop_bit 7 v"
    have d: "unat ?d = unat v div 128" by (simp add: drop_bit_eq_div unat_div)
    with n have lt: "unat ?d < unat v" by simp
    have "ucast (v AND 0x7F) OR 0x80 = (of_nat (unat v mod 128 + 128) :: u8)"
    proof -
      have "v AND 0x7F = take_bit 7 v" by (simp add: take_bit_eq_mask mask_eq_decr_exp)
      then have "unat (v AND 0x7F) = unat v mod 128" by (simp add: take_bit_eq_mod unat_mod)
      then have u: "ucast (v AND 0x7F) = (of_nat (unat v mod 128) :: u8)"
        by (metis of_nat_unat)
      have "(of_nat k :: u8) AND 0x80 = 0" if "k < 128" for k
        using that by (simp add: u8_top unat_of_nat)
      then have "(of_nat (unat v mod 128) :: u8) OR 0x80 = of_nat (unat v mod 128) + 0x80"
        by (simp add: disjunctive_add_eq_or)
      with u show ?thesis by simp
    qed
    then have "emits sent (\<lambda>w. write_all wr w [ucast (v AND 0x7F) OR 0x80])
        [of_nat (unat v mod 128 + 128)] ()" by (simp only: write_all_emits)
    from emits_bind [where k = "\<lambda>_. write_int_loop wr ?d (len + 1)", OF this less.hyps [OF lt] refl]
      True n show ?thesis
      unfolding write_int_loop.simps [of wr v, abs_def] groups.simps [of "unat v"]
      by (simp add: d)
  qed
qed

lemma write_integer_emits:
  assumes "bits < 8"
  shows "emits sent (write_integer wr pfx bits v) (int_wire pfx bits (unat v))
    (length (int_wire pfx bits (unat v)))"
proof -
  have m: "v < ucast (int_mask bits) \<longleftrightarrow> unat v < 2 ^ bits - 1"
    using ucast_mask [OF assms] by (simp add: word_less_nat_alt)
  show ?thesis
  proof (cases "unat v < 2 ^ bits - 1")
    case True
    then have "ucast v AND int_mask bits = (ucast v :: u8)"
      using of_nat_and_mask [of "unat v" bits] by simp
    with True assms m show ?thesis
      unfolding write_integer_def int_wire_def Let_def by simp (rule step_rules refl | simp)+
  next
    case False
    then have "unat (v - ucast (int_mask bits)) = unat v - (2 ^ bits - 1)"
      using ucast_mask [OF assms] m by (subst unat_sub) simp_all
    with False assms m show ?thesis
      unfolding write_integer_def int_wire_def Let_def
      using emits_bind [where k = "\<lambda>_. write_int_loop wr (v - ucast (int_mask bits)) 1",
          OF write_all_emits [of "[push_bit bits pfx OR int_mask bits]"] write_int_loop_emits refl]
      by simp
  qed
qed

end

section \<open>Strings\<close>

text \<open>The two forms of a string in RFC 7541: plain, and Huffman coded with the top bit set.\<close>

definition string_wire :: "bool \<Rightarrow> bytes \<Rightarrow> bytes" where
  "string_wire huffman d = int_wire (if huffman then 1 else 0) 7 (length d) @ d"

lemma int_wire_top:
  "(int_wire (if h then 1 else 0) 7 n) ! 0 AND 0x80 = (if h then 0x80 else 0)"
proof -
  have "(of_nat n :: u8) AND 0x80 = 0" if "n < 127"
    using that by (simp add: u8_top unat_of_nat)
  then show ?thesis
    by (auto simp: int_wire_def int_mask_def bit.conj_disj_distrib2 push_bit_of_1)
qed

lemma int_wire_ne [simp]: "int_wire p b n \<noteq> []"
  by (simp add: int_wire_def)

lemma length_groups: "n < 128 ^ Suc k \<Longrightarrow> length (groups n) \<le> Suc k"
proof (induction k arbitrary: n)
  case 0
  then show ?case by (simp add: groups.simps [of n])
next
  case (Suc k)
  then have "n div 128 < 128 ^ Suc k" by (simp add: less_mult_imp_div_less mult.commute)
  with Suc.IH [of "n div 128"] show ?case by (simp add: groups.simps [of n])
qed

lemma length_int_wire: "n < 2 ^ 64 \<Longrightarrow> length (int_wire p b n) \<le> 11"
  using length_groups [of "n - (2 ^ b - 1)" 9] by (simp add: int_wire_def)

lemma parse_string_wire:
  assumes "length d < 2 ^ 63"
  shows "parse_string (string_wire h d @ rest) out =
    (if h then map_ok (\<lambda>_. length (string_wire h d)) (decode_bytes d)
     else (Ok (length (string_wire h d)), d))"
proof -
  let ?i = "int_wire (if h then 1 else 0) 7 (length d)"
  have p: "parse_integer 7 (?i @ (d @ rest)) = Ok (of_nat (length d), length ?i)"
    using assms by (intro parse_int_wire) simp_all
  have u: "unat (of_nat (length d) :: u64) = length d" using assms by (simp add: unat_of_nat)
  have l: "length ?i + length d < usize_lim"
    using assms length_int_wire [of "length d" "if h then 1 else 0" 7] by (simp add: usize_lim_def)
  have "(?i @ d @ rest) ! 0 AND 0x80 = (if h then 0x80 else 0)"
    using int_wire_top [of h "length d"] by (simp add: nth_append)
  with p u l show ?thesis
    by (simp add: parse_string_def string_wire_def Let_def)
qed

lemma parse_string_plain:
  assumes "length s < 2 ^ 63"
  shows "parse_string (string_wire False s @ rest) out = (Ok (length (string_wire False s)), s)"
  using parse_string_wire [OF assms] by simp

lemma parse_string_huffman:
  assumes "encode_bytes s = Some e" and "length e < 2 ^ 63"
  shows "parse_string (string_wire True e @ rest) out = (Ok (length (string_wire True e)), s)"
  using parse_string_wire [OF assms(2)] decode_encode [OF assms(1)] by simp

text \<open>So a string in either form is read back.\<close>

lemma string_read:
  assumes "encode_bytes s = Some e" and "length e < 2 ^ 63" and "length s < 2 ^ 63"
  shows "parse_string (string_wire True e @ rest) out = (Ok (length (string_wire True e)), s) \<and>
    parse_string (string_wire False s @ rest) out = (Ok (length (string_wire False s)), s)"
  using parse_string_huffman [OF assms(1,2)] parse_string_plain [OF assms(3)] by simp

text \<open>The top bits of an integer are those of the prefix.\<close>

lemma int_wire_bit:
  assumes "b \<le> k" and "k < 8"
  shows "bit (int_wire p b n ! 0) k \<longleftrightarrow> bit p (k - b)"
proof -
  have "\<not> bit (of_nat n :: u8) k" if "n < 2 ^ b - 1"
  proof -
    have "(2 :: nat) ^ b \<le> 2 ^ k" using assms(1) by (rule power_increasing) simp
    with that have "n < 2 ^ k" by linarith
    then have "(of_nat n :: u8) = take_bit k (of_nat n)"
      by (simp add: take_bit_of_nat take_bit_nat_eq_self)
    then show ?thesis by (metis bit_take_bit_iff less_irrefl)
  qed
  then show ?thesis
    using assms by (auto simp: int_wire_def int_mask_eq bit_simps)
qed

text \<open>A string that was read lies inside the data; the count is positive.\<close>

lemma parse_string_bounds:
  assumes "parse_string data out = (Ok n, out')"
  shows "0 < n" and "n \<le> length data"
proof -
  from assms obtain v k where "parse_integer 7 data = Ok (v, k)" and "n = k + unat v"
    and "k + unat v \<le> length data"
    by (auto simp: parse_string_def Let_def split: rs.splits if_splits prod.splits elim!: map_ok_OkE)
  with parse_integer_bounds [of 7 data v k] show "0 < n" and "n \<le> length data" by auto
qed

section \<open>Where the code departs from the format\<close>

text \<open>A long integer overflows the sum, and one bit beyond 64 is dropped without an error.\<close>

lemma parse_loop_step:
  "m < 64 \<Longrightarrow> offset < length data \<Longrightarrow> parse_loop data m offset out =
    (let byte = data ! offset; add = push_bit m (ucast (byte AND 0x7F)) in
     if unat out + unat add \<ge> 2 ^ 64 then Panic
     else if byte AND 0x80 = 0 then Ok (out + add, offset + 1)
     else parse_loop data (m + 7) (offset + 1) (out + add))"
  by (simp add: parse_loop.simps [of data m] data_get_def Let_def)

lemma parse_integer_panics:
  "parse_integer 7 [0x7F, 0xFF, 0xFF, 0xFF, 0xFF, 0xFF, 0xFF, 0xFF, 0xFF, 0xFF, 0x01] = Panic"
  by (simp add: parse_integer_def int_mask_def data_get_def Let_def parse_loop_step)

lemma parse_integer_drops:
  "parse_integer 7 [0x7F, 0x80, 0x80, 0x80, 0x80, 0x80, 0x80, 0x80, 0x80, 0x80, 0x02] = Ok (127, 11)"
  by (simp add: parse_integer_def int_mask_def data_get_def Let_def parse_loop_step)

lemma code_bits_ne: "v < 257 \<Longrightarrow> code_bits v \<noteq> []"
  using walk_code [of v] root_is_node by (metis htree.distinct(1) option.inject walk.simps(1))

lemma length_encoding: "length s \<le> length (encoding s)"
proof (induction s)
  case (Cons v s)
  have "code_bits (unat v) \<noteq> []" using unat_u8_less [of v] by (intro code_bits_ne) simp
  with Cons show ?case by (cases "code_bits (unat v)") (auto simp: encoding_def)
qed simp

lemma length_encoded:
  assumes "encode_bytes s = Some e"
  shows "8 * length e < length (encoding s) + 8" and "length (encoding s) \<le> 8 * length e"
proof -
  obtain e' k where "encode_bytes s = Some e'" and b: "bytes_bits e' = encoding s @ replicate k True"
    and "k < 8" by (rule encode_bytes_spec)
  with assms arg_cong [OF b, of length] show "8 * length e < length (encoding s) + 8"
    and "length (encoding s) \<le> 8 * length e" by auto
qed

context byte_sink
begin

text \<open>What \<open>write_string\<close> emits: the length with a prefix of one bit.\<close>

lemma write_string_emits:
  assumes "encode_bytes s = Some e" and "length (encoding s) < 2 ^ 32"
  shows "emits sent (write_string wr s)
    (if length e < length s then int_wire 1 1 (length e) @ e else int_wire 0 1 (length s) @ s)
    (if length e < length s then length (int_wire 1 1 (length e)) + length e
     else length (int_wire 0 1 (length s)) + length s)"
proof -
  have g: "get_size s = Some (length e)" by (rule get_size_spec [OF assms(2,1)])
  have u: "unat (of_nat (length e) :: u64) = length e" "unat (of_nat (length s) :: u64) = length s"
    using length_encoded(1) [OF assms(1)] length_encoding [of s] assms(2)
    by (simp_all add: unat_of_nat)
  have w: "emits sent (write_integer wr p 1 (of_nat n)) (int_wire p 1 n) (length (int_wire p 1 n))"
    if "unat (of_nat n :: u64) = n" for p n
    using write_integer_emits [of 1 p "of_nat n"] that by simp
  show ?thesis
    using emits_bind [OF w [OF u(1), of 1] emits_map_ok [OF write_all_emits [of e] refl] refl]
      emits_bind [OF w [OF u(2), of 0] emits_map_ok [OF write_all_emits [of s] refl] refl]
    by (auto simp: write_string_def [abs_def] g assms(1) cong: if_cong)
qed

end

lemma parse_int_small:
  assumes "b = 1 \<or> b = (3 :: u8)"
  shows "parse_integer 7 (b # rest) = Ok (ucast b, 1)" and "b AND 0x80 = 0"
  using assms by (auto simp: parse_integer_def data_get_def int_mask_def Let_def)

text \<open>
  No string but the empty one is read back from what \<open>write_string\<close> wrote for it: the
  reader takes the first byte for the length and the rest for the string.
\<close>

lemma misread:
  assumes b: "b = 1 \<or> b = (3 :: u8)" and bs: "bs = b # groups n @ d" and "d \<noteq> []"
    and no: "b = 3 \<Longrightarrow> length (groups n @ d) = 3 \<Longrightarrow> groups n @ d \<noteq> s"
  shows "parse_string bs out \<noteq> (Ok (length bs), s)"
proof
  assume p: "parse_string bs out = (Ok (length bs), s)"
  have "length bs \<ge> 3" using bs \<open>d \<noteq> []\<close> groups_ne [of n] by (cases "groups n"; cases d) auto
  have i: "parse_integer 7 bs = Ok (ucast b, 1)" "bs ! 0 AND 0x80 = 0"
    using parse_int_small [OF b] bs by simp_all
  have u: "unat (ucast b :: u64) = (if b = 1 then 1 else 3)" using b by auto
  with p i have l: "length bs = 1 + (if b = 1 then 1 else 3)"
    and t: "s = take (if b = 1 then 1 else 3) (drop 1 bs)"
    by (auto simp: parse_string_def Let_def usize_lim_def split: if_splits)
  with \<open>length bs \<ge> 3\<close> b have "b = 3" by (auto split: if_splits)
  with l t bs have "length (groups n @ d) = 3" and "s = groups n @ d" by simp_all
  with no \<open>b = 3\<close> show False by simp
qed

lemma write_string_not_read:
  assumes "s \<noteq> []" and "length (encoding s) < 2 ^ 32"
  obtains bs where "write_string vec_write s [] = (Ok (length bs), bs)"
    and "parse_string bs out \<noteq> (Ok (length bs), s)"
proof -
  obtain e k where e: "encode_bytes s = Some e"
    and b: "bytes_bits e = encoding s @ replicate k True" and "k < 8" by (rule encode_bytes_spec)
  have ne: "e \<noteq> []" using b assms(1) length_encoding [of s] by auto
  have wire: "int_wire p 1 n = (push_bit 1 p OR 1) # groups (n - 1)" if "0 < n" for p n
    using that by (simp add: int_wire_def int_mask_def)
  show thesis
  proof (cases "length e < length s")
    case True
    let ?bs = "3 # groups (length e - 1) @ e"
    have "write_string vec_write s [] = (Ok (length ?bs), ?bs)"
      using emitsD [OF vec.write_string_emits [OF e assms(2)], of "[]"] True ne wire [of "length e" 1]
      by simp
    moreover have "parse_string ?bs out \<noteq> (Ok (length ?bs), s)"
    proof (rule misread [OF _ refl ne])
      assume l: "length (groups (length e - 1) @ e) = 3"
      show "groups (length e - 1) @ e \<noteq> s"
      proof
        assume s: "groups (length e - 1) @ e = s"
        have "length e \<noteq> 1" using l by (auto simp: groups.simps [of 0])
        moreover have "0 < length (groups (length e - 1))" by simp
        moreover have "length (groups (length e - 1)) + length e = 3" using l by simp
        moreover have "0 < length e" using ne by simp
        ultimately have 2: "length e = 2" by linarith
        then have "s = 1 # e" using s by (simp add: groups.simps [of "Suc 0"])
        moreover have "length (code_bits 1) = 23"
          by (simp add: code_bits_def HUFFMAN_CODE_LEN_def)
        ultimately have "23 \<le> length (encoding s)" by (simp add: encoding_def)
        with length_encoded(2) [OF e] 2 show False by simp
      qed
    qed simp_all
    ultimately show thesis by (rule that)
  next
    case False
    let ?bs = "1 # groups (length s - 1) @ s"
    have "write_string vec_write s [] = (Ok (length ?bs), ?bs)"
      using emitsD [OF vec.write_string_emits [OF e assms(2)], of "[]"] False assms(1)
        wire [of "length s" 0] by simp
    moreover have "parse_string ?bs out \<noteq> (Ok (length ?bs), s)"
      by (rule misread [OF _ refl assms(1)]) simp_all
    ultimately show thesis by (rule that)
  qed
qed

end
