(* ===== verification/Hpack_Table.thy ===== *)
theory Hpack_Table
  imports H2_Error
begin

text \<open>
  \<open>http/src/http2/hpack/tables.rs\<close>: the static table, the dynamic table and the two
  together as the index space of HPACK (RFC 7541 section 2.3).

  The dynamic table keeps its entries serialized in one ring of bytes, each with its size in
  front and behind, so that it can be evicted from the front and searched from the back.
  \<open>represents\<close> relates such a table to the list of entries of the RFC, newest first; the
  lemmas show that every operation refines the operation of the RFC on that list (\<open>evict\<close>
  drops the oldest, \<open>insert\<close> makes room and adds, \<open>resize\<close> trims, \<open>get\<close> looks up), without a
  panic. The interface \<open>dynamic_table\<close> states this for the header table.
\<close>

section \<open>The static table\<close>

type_synonym static_entry = "bytes \<times> bytes option"

definition STATIC_TEXT :: "(string \<times> string option) list" where
  "STATIC_TEXT = [
     ('':authority'', None),
     ('':method'', Some ''GET''),
     ('':method'', Some ''POST''),
     ('':path'', Some ''/''),
     ('':path'', Some ''/index.html''),
     ('':scheme'', Some ''http''),
     ('':scheme'', Some ''https''),
     ('':status'', Some ''200''),
     ('':status'', Some ''204''),
     ('':status'', Some ''206''),
     ('':status'', Some ''304''),
     ('':status'', Some ''400''),
     ('':status'', Some ''404''),
     ('':status'', Some ''500''),
     (''accept-charset'', None),
     (''accept-encoding'', Some ''gzip, deflate''),
     (''accept-language'', None),
     (''accept-ranges'', None),
     (''accept'', None),
     (''access-control-allow-origin'', None),
     (''age'', None),
     (''allow'', None),
     (''authorization'', None),
     (''cache-control'', None),
     (''content-disposition'', None),
     (''content-encoding'', None),
     (''content-language'', None),
     (''content-length'', None),
     (''content-location'', None),
     (''content-range'', None),
     (''content-type'', None),
     (''cookie'', None),
     (''date'', None),
     (''etag'', None),
     (''expect'', None),
     (''expires'', None),
     (''from'', None),
     (''host'', None),
     (''if-match'', None),
     (''if-modified-since'', None),
     (''if-none-match'', None),
     (''if-range'', None),
     (''if-unmodified-since'', None),
     (''last-modified'', None),
     (''link'', None),
     (''location'', None),
     (''max-forwards'', None),
     (''proxy-authenticate'', None),
     (''proxy-authorization'', None),
     (''range'', None),
     (''referer'', None),
     (''refresh'', None),
     (''retry-after'', None),
     (''server'', None),
     (''set-cookie'', None),
     (''strict-transport-security'', None),
     (''transfer-encoding'', None),
     (''user-agent'', None),
     (''vary'', None),
     (''via'', None),
     (''www-authenticate'', None)]"

definition static_entry :: "string \<Rightarrow> string option \<Rightarrow> static_entry" where
  "static_entry name val = (ascii name, map_option ascii val)"

definition STATIC_TABLE :: "static_entry list" where
  "STATIC_TABLE = map (\<lambda>(name, val). static_entry name val) STATIC_TEXT"

lemma length_STATIC_TABLE [simp]: "length STATIC_TABLE = 61"
  by (simp add: STATIC_TABLE_def STATIC_TEXT_def)

section \<open>The dynamic table\<close>

record dyn_table =
  dt_buffer :: bytes
  dt_max_size :: nat
  dt_permitted_size :: nat
  dt_num_elements :: nat

definition dyn_new :: "nat \<Rightarrow> dyn_table" where
  "dyn_new max_permitted_size =
     \<lparr>dt_buffer = [], dt_max_size = max_permitted_size,
      dt_permitted_size = max_permitted_size, dt_num_elements = 0\<rparr>"

text \<open>A range beyond the end of the ring panics.\<close>

definition dyn_get_size :: "dyn_table \<Rightarrow> nat \<Rightarrow> nat option" where
  "dyn_get_size t offset =
     (if offset + 8 \<le> length (dt_buffer t)
      then Some (unat (from_le_bytes (take 8 (drop offset (dt_buffer t))) :: u64))
      else None)"

definition evict :: "dyn_table \<Rightarrow> dyn_table option" where
  "evict t =
     (case dyn_get_size t 0 of
        None \<Rightarrow> None
      | Some sz \<Rightarrow>
          if sz > length (dt_buffer t) \<or> dt_num_elements t = 0 then None
          else Some (t\<lparr>dt_buffer := drop sz (dt_buffer t),
                       dt_num_elements := dt_num_elements t - 1\<rparr>))"

lemma evict_num: "evict t = Some t' \<Longrightarrow> dt_num_elements t' < dt_num_elements t"
  by (auto simp: evict_def split: option.splits if_splits)

definition dyn_reset_permissible_size :: "dyn_table \<Rightarrow> nat \<Rightarrow> error_code \<times> dyn_table" where
  "dyn_reset_permissible_size t new_size =
     (if dt_num_elements t \<noteq> 0 then (CompressionError, t)
      else (NoError, t\<lparr>dt_buffer := [], dt_max_size := new_size, dt_permitted_size := new_size\<rparr>))"

function evict_loop :: "nat \<Rightarrow> dyn_table \<Rightarrow> dyn_table option" where
  "evict_loop new_size t =
     (if length (dt_buffer t) > new_size
      then (case evict t of None \<Rightarrow> None | Some t' \<Rightarrow> evict_loop new_size t')
      else Some t)"
  by pat_completeness auto
termination
  by (relation "measure (\<lambda>(new_size, t). dt_num_elements t)") (auto dest: evict_num)

declare evict_loop.simps [simp del]

definition dyn_resize :: "dyn_table \<Rightarrow> nat \<Rightarrow> dyn_table option" where
  "dyn_resize t new_size =
     (if new_size > dt_permitted_size t then Some t
      else map_option (\<lambda>t'. t'\<lparr>dt_max_size := new_size\<rparr>) (evict_loop new_size t))"

text \<open>The loop of \<open>insert\<close>; the flag says whether there is room, or the loop returned.\<close>

function insert_loop :: "nat \<Rightarrow> dyn_table \<Rightarrow> (bool \<times> dyn_table) option" where
  "insert_loop sz t =
     (if length (dt_buffer t) + sz > dt_max_size t
      then (if length (dt_buffer t) = 0 then Some (False, t)
            else (case evict t of None \<Rightarrow> None | Some t' \<Rightarrow> insert_loop sz t'))
      else Some (True, t))"
  by pat_completeness auto
termination
  by (relation "measure (\<lambda>(sz, t). dt_num_elements t)") (auto dest: evict_num)

declare insert_loop.simps [simp del]

definition entry_bytes :: "bytes \<times> bytes \<Rightarrow> bytes" where
  "entry_bytes e =
     (case e of (name, val) \<Rightarrow>
        let sz = length name + length val + 32
        in to_le_bytes (of_nat sz :: u64) @ to_le_bytes (of_nat (length name) :: u64) @
           to_le_bytes (of_nat (length val) :: u64) @ name @ val @ to_le_bytes (of_nat sz :: u64))"

definition dyn_insert :: "dyn_table \<Rightarrow> bytes \<Rightarrow> bytes \<Rightarrow> dyn_table option" where
  "dyn_insert t name val =
     (case insert_loop (length name + length val + 32) t of
        None \<Rightarrow> None
      | Some (False, t) \<Rightarrow> Some t
      | Some (True, t) \<Rightarrow>
          Some (t\<lparr>dt_buffer := dt_buffer t @ entry_bytes (name, val),
                  dt_num_elements := dt_num_elements t + 1\<rparr>))"

text \<open>
  \<open>get\<close> steps back from the end, entry by entry. The outer \<open>None\<close> is a panic (a range beyond
  the ring, an offset below zero), the inner one the absence of the index.
\<close>

fun step_back :: "dyn_table \<Rightarrow> nat \<Rightarrow> nat \<Rightarrow> nat option" where
  "step_back t 0 offset = Some offset"
| "step_back t (Suc k) offset =
     (if offset < 8 then None
      else (case dyn_get_size t (offset - 8) of
              None \<Rightarrow> None
            | Some sz \<Rightarrow> if sz > offset then None else step_back t k (offset - sz)))"

definition ring_range :: "dyn_table \<Rightarrow> nat \<Rightarrow> nat \<Rightarrow> bytes option" where
  "ring_range t offset len =
     (if offset + len \<le> length (dt_buffer t) then Some (take len (drop offset (dt_buffer t))) else None)"

definition dyn_get :: "dyn_table \<Rightarrow> nat \<Rightarrow> (bytes \<times> bytes) option option" where
  "dyn_get t index =
     (if index \<ge> dt_num_elements t then Some None
      else (case step_back t (Suc index) (length (dt_buffer t)) of
              None \<Rightarrow> None
            | Some offset \<Rightarrow>
                (case (dyn_get_size t (offset + 8), dyn_get_size t (offset + 16)) of
                   (Some name_size, Some value_size) \<Rightarrow>
                     (case (ring_range t (offset + 24) name_size,
                            ring_range t (offset + 24 + name_size) value_size) of
                        (Some name, Some val) \<Rightarrow> Some (Some (name, val))
                      | _ \<Rightarrow> None)
                 | _ \<Rightarrow> None)))"

section \<open>The index space\<close>

type_synonym header_table = dyn_table

definition header_table_new :: "nat \<Rightarrow> header_table" where
  "header_table_new max_table_size = dyn_new max_table_size"

text \<open>
  \<open>HeaderTable::get\<close> appends to the caller's buffers, given by their contents; \<open>val\<close> is
  \<open>None\<close> when the caller wants the name only.
\<close>

definition header_table_get ::
  "header_table \<Rightarrow> nat \<Rightarrow> bytes \<Rightarrow> bytes option \<Rightarrow> (unit, unit) rs \<times> (bytes \<times> bytes option)" where
  "header_table_get t index name val =
     (if index = 0 then (Err (), (name, val))
      else if index \<le> 61
      then (let entry = STATIC_TABLE ! (index - 1)
            in (Ok (), (name @ fst entry,
                        (case (val, snd entry) of (Some w, Some e) \<Rightarrow> Some (w @ e) | _ \<Rightarrow> val))))
      else (case dyn_get t (index - 62) of
              None \<Rightarrow> (Panic, (name, val))
            | Some None \<Rightarrow> (Err (), (name, val))
            | Some (Some (n, v)) \<Rightarrow> (Ok (), (name @ n, map_option (\<lambda>w. w @ v) val))))"

definition header_table_insert :: "header_table \<Rightarrow> bytes \<Rightarrow> bytes \<Rightarrow> header_table option" where
  "header_table_insert t name val = dyn_insert t name val"

definition header_table_dyn_size :: "header_table \<Rightarrow> nat" where
  "header_table_dyn_size t = dt_num_elements t"

definition header_table_reset :: "header_table \<Rightarrow> nat \<Rightarrow> error_code \<times> header_table" where
  "header_table_reset t new_size = dyn_reset_permissible_size t new_size"

definition header_table_resize :: "header_table \<Rightarrow> nat \<Rightarrow> header_table option" where
  "header_table_resize t new_size = dyn_resize t new_size"

definition get_max_size :: "header_table \<Rightarrow> nat" where
  "get_max_size t = dt_permitted_size t"

section \<open>The dynamic table of the RFC\<close>

type_synonym entries = "(bytes \<times> bytes) list"

definition entry_size :: "bytes \<times> bytes \<Rightarrow> nat" where
  "entry_size e = length (fst e) + length (snd e) + 32"

definition table_size :: "entries \<Rightarrow> nat" where
  "table_size es = sum_list (map entry_size es)"

text \<open>Drop the oldest entries, which are at the end, until the table is small enough.\<close>

function trim :: "nat \<Rightarrow> entries \<Rightarrow> entries" where
  "trim lim es = (if lim < table_size es then trim lim (butlast es) else es)"
  by pat_completeness auto
termination
proof (relation "measure (\<lambda>(lim, es). length es)", goal_cases)
  case (2 lim es)
  then have "es \<noteq> []" by (auto simp: table_size_def)
  then show ?case by simp
qed simp

declare trim.simps [simp del]

definition spec_insert :: "nat \<Rightarrow> entries \<Rightarrow> bytes \<times> bytes \<Rightarrow> entries" where
  "spec_insert maxsz es e =
     (if entry_size e > maxsz then [] else e # trim (maxsz - entry_size e) es)"

definition lookup :: "entries \<Rightarrow> nat \<Rightarrow> (bytes \<times> bytes) option" where
  "lookup es i = (if i < length es then Some (es ! i) else None)"

lemma table_size_simps [simp]:
  "table_size [] = 0" "table_size (e # es) = entry_size e + table_size es"
  "table_size (us @ vs) = table_size us + table_size vs"
  by (simp_all add: table_size_def)

lemma trim_le: "table_size (trim lim es) \<le> lim"
  by (induction lim es rule: trim.induct) (subst trim.simps, simp)

lemma trim_prefix: "\<exists>k. trim lim es = take k es"
proof (induction lim es rule: trim.induct)
  case (1 lim es)
  show ?case
  proof (cases "lim < table_size es")
    case True
    with "1.IH" obtain k where "trim lim (butlast es) = take k (butlast es)" by blast
    with True show ?thesis
      by (subst trim.simps) (auto simp: butlast_conv_take take_take)
  next
    case False
    then show ?thesis by (subst trim.simps) (auto intro: exI [of _ "length es"])
  qed
qed

lemma trim_id: "table_size es \<le> lim \<Longrightarrow> trim lim es = es"
  by (simp add: trim.simps)

lemma trim_snoc: "lim < table_size (es @ [e]) \<Longrightarrow> trim lim (es @ [e]) = trim lim es"
  by (subst trim.simps) simp

section \<open>The representation\<close>

text \<open>
  \<open>serialized\<close>: the ring holds the entries, oldest first. \<open>represents\<close> adds the bounds of
  the sizes.
\<close>

definition serialized :: "dyn_table \<Rightarrow> entries \<Rightarrow> bool" where
  "serialized t es \<longleftrightarrow>
     dt_buffer t = concat (map entry_bytes (rev es)) \<and> dt_num_elements t = length es \<and>
     table_size es < usize_lim"

definition represents :: "dyn_table \<Rightarrow> entries \<Rightarrow> bool" where
  "represents t es \<longleftrightarrow>
     serialized t es \<and> table_size es \<le> dt_max_size t \<and>
     dt_max_size t \<le> dt_permitted_size t \<and> dt_permitted_size t < usize_lim"

lemma represents_cap:
  "represents t es \<Longrightarrow> table_size es \<le> dt_max_size t \<and> dt_max_size t \<le> dt_permitted_size t"
  by (simp add: represents_def)

lemma length_entry_bytes [simp]: "length (entry_bytes e) = entry_size e"
  by (simp add: entry_bytes_def entry_size_def Let_def split: prod.split)

lemma length_serial [simp]: "length (concat (map entry_bytes (rev es))) = table_size es"
  by (induction es) simp_all

lemma serialized_length: "serialized t es \<Longrightarrow> length (dt_buffer t) = table_size es"
  by (simp add: serialized_def)

text \<open>Reading a number that was written at an offset.\<close>

lemma dyn_get_size_at:
  assumes "dt_buffer t = xs @ to_le_bytes (of_nat n :: u64) @ ys" and "length xs = offset"
    and "n < usize_lim"
  shows "dyn_get_size t offset = Some n"
  using assms by (simp add: dyn_get_size_def unat_of_nat usize_lim_pow)

lemma entry_bytes_split:
  "entry_bytes e = to_le_bytes (of_nat (entry_size e) :: u64) @
     to_le_bytes (of_nat (length (fst e)) :: u64) @ to_le_bytes (of_nat (length (snd e)) :: u64) @
     fst e @ snd e @ to_le_bytes (of_nat (entry_size e) :: u64)"
  by (simp add: entry_bytes_def entry_size_def Let_def split: prod.split)

lemma serialized_split:
  assumes "serialized t (us @ e # vs)"
  obtains rest where "dt_buffer t = concat (map entry_bytes (rev vs)) @ entry_bytes e @ rest"
    and "entry_size e < usize_lim" and "length rest = table_size us"
  using assms by (intro that [of "concat (map entry_bytes (rev us))"]) (auto simp: serialized_def)

lemma evict_serialized:
  assumes "serialized t (es @ [e])"
  obtains t' where "evict t = Some t'" and "serialized t' es"
    and "dt_max_size t' = dt_max_size t" and "dt_permitted_size t' = dt_permitted_size t"
proof -
  have buf: "dt_buffer t = entry_bytes e @ concat (map entry_bytes (rev es))"
    and n: "dt_num_elements t = Suc (length es)" and lim: "table_size (es @ [e]) < usize_lim"
    using assms by (simp_all add: serialized_def)
  have "dyn_get_size t 0 = Some (entry_size e)"
    using lim buf by (intro dyn_get_size_at [where xs = "[]"]) (simp_all add: entry_bytes_split)
  then show thesis
    using buf n lim
    by (intro that [of "t\<lparr>dt_buffer := drop (entry_size e) (dt_buffer t),
          dt_num_elements := dt_num_elements t - 1\<rparr>"])
      (simp_all add: evict_def serialized_def)
qed

lemma evict_loop_serialized:
  "serialized t es \<Longrightarrow>
   \<exists>t'. evict_loop lim t = Some t' \<and> serialized t' (trim lim es) \<and>
        dt_max_size t' = dt_max_size t \<and> dt_permitted_size t' = dt_permitted_size t"
proof (induction es arbitrary: t rule: rev_induct)
  case Nil
  then show ?case by (simp add: serialized_length evict_loop.simps [of lim t] trim_id)
next
  case (snoc e es)
  show ?case
  proof (cases "lim < table_size (es @ [e])")
    case True
    from evict_serialized [OF snoc.prems] obtain t1 where t1: "evict t = Some t1"
      and s: "serialized t1 es" and k: "dt_max_size t1 = dt_max_size t"
        "dt_permitted_size t1 = dt_permitted_size t" .
    from snoc.IH [OF s] True k t1 show ?thesis
      by (simp add: evict_loop.simps [of lim t] serialized_length [OF snoc.prems] trim_snoc)
  next
    case False
    with snoc.prems show ?thesis
      by (simp add: evict_loop.simps [of lim t] serialized_length [OF snoc.prems] trim_id)
  qed
qed

lemma insert_loop_serialized:
  "serialized t es \<Longrightarrow>
   \<exists>b t'. insert_loop sz t = Some (b, t') \<and> dt_max_size t' = dt_max_size t \<and>
        dt_permitted_size t' = dt_permitted_size t \<and> (b \<longleftrightarrow> sz \<le> dt_max_size t) \<and>
        serialized t' (if b then trim (dt_max_size t - sz) es else [])"
proof (induction es arbitrary: t rule: rev_induct)
  case Nil
  then show ?case by (auto simp: serialized_length insert_loop.simps [of sz t] trim_id)
next
  case (snoc e es)
  note len = serialized_length [OF snoc.prems]
  show ?case
  proof (cases "dt_max_size t < table_size (es @ [e]) + sz")
    case True
    have pos: "0 < table_size (es @ [e])" by (simp add: entry_size_def)
    from evict_serialized [OF snoc.prems] obtain t1 where t1: "evict t = Some t1"
      and s: "serialized t1 es" and k: "dt_max_size t1 = dt_max_size t"
        "dt_permitted_size t1 = dt_permitted_size t" .
    have "sz \<le> dt_max_size t \<Longrightarrow> trim (dt_max_size t - sz) (es @ [e]) = trim (dt_max_size t - sz) es"
      using True by (intro trim_snoc) simp
    with snoc.IH [OF s] True pos k t1 show ?thesis
      by (auto simp: insert_loop.simps [of sz t] len)
  next
    case False
    with snoc.prems show ?thesis
      by (auto simp: insert_loop.simps [of sz t] len trim_id)
  qed
qed

lemma dyn_insert_represents:
  assumes "represents t es"
  shows "\<exists>t'. dyn_insert t name val = Some t' \<and>
    represents t' (spec_insert (dt_max_size t) es (name, val)) \<and>
    dt_max_size t' = dt_max_size t \<and> dt_permitted_size t' = dt_permitted_size t"
proof -
  let ?sz = "length name + length val + 32"
  have e: "entry_size (name, val) = ?sz" by (simp add: entry_size_def)
  from assms have s: "serialized t es" and m: "dt_max_size t \<le> dt_permitted_size t"
    "dt_permitted_size t < usize_lim" by (simp_all add: represents_def)
  from insert_loop_serialized [OF s, of ?sz] obtain b t1 where
    l: "insert_loop ?sz t = Some (b, t1)" and k: "dt_max_size t1 = dt_max_size t"
    "dt_permitted_size t1 = dt_permitted_size t" and b: "b \<longleftrightarrow> ?sz \<le> dt_max_size t"
    and s1: "serialized t1 (if b then trim (dt_max_size t - ?sz) es else [])" by blast
  show ?thesis
  proof (cases b)
    case False
    with l k b s1 m e show ?thesis
      by (auto simp: dyn_insert_def represents_def spec_insert_def)
  next
    case True
    with b trim_le [of "dt_max_size t - ?sz" es] have
      "table_size (trim (dt_max_size t - ?sz) es) + ?sz \<le> dt_max_size t" by simp
    with True l k b s1 m e show ?thesis
      by (auto simp: dyn_insert_def represents_def spec_insert_def serialized_def)
  qed
qed

lemma dyn_resize_represents:
  assumes "represents t es" and "n \<le> dt_permitted_size t"
  shows "\<exists>t'. dyn_resize t n = Some t' \<and> represents t' (trim n es) \<and> dt_max_size t' = n \<and>
    dt_permitted_size t' = dt_permitted_size t"
proof -
  from assms(1) have "serialized t es" by (simp add: represents_def)
  from evict_loop_serialized [OF this, of n] obtain t1 where "evict_loop n t = Some t1"
    "serialized t1 (trim n es)" "dt_max_size t1 = dt_max_size t"
    "dt_permitted_size t1 = dt_permitted_size t" by blast
  with assms trim_le [of n es] show ?thesis
    by (simp add: dyn_resize_def represents_def serialized_def)
qed

text \<open>Stepping back over the newest entries.\<close>

lemma step_back_serialized:
  assumes "serialized t (ps @ us @ vs)"
  shows "step_back t (length us) (table_size (us @ vs)) = Some (table_size vs)"
  using assms
proof (induction us arbitrary: ps)
  case (Cons u us)
  have 32: "32 \<le> entry_size u" by (simp add: entry_size_def)
  from Cons.prems have "serialized t (ps @ u # (us @ vs))" by simp
  then obtain rest where
    b: "dt_buffer t = concat (map entry_bytes (rev (us @ vs))) @ entry_bytes u @ rest"
    and l: "entry_size u < usize_lim" by (rule serialized_split)
  have "dyn_get_size t (table_size (us @ vs) + (entry_size u - 8)) = Some (entry_size u)"
    using l by (intro dyn_get_size_at [where ys = rest and
          xs = "concat (map entry_bytes (rev (us @ vs))) @ to_le_bytes (of_nat (entry_size u) :: u64) @
            to_le_bytes (of_nat (length (fst u)) :: u64) @ to_le_bytes (of_nat (length (snd u)) :: u64) @
            fst u @ snd u"])
      (simp_all add: b entry_bytes_split entry_size_def)
  moreover have "table_size (u # us @ vs) - 8 = table_size (us @ vs) + (entry_size u - 8)"
    using 32 by simp
  moreover have "step_back t (length us) (table_size (us @ vs)) = Some (table_size vs)"
    using Cons.prems by (intro Cons.IH [of "ps @ [u]"]) simp
  ultimately show ?case using 32 by simp
qed simp

lemma dyn_get_represents:
  assumes "represents t es"
  shows "dyn_get t i = Some (lookup es i)"
proof (cases "i < length es")
  case False
  with assms show ?thesis by (simp add: dyn_get_def lookup_def represents_def serialized_def)
next
  case True
  let ?us = "take i es" and ?e = "es ! i" and ?vs = "drop (Suc i) es"
  have es: "es = ?us @ ?e # ?vs" using True by (simp add: id_take_nth_drop)
  from assms have s: "serialized t es" by (simp add: represents_def)
  then have s1: "serialized t ([] @ (?us @ [?e]) @ ?vs)" using es by (metis append.assoc append_Cons append_Nil)
  have len: "length (?us @ [?e]) = Suc i" using True by simp
  have tl: "table_size ((?us @ [?e]) @ ?vs) = length (dt_buffer t)"
    using serialized_length [OF s] es by (metis append.assoc append_Cons append_Nil)
  have sb: "step_back t (Suc i) (length (dt_buffer t)) = Some (table_size ?vs)"
    using step_back_serialized [OF s1] unfolding len tl .
  from s es have "serialized t (?us @ ?e # ?vs)" by metis
  then obtain rest where
    b: "dt_buffer t = concat (map entry_bytes (rev ?vs)) @ entry_bytes ?e @ rest"
    and l: "entry_size ?e < usize_lim" by (rule serialized_split)
  have n: "dyn_get_size t (table_size ?vs + 8) = Some (length (fst ?e))"
    using l by (intro dyn_get_size_at [where xs = "concat (map entry_bytes (rev ?vs)) @
          to_le_bytes (of_nat (entry_size ?e) :: u64)"])
      (simp_all add: b entry_bytes_split entry_size_def)
  have v: "dyn_get_size t (table_size ?vs + 16) = Some (length (snd ?e))"
    using l by (intro dyn_get_size_at [where xs = "concat (map entry_bytes (rev ?vs)) @
          to_le_bytes (of_nat (entry_size ?e) :: u64) @ to_le_bytes (of_nat (length (fst ?e)) :: u64)"])
      (simp_all add: b entry_bytes_split entry_size_def)
  have "ring_range t (table_size ?vs + 24) (length (fst ?e)) = Some (fst ?e)"
    and "ring_range t (table_size ?vs + 24 + length (fst ?e)) (length (snd ?e)) = Some (snd ?e)"
    by (simp_all add: ring_range_def b entry_bytes_split)
  with True s sb n v show ?thesis
    by (simp add: dyn_get_def lookup_def serialized_def del: step_back.simps)
qed

lemma dyn_new_represents: "n < usize_lim \<Longrightarrow> represents (dyn_new n) []"
  by (simp add: dyn_new_def represents_def serialized_def usize_lim_def)

lemma dyn_reset_represents:
  assumes "represents t es" and "n < usize_lim"
  shows "dyn_reset_permissible_size t n =
      (if es = [] then (NoError, dyn_new n) else (CompressionError, t))"
  using assms
  by (cases t) (auto simp: dyn_reset_permissible_size_def represents_def serialized_def dyn_new_def)

section \<open>The interface of the dynamic table\<close>

text \<open>
  What the header table relies on. \<open>repr t es\<close>: table \<open>t\<close> holds the entries \<open>es\<close>, newest first;
  \<open>cap\<close> is the size limit in force.
\<close>

locale dynamic_table =
  fixes repr :: "'t \<Rightarrow> entries \<Rightarrow> bool"
    and cap :: "'t \<Rightarrow> nat"
    and limit :: "'t \<Rightarrow> nat"
    and insert_op :: "'t \<Rightarrow> bytes \<Rightarrow> bytes \<Rightarrow> 't option"
    and resize_op :: "'t \<Rightarrow> nat \<Rightarrow> 't option"
    and get_op :: "'t \<Rightarrow> nat \<Rightarrow> (bytes \<times> bytes) option option"
  assumes repr_cap: "repr t es \<Longrightarrow> table_size es \<le> cap t \<and> cap t \<le> limit t"
    and insert_repr: "repr t es \<Longrightarrow>
      \<exists>t'. insert_op t n v = Some t' \<and> repr t' (spec_insert (cap t) es (n, v)) \<and>
           cap t' = cap t \<and> limit t' = limit t"
    and resize_repr: "repr t es \<Longrightarrow> m \<le> limit t \<Longrightarrow>
      \<exists>t'. resize_op t m = Some t' \<and> repr t' (trim m es) \<and> cap t' = m \<and> limit t' = limit t"
    and get_repr: "repr t es \<Longrightarrow> get_op t i = Some (lookup es i)"
begin

text \<open>An entry that fits is found at index 0 right after it was inserted.\<close>

lemma get_after_insert:
  assumes "repr t es" and "entry_size (n, v) \<le> cap t"
  obtains t' where "insert_op t n v = Some t'" and "get_op t' 0 = Some (Some (n, v))"
    and "repr t' (spec_insert (cap t) es (n, v))"
proof -
  from insert_repr [OF assms(1)] obtain t' where t': "insert_op t n v = Some t'"
    and r: "repr t' (spec_insert (cap t) es (n, v))" by blast
  moreover from assms(2) get_repr [OF r, of 0] have "get_op t' 0 = Some (Some (n, v))"
    by (simp add: lookup_def spec_insert_def)
  ultimately show thesis by (intro that)
qed

text \<open>Older entries move up by one, as far as they are not evicted.\<close>

lemma get_older:
  assumes "repr t es" and "entry_size (n, v) + table_size es \<le> cap t"
  obtains t' where "insert_op t n v = Some t'" and "\<And>i. get_op t' (Suc i) = get_op t i"
proof -
  from insert_repr [OF assms(1)] obtain t' where t': "insert_op t n v = Some t'"
    and r: "repr t' (spec_insert (cap t) es (n, v))" by blast
  have "spec_insert (cap t) es (n, v) = (n, v) # es"
    using assms(2) by (simp add: spec_insert_def trim_id)
  with r have "get_op t' (Suc i) = get_op t i" for i
    using get_repr [OF assms(1), of i] get_repr [OF r, of "Suc i"] by (simp add: lookup_def)
  with t' show thesis by (rule that)
qed

text \<open>A size of zero empties the table.\<close>

lemma resize_zero:
  assumes "repr t es"
  obtains t' where "resize_op t 0 = Some t'" and "repr t' []"
proof -
  from resize_repr [OF assms, of 0] obtain t' where t': "resize_op t 0 = Some t'"
    and r: "repr t' (trim 0 es)" by auto
  have "table_size (trim 0 es) = 0" using trim_le [of 0 es] by simp
  then have "trim 0 es = []" by (cases "trim 0 es") (auto simp: entry_size_def)
  with t' r show thesis by (intro that) simp_all
qed

end

interpretation dyn: dynamic_table represents dt_max_size dt_permitted_size dyn_insert dyn_resize dyn_get
  by unfold_locales
    (auto simp: dyn_get_represents dest: represents_cap
      intro: dyn_insert_represents dyn_resize_represents)

section \<open>The index space of the RFC\<close>

definition table_lookup :: "entries \<Rightarrow> nat \<Rightarrow> (bytes \<times> bytes option) option" where
  "table_lookup es i =
     (if i = 0 then None
      else if i \<le> 61 then Some (STATIC_TABLE ! (i - 1))
      else map_option (\<lambda>(n, v). (n, Some v)) (lookup es (i - 62)))"

lemma header_table_get_spec:
  assumes "represents t es"
  shows "header_table_get t i name val =
    (case table_lookup es i of
       None \<Rightarrow> (Err (), (name, val))
     | Some (n, v) \<Rightarrow>
         (Ok (), (name @ n, (case (val, v) of (Some w, Some e) \<Rightarrow> Some (w @ e) | _ \<Rightarrow> val))))"
  using dyn_get_represents [OF assms, of "i - 62"]
  by (auto simp: header_table_get_def table_lookup_def Let_def split: option.splits prod.splits)

end
