(* ===== verification/Header_Block.thy ===== *)
theory Header_Block
  imports Literal Hpack_Table
begin

text \<open>
  The decoder of header blocks, \<open>read_header\<close> in \<open>http/src/http2/frame/header.rs\<close>: one
  representation of RFC 7541 section 6 is read from the data, against the header table.

  \<open>field_wire\<close> is the wire format of the representations. The lemmas: for each of them what
  the decoder returns and what it does to the table, in terms of the entry list of the RFC
  (\<open>read_indexed\<close>, \<open>read_incremental\<close>, \<open>read_literal\<close>, \<open>read_size_update\<close>); and for every
  input whatsoever that the table stays well formed and that a count is inside the data
  (\<open>read_field_inv\<close>, \<open>read_field_count\<close>).
\<close>

section \<open>The decoder\<close>

definition INDEXED_TAG :: u8 where "INDEXED_TAG = 0x80"
definition INCREMENTAL_TAG :: u8 where "INCREMENTAL_TAG = 0x40"
definition SIZE_TAG :: u8 where "SIZE_TAG = 0x20"

text \<open>
  The state: the header table, and the contents of the two buffers for name and value.
  The debug output of the indexed case is left out.
\<close>

type_synonym field_state = "header_table \<times> bytes \<times> bytes"

text \<open>\<open>&data[read..]\<close> panics beyond the end.\<close>

definition data_from :: "bytes \<Rightarrow> nat \<Rightarrow> bytes option" where
  "data_from data read = (if read \<le> length data then Some (drop read data) else None)"

text \<open>\<open>read += parse_string(&data[read..], name)?\<close>, and the same for the value.\<close>

definition string_into_name ::
  "bytes \<Rightarrow> nat \<Rightarrow> field_state \<Rightarrow> (decode_error, nat) rs \<times> field_state" where
  "string_into_name data read s =
     (case s of (t, name, val) \<Rightarrow>
        (case data_from data read of
           None \<Rightarrow> (Panic, s)
         | Some d \<Rightarrow>
             (case parse_string d name of
                (x, name') \<Rightarrow> map_ok (\<lambda>n. read + n) (x, (t, name', val)))))"

definition string_into_value ::
  "bytes \<Rightarrow> nat \<Rightarrow> field_state \<Rightarrow> (decode_error, nat) rs \<times> field_state" where
  "string_into_value data read s =
     (case s of (t, name, val) \<Rightarrow>
        (case data_from data read of
           None \<Rightarrow> (Panic, s)
         | Some d \<Rightarrow>
             (case parse_string d val of
                (x, val') \<Rightarrow> map_ok (\<lambda>n. read + n) (x, (t, name, val')))))"

text \<open>
  The name of a literal: a string when the index is zero, the table's name otherwise
  (without its value).
\<close>

definition literal_name ::
  "bytes \<Rightarrow> u64 \<Rightarrow> nat \<Rightarrow> field_state \<Rightarrow> (decode_error, nat) rs \<times> field_state" where
  "literal_name data idx read s =
     (if idx = 0 then string_into_name data read s
      else (case s of (t, name, val) \<Rightarrow>
              (case header_table_get t (unat idx) name None of
                 (x, (name', _)) \<Rightarrow>
                   map_ok (\<lambda>_. read) (map_err (\<lambda>_. IndexNotFound) (x, (t, name', val))))))"

definition read_header_field ::
  "header_table \<Rightarrow> bytes \<Rightarrow> bytes \<Rightarrow> bytes \<Rightarrow> (decode_error, nat) rs \<times> field_state" where
  "read_header_field t data name val =
     (case data_get data 0 of
        None \<Rightarrow> (Err TooSmall, (t, name, val))
      | Some tag \<Rightarrow>
          let s = (t, [], []) in
          if tag AND INDEXED_TAG \<noteq> 0 then
            and_then (parse_integer 7 data, s) (\<lambda>(idx, read) (t, name, val).
              (case header_table_get t (unat idx) name (Some val) of
                 (x, (name', val')) \<Rightarrow>
                   map_ok (\<lambda>_. read) (map_err (\<lambda>_. IndexNotFound)
                     (x, (t, name', (case val' of None \<Rightarrow> val | Some v \<Rightarrow> v))))))
          else if tag AND INCREMENTAL_TAG \<noteq> 0 then
            and_then (parse_integer 6 data, s) (\<lambda>(idx, read) s.
            and_then (literal_name data idx read s) (\<lambda>read s.
            and_then (string_into_value data read s) (\<lambda>read (t, name, val).
              case header_table_insert t name val of
                None \<Rightarrow> (Panic, (t, name, val))
              | Some t' \<Rightarrow> (Ok read, (t', name, val)))))
          else if tag AND SIZE_TAG \<noteq> 0 then
            and_then (parse_integer 5 data, s) (\<lambda>(sz, read) (t, name, val).
              if unat sz > get_max_size t then (Err TableTooSmall, (t, name, val))
              else (case header_table_resize t (unat sz) of
                      None \<Rightarrow> (Panic, (t, name, val))
                    | Some t' \<Rightarrow> (Ok read, (t', name, val))))
          else
            and_then (parse_integer 4 data, s) (\<lambda>(idx, read) s.
            and_then (literal_name data idx read s) (\<lambda>read s.
              string_into_value data read s)))"

section \<open>The representations of the RFC\<close>

datatype name_ref = Name_Index nat | Name_Literal bool bytes

datatype field_rep =
    Indexed nat
  | Incremental name_ref bool bytes
  | Literal_Field bool name_ref bool bytes
  | Size_Update nat

fun name_wire :: "u8 \<Rightarrow> nat \<Rightarrow> name_ref \<Rightarrow> bytes" where
  "name_wire pfx bits (Name_Index i) = int_wire pfx bits i"
| "name_wire pfx bits (Name_Literal h d) = int_wire pfx bits 0 @ string_wire h d"

fun field_wire :: "field_rep \<Rightarrow> bytes" where
  "field_wire (Indexed i) = int_wire 1 7 i"
| "field_wire (Incremental nr h d) = name_wire 1 6 nr @ string_wire h d"
| "field_wire (Literal_Field never nr h d) =
     name_wire (if never then 1 else 0) 4 nr @ string_wire h d"
| "field_wire (Size_Update n) = int_wire 1 5 n"

text \<open>The string that a literal denotes, the name that a reference denotes.\<close>

definition string_value :: "bool \<Rightarrow> bytes \<Rightarrow> bytes option" where
  "string_value h d =
     (if h then (case decode_bytes d of (Ok _, s) \<Rightarrow> Some s | _ \<Rightarrow> None) else Some d)"

fun name_value :: "entries \<Rightarrow> name_ref \<Rightarrow> bytes option" where
  "name_value es (Name_Index i) = map_option fst (table_lookup es i)"
| "name_value es (Name_Literal h d) = string_value h d"

text \<open>Indices and lengths as the wire format can carry them.\<close>

fun small_name :: "name_ref \<Rightarrow> bool" where
  "small_name (Name_Index i) \<longleftrightarrow> 0 < i \<and> i < 2 ^ 64"
| "small_name (Name_Literal h d) \<longleftrightarrow> length d < 2 ^ 63"

section \<open>Reading each representation\<close>

lemma and_tag:
  "(x :: u8) AND INDEXED_TAG \<noteq> 0 \<longleftrightarrow> bit x 7" "x AND INCREMENTAL_TAG \<noteq> 0 \<longleftrightarrow> bit x 6"
  "x AND SIZE_TAG \<noteq> 0 \<longleftrightarrow> bit x 5"
  using bit_iff_and_push_bit_not_eq_0 [of x 7] bit_iff_and_push_bit_not_eq_0 [of x 6]
    bit_iff_and_push_bit_not_eq_0 [of x 5]
  by (simp_all add: INDEXED_TAG_def INCREMENTAL_TAG_def SIZE_TAG_def push_bit_of_1)

lemma data_get_wire [simp]: "data_get (int_wire p b n @ rest) 0 = Some (int_wire p b n ! 0)"
  by (cases "int_wire p b n") (simp_all add: data_get_def)

lemma tag_bits:
  "bit (int_wire 1 7 n ! 0) 7" "\<not> bit (int_wire 1 6 n ! 0) 7" "bit (int_wire 1 6 n ! 0) 6"
  "\<not> bit (int_wire 1 5 n ! 0) 7" "\<not> bit (int_wire 1 5 n ! 0) 6" "bit (int_wire 1 5 n ! 0) 5"
  "\<not> bit (int_wire (if b then 1 else 0) 4 n ! 0) 7"
  "\<not> bit (int_wire (if b then 1 else 0) 4 n ! 0) 6"
  "\<not> bit (int_wire (if b then 1 else 0) 4 n ! 0) 5"
  by (simp_all add: int_wire_bit)

lemma parse_wire:
  "bits < 8 \<Longrightarrow> n < 2 ^ 64 \<Longrightarrow> parse_integer bits (int_wire p bits n @ rest) =
    Ok (of_nat n, length (int_wire p bits n))"
  by (rule parse_int_wire)

lemma unat_idx: "n < 2 ^ 64 \<Longrightarrow> unat (of_nat n :: u64) = n"
  by (simp add: unat_of_nat)

lemma of_nat_zero: "n < 2 ^ 64 \<Longrightarrow> (of_nat n :: u64) = 0 \<longleftrightarrow> n = 0"
  by (simp add: word_unat_eq_iff unat_of_nat)

theorem read_indexed:
  assumes "represents t es" and "i < 2 ^ 64"
  shows "read_header_field t (field_wire (Indexed i) @ rest) name val =
    (case table_lookup es i of
       None \<Rightarrow> (Err IndexNotFound, (t, [], []))
     | Some (n, v) \<Rightarrow>
         (Ok (length (field_wire (Indexed i))), (t, n, (case v of None \<Rightarrow> [] | Some v \<Rightarrow> v))))"
  using header_table_get_spec [OF assms(1), of i "[]" "Some []"] assms(2)
  by (simp add: read_header_field_def and_tag tag_bits parse_wire unat_idx Let_def
      split: option.split prod.split)

theorem read_size_update:
  assumes "represents t es" and "n < 2 ^ 64"
  shows "if n > dt_permitted_size t
    then read_header_field t (field_wire (Size_Update n) @ rest) name val =
      (Err TableTooSmall, (t, [], []))
    else \<exists>t'. read_header_field t (field_wire (Size_Update n) @ rest) name val =
      (Ok (length (field_wire (Size_Update n))), (t', [], [])) \<and>
      represents t' (trim n es) \<and> dt_max_size t' = n \<and> dt_permitted_size t' = dt_permitted_size t"
  using dyn_resize_represents [OF assms(1), of n] assms(2)
  by (auto simp: read_header_field_def and_tag tag_bits parse_wire unat_idx Let_def
      get_max_size_def header_table_resize_def)

lemma string_value_parse:
  assumes "string_value h d = Some s" and "length d < 2 ^ 63"
  shows "parse_string (string_wire h d @ rest) out = (Ok (length (string_wire h d)), s)"
  using assms(1) parse_string_wire [OF assms(2), of h rest out]
  by (auto simp: string_value_def split: if_splits prod.splits rs.splits)

lemma string_into_value_wire:
  assumes "data = pre @ string_wire h d @ rest" and "length pre = read"
    and "string_value h d = Some s" and "length d < 2 ^ 63"
  shows "string_into_value data read (t, name, val) =
    (Ok (read + length (string_wire h d)), (t, name, s))"
  using string_value_parse [OF assms(3,4)] assms(1,2)
  by (simp add: string_into_value_def data_from_def)

lemma literal_name_wire:
  assumes "represents t es" and "small_name nr" and "name_value es nr = Some n" and "bits < 8"
    and "data = name_wire p bits nr @ rest"
  obtains idx read where "parse_integer bits data = Ok (idx, read)"
    and "literal_name data idx read (t, [], val) = (Ok (length (name_wire p bits nr)), (t, n, val))"
proof (cases nr)
  case (Name_Index i)
  with assms(2,3) have i: "0 < i" "i < 2 ^ 64" and l: "map_option fst (table_lookup es i) = Some n"
    by simp_all
  from l obtain v where "table_lookup es i = Some (n, v)" by auto
  then have "header_table_get t i [] None = (Ok (), (n, None))"
    using header_table_get_spec [OF assms(1), of i "[]" None] by simp
  with i assms(4,5) Name_Index show thesis
    by (intro that [of "of_nat i" "length (int_wire p bits i)"])
      (simp_all add: parse_wire literal_name_def of_nat_zero unat_idx)
next
  case (Name_Literal h d)
  with assms(2,3) have "parse_string (string_wire h d @ rest) [] = (Ok (length (string_wire h d)), n)"
    by (intro string_value_parse) simp_all
  with assms(4,5) Name_Literal show thesis
    by (intro that [of 0 "length (int_wire p bits 0)"])
      (simp_all add: parse_wire literal_name_def string_into_name_def data_from_def)
qed

lemma name_wire_tag:
  obtains k where "data_get (name_wire p b nr @ rest) 0 = Some (int_wire p b k ! 0)"
  by (cases nr) (auto intro: that)

theorem read_incremental:
  assumes "represents t es" and "small_name nr" and "length d < 2 ^ 63"
    and "name_value es nr = Some n" and "string_value h d = Some v"
  obtains t' where "read_header_field t (field_wire (Incremental nr h d) @ rest) name val =
      (Ok (length (field_wire (Incremental nr h d))), (t', n, v))"
    and "represents t' (spec_insert (dt_max_size t) es (n, v))"
    and "dt_max_size t' = dt_max_size t" and "dt_permitted_size t' = dt_permitted_size t"
proof -
  let ?data = "name_wire 1 6 nr @ string_wire h d @ rest"
  obtain k where tag: "data_get ?data 0 = Some (int_wire 1 6 k ! 0)" by (rule name_wire_tag)
  from literal_name_wire [OF assms(1,2,4) _ refl, of 6 1 "string_wire h d @ rest" "[]"]
  obtain idx read where p: "parse_integer 6 ?data = Ok (idx, read)"
    and l: "literal_name ?data idx read (t, [], []) = (Ok (length (name_wire 1 6 nr)), (t, n, []))"
    by auto
  have s: "string_into_value ?data (length (name_wire 1 6 nr)) (t, n, []) =
      (Ok (length (name_wire 1 6 nr) + length (string_wire h d)), (t, n, v))"
    by (rule string_into_value_wire [OF refl refl assms(5,3)])
  from dyn_insert_represents [OF assms(1), of n v] obtain t' where
    i: "dyn_insert t n v = Some t'" and r: "represents t' (spec_insert (dt_max_size t) es (n, v))"
    "dt_max_size t' = dt_max_size t" "dt_permitted_size t' = dt_permitted_size t" by blast
  show thesis
    by (rule that [OF _ r])
      (simp add: read_header_field_def tag and_tag tag_bits p l s header_table_insert_def i Let_def)
qed

theorem read_literal:
  assumes "represents t es" and "small_name nr" and "length d < 2 ^ 63"
    and "name_value es nr = Some n" and "string_value h d = Some v"
  shows "read_header_field t (field_wire (Literal_Field never nr h d) @ rest) name val =
      (Ok (length (field_wire (Literal_Field never nr h d))), (t, n, v))"
proof -
  let ?p = "if never then 1 else 0 :: u8"
  let ?data = "name_wire ?p 4 nr @ string_wire h d @ rest"
  obtain k where tag: "data_get ?data 0 = Some (int_wire ?p 4 k ! 0)" by (rule name_wire_tag)
  from literal_name_wire [OF assms(1,2,4) _ refl, of 4 ?p "string_wire h d @ rest" "[]"]
  obtain idx read where p: "parse_integer 4 ?data = Ok (idx, read)"
    and l: "literal_name ?data idx read (t, [], []) = (Ok (length (name_wire ?p 4 nr)), (t, n, []))"
    by auto
  have s: "string_into_value ?data (length (name_wire ?p 4 nr)) (t, n, []) =
      (Ok (length (name_wire ?p 4 nr) + length (string_wire h d)), (t, n, v))"
    by (rule string_into_value_wire [OF refl refl assms(5,3)])
  show ?thesis
    by (simp add: read_header_field_def tag and_tag tag_bits p l s Let_def cong: if_cong)
qed

section \<open>Every input\<close>

text \<open>
  On any data at all, also when it is malformed and the call fails: the table still
  represents some entries and its permitted size is the same. (The addition in
  \<open>parse_integer\<close> may still panic.)
\<close>

definition table_ok :: "nat \<Rightarrow> header_table \<Rightarrow> bool" where
  "table_ok lim t \<longleftrightarrow> (\<exists>es. represents t es) \<and> dt_permitted_size t = lim"

definition state_ok :: "nat \<Rightarrow> ('e, 'a) rs \<times> field_state \<Rightarrow> bool" where
  "state_ok lim x \<longleftrightarrow> fst x \<noteq> Panic \<longrightarrow> table_ok lim (fst (snd x))"

lemma state_ok_bind:
  "state_ok lim x \<Longrightarrow> (\<And>a s. x = (Ok a, s) \<Longrightarrow> table_ok lim (fst s) \<Longrightarrow> state_ok lim (k a s)) \<Longrightarrow>
   state_ok lim (and_then x k)"
  by (cases x; cases "fst x") (auto simp: state_ok_def)

lemma state_ok_simps [simp]:
  "state_ok lim (map_ok f x) \<longleftrightarrow> state_ok lim x" "state_ok lim (map_err g x) \<longleftrightarrow> state_ok lim x"
  by (cases x; cases "fst x"; simp add: state_ok_def)+

lemma state_ok_pair: "table_ok lim t \<Longrightarrow> state_ok lim (x, (t, n, v))"
  by (simp add: state_ok_def)

lemma string_into_ok:
  assumes "table_ok lim (fst s)"
  shows "state_ok lim (string_into_name data read s)" "state_ok lim (string_into_value data read s)"
  using assms
  by (cases s; auto simp: string_into_name_def string_into_value_def state_ok_pair
      split: option.split prod.split)+

lemma literal_name_ok: "table_ok lim (fst s) \<Longrightarrow> state_ok lim (literal_name data idx read s)"
  by (cases s) (auto simp: literal_name_def string_into_ok state_ok_pair split: prod.split)

lemma insert_ok:
  assumes "table_ok lim t"
  obtains t' where "header_table_insert t n v = Some t'" and "table_ok lim t'"
proof -
  from assms obtain es where "represents t es" and "dt_permitted_size t = lim"
    by (auto simp: table_ok_def)
  with dyn_insert_represents [of t es n v] that show thesis
    by (auto simp: table_ok_def header_table_insert_def)
qed

lemma resize_ok:
  assumes "table_ok lim t" and "m \<le> get_max_size t"
  obtains t' where "header_table_resize t m = Some t'" and "table_ok lim t'"
proof -
  from assms(1) obtain es where "represents t es" and "dt_permitted_size t = lim"
    by (auto simp: table_ok_def)
  with dyn_resize_represents [of t es m] assms(2) that show thesis
    by (auto simp: table_ok_def header_table_resize_def get_max_size_def)
qed

theorem read_field_inv:
  assumes "table_ok lim t"
  shows "state_ok lim (read_header_field t data name val)"
proof (cases "data_get data 0")
  case None
  with assms show ?thesis by (simp add: read_header_field_def state_ok_pair)
next
  case (Some tag)
  have get: "state_ok lim (case header_table_get t (unat idx) n (Some v) of (x, (n', v')) \<Rightarrow>
      map_ok (\<lambda>_. read) (map_err (\<lambda>_. IndexNotFound) (x, (t, n', (case v' of None \<Rightarrow> v | Some v \<Rightarrow> v)))))"
    if "table_ok lim t" for t n v and idx :: u64 and read :: nat
    using that by (simp add: state_ok_pair split: prod.split)
  have ins: "state_ok lim (case header_table_insert t n v of
      None \<Rightarrow> (Panic, (t, n, v)) | Some t' \<Rightarrow> (Ok read, (t', n, v)))"
    if h: "table_ok lim t" for t n v and read :: nat
  proof -
    obtain t' where "header_table_insert t n v = Some t'" and "table_ok lim t'"
      by (rule insert_ok [OF h])
    then show ?thesis by (simp add: state_ok_pair)
  qed
  have res: "state_ok lim (if m > get_max_size t then (Err TableTooSmall, (t, n, v))
      else (case header_table_resize t m of
              None \<Rightarrow> (Panic, (t, n, v)) | Some t' \<Rightarrow> (Ok read, (t', n, v))))"
    if h: "table_ok lim t" for t n v m and read :: nat
  proof (cases "m > get_max_size t")
    case True
    with h show ?thesis by (simp add: state_ok_pair)
  next
    case False
    then obtain t' where "header_table_resize t m = Some t'" and "table_ok lim t'"
      using resize_ok [OF h, of m] by auto
    with False show ?thesis by (simp add: state_ok_pair)
  qed
  from assms have s: "state_ok lim (parse_integer b data, (t, [], []))" for b
    by (rule state_ok_pair)
  show ?thesis
    unfolding read_header_field_def Some Let_def option.case
    by (simp only: split: if_split, intro conjI impI state_ok_bind s)
      (auto intro!: get ins res state_ok_bind string_into_ok literal_name_ok)
qed

text \<open>A count that is returned lies in the data.\<close>

lemma string_into_count:
  assumes "string_into_name data read s = (Ok n, s') \<or> string_into_value data read s = (Ok n, s')"
  shows "read < n \<and> n \<le> length data"
proof -
  obtain t nm v where s: "s = (t, nm, v)" by (cases s)
  from assms obtain d out out' k where "data_from data read = Some d"
    and "parse_string d out = (Ok k, out')" and "n = read + k"
    by (auto simp: s string_into_name_def string_into_value_def split: option.splits prod.splits
        elim!: map_ok_OkE)
  with parse_string_bounds [of d out k out'] show ?thesis
    by (auto simp: data_from_def split: if_splits)
qed

lemma literal_name_count:
  assumes "literal_name data idx read s = (Ok n, s')" and "read \<le> length data"
  shows "read \<le> n \<and> n \<le> length data"
  using assms string_into_count [of data read s n s']
  by (cases s) (auto simp: literal_name_def split: if_splits prod.splits elim!: map_ok_OkE)

lemmas string_into_value_count = string_into_count [OF disjI2]

theorem read_field_count:
  assumes "read_header_field t data name val = (Ok n, s)"
  shows "0 < n \<and> n \<le> length data"
proof -
  from assms obtain tag where "data_get data 0 = Some tag"
    by (auto simp: read_header_field_def split: option.splits)
  with assms show ?thesis
    unfolding read_header_field_def Let_def
    by (auto split: if_splits option.splits prod.splits elim!: and_then_OkE map_ok_OkE
        dest!: map_err_OkD parse_integer_bounds literal_name_count string_into_value_count)
qed

end
