(* ===== verification/Hpack_Stream.thy ===== *)
theory Hpack_Stream
  imports Header_Block
begin

text \<open>
  The decoding of a whole header block: the caller's repeated use of \<open>read_header\<close>
  (\<open>http/src/http2/frame/header.rs\<close>), each call on the bytes that the last one left and on
  the table that it left.

  \<open>decode_step\<close> is one call, \<open>decodes\<close> a sequence of them. \<open>spec_field\<close> is the decoder of RFC 7541
  on a list of entries. The lemmas: a call simulates the RFC's decoder on every
  representation (\<open>field_simulates\<close>), so a block does (\<open>block_decodes\<close>); every reachable state
  keeps the table's invariant (\<open>decodes_ok\<close>), and a block is consumed in at most as many
  steps as it has bytes (\<open>decodes_steps\<close>).
\<close>

section \<open>The decoder of the RFC\<close>

record spec_table =
  sp_entries :: entries
  sp_max :: nat
  sp_limit :: nat

text \<open>What a representation does to the table, and the field it adds; \<open>None\<close> is an error.\<close>

fun spec_field :: "spec_table \<Rightarrow> field_rep \<Rightarrow> (spec_table \<times> (bytes \<times> bytes)) option" where
  "spec_field st (Indexed i) =
     map_option (\<lambda>(n, v). (st, (n, case v of None \<Rightarrow> [] | Some w \<Rightarrow> w)))
       (table_lookup (sp_entries st) i)"
| "spec_field st (Incremental nr h d) =
     (case (name_value (sp_entries st) nr, string_value h d) of
        (Some n, Some v) \<Rightarrow>
          Some (st\<lparr>sp_entries := spec_insert (sp_max st) (sp_entries st) (n, v)\<rparr>, (n, v))
      | _ \<Rightarrow> None)"
| "spec_field st (Literal_Field never nr h d) =
     (case (name_value (sp_entries st) nr, string_value h d) of
        (Some n, Some v) \<Rightarrow> Some (st, (n, v))
      | _ \<Rightarrow> None)"
| "spec_field st (Size_Update n) =
     (if n > sp_limit st then None
      else Some (st\<lparr>sp_entries := trim n (sp_entries st), sp_max := n\<rparr>, ([], [])))"

text \<open>Numbers that the wire format carries.\<close>

fun wf_rep :: "field_rep \<Rightarrow> bool" where
  "wf_rep (Indexed i) \<longleftrightarrow> i < 2 ^ 64"
| "wf_rep (Incremental nr h d) \<longleftrightarrow> small_name nr \<and> length d < 2 ^ 63"
| "wf_rep (Literal_Field never nr h d) \<longleftrightarrow> small_name nr \<and> length d < 2 ^ 63"
| "wf_rep (Size_Update n) \<longleftrightarrow> n < 2 ^ 64"

definition models :: "header_table \<Rightarrow> spec_table \<Rightarrow> bool" where
  "models t st \<longleftrightarrow>
     represents t (sp_entries st) \<and> dt_max_size t = sp_max st \<and> dt_permitted_size t = sp_limit st"

lemma models_new: "n < usize_lim \<Longrightarrow> models (header_table_new n) \<lparr>sp_entries = [], sp_max = n, sp_limit = n\<rparr>"
  by (simp add: models_def header_table_new_def dyn_new_represents) (simp add: dyn_new_def)

lemma field_simulates:
  assumes "models t st" and "wf_rep rep" and "spec_field st rep = Some (st', (n, v))"
  shows "\<exists>t'. read_header_field t (field_wire rep @ rest) name val =
    (Ok (length (field_wire rep)), (t', n, v)) \<and> models t' st'"
proof (cases rep)
  case (Indexed i)
  with assms read_indexed [of t "sp_entries st" i rest name val] show ?thesis
    by (auto simp: models_def split: prod.splits)
next
  case (Incremental nr h d)
  with assms have "name_value (sp_entries st) nr = Some n" "string_value h d = Some v"
    and st': "st' = st\<lparr>sp_entries := spec_insert (sp_max st) (sp_entries st) (n, v)\<rparr>"
    by (auto split: option.splits)
  with assms Incremental obtain t' where
    "read_header_field t (field_wire rep @ rest) name val = (Ok (length (field_wire rep)), (t', n, v))"
    "represents t' (spec_insert (dt_max_size t) (sp_entries st) (n, v))"
    "dt_max_size t' = dt_max_size t" "dt_permitted_size t' = dt_permitted_size t"
    using read_incremental [of t "sp_entries st" nr d n h v rest name val]
    by (auto simp: models_def)
  with assms(1) st' show ?thesis by (auto simp: models_def)
next
  case (Literal_Field never nr h d)
  with assms read_literal [of t "sp_entries st" nr d n h v never rest name val] show ?thesis
    by (auto simp: models_def split: option.splits)
next
  case (Size_Update k)
  with assms read_size_update [of t "sp_entries st" k rest name val] show ?thesis
    by (auto simp: models_def split: if_splits)
qed

section \<open>Blocks\<close>

type_synonym decode_state = "header_table \<times> bytes"

text \<open>One call of \<open>read_header\<close> that succeeds, and the bytes it leaves.\<close>

definition decode_step :: "decode_state \<Rightarrow> (bytes \<times> bytes) \<Rightarrow> decode_state \<Rightarrow> bool" where
  "decode_step s hdr s' \<longleftrightarrow>
     (case s of (t, data) \<Rightarrow>
        (case read_header_field t data [] [] of
           (Ok n, (t', name, val)) \<Rightarrow> hdr = (name, val) \<and> s' = (t', drop n data)
         | _ \<Rightarrow> False))"

inductive decodes :: "decode_state \<Rightarrow> (bytes \<times> bytes) list \<Rightarrow> decode_state \<Rightarrow> bool" where
  stop: "decodes s [] s"
| more: "decode_step s hdr s' \<Longrightarrow> decodes s' hdrs s'' \<Longrightarrow> decodes s (hdr # hdrs) s''"

inductive_cases decodes_NilE: "decodes s [] s'"
inductive_cases decodes_ConsE: "decodes s (hdr # hdrs) s'"
inductive_simps decodes_Nil [simp]: "decodes s [] s'"

lemma decode_stepI:
  "read_header_field t data [] [] = (Ok n, (t', name, val)) \<Longrightarrow>
   decode_step (t, data) (name, val) (t', drop n data)"
  by (simp add: decode_step_def)

lemma decode_stepE:
  assumes "decode_step (t, data) hdr s'"
  obtains n t' name val where "read_header_field t data [] [] = (Ok n, (t', name, val))"
    and "hdr = (name, val)" and "s' = (t', drop n data)"
  using assms by (auto simp: decode_step_def split: prod.splits rs.splits)

lemma decode_step_fun: "decode_step s f s' \<Longrightarrow> decode_step s g s'' \<Longrightarrow> f = g \<and> s' = s''"
  by (cases s) (auto elim!: decode_stepE)

lemma decodes_append:
  "decodes s fs s' \<Longrightarrow> decodes s' gs s'' \<Longrightarrow> decodes s (fs @ gs) s''"
  by (induction rule: decodes.induct) (auto intro: decodes.more)

text \<open>The RFC's decoder on a sequence of representations.\<close>

fun spec_block :: "spec_table \<Rightarrow> field_rep list \<Rightarrow> (spec_table \<times> (bytes \<times> bytes) list) option" where
  "spec_block st [] = Some (st, [])"
| "spec_block st (rep # reps) =
     (case spec_field st rep of
        None \<Rightarrow> None
      | Some (st', hdr) \<Rightarrow> map_option (\<lambda>(st'', hdrs). (st'', hdr # hdrs)) (spec_block st' reps))"

definition block_wire :: "field_rep list \<Rightarrow> bytes" where
  "block_wire reps = concat (map field_wire reps)"

lemma block_decodes:
  "models t st \<Longrightarrow> list_all wf_rep reps \<Longrightarrow> spec_block st reps = Some (st', hdrs) \<Longrightarrow>
   \<exists>t'. decodes (t, block_wire reps @ rest) hdrs (t', rest) \<and> models t' st'"
proof (induction reps arbitrary: t st hdrs)
  case Nil
  then show ?case by (auto simp: block_wire_def)
next
  case (Cons rep reps)
  from Cons.prems(3) obtain st1 n v fs where f: "spec_field st rep = Some (st1, (n, v))"
    and b: "spec_block st1 reps = Some (st', fs)" and hdrs: "hdrs = (n, v) # fs"
    by (auto split: option.splits)
  obtain t1 where r: "read_header_field t (field_wire rep @ block_wire reps @ rest) [] [] =
      (Ok (length (field_wire rep)), (t1, n, v))" and m: "models t1 st1"
    using field_simulates [OF Cons.prems(1) _ f] Cons.prems(2) by fastforce
  obtain t' where "decodes (t1, block_wire reps @ rest) fs (t', rest)" and "models t' st'"
    using Cons.IH [OF m _ b] Cons.prems(2) by auto
  with decode_stepI [OF r] show ?case
    by (auto simp: hdrs block_wire_def intro: decodes.more)
qed

section \<open>Every reachable state\<close>

lemma decode_step_ok:
  assumes "decode_step (t, data) hdr (t', data')" and "table_ok lim t"
  shows "table_ok lim t' \<and> length data' < length data"
proof -
  from assms(1) obtain n name val where r: "read_header_field t data [] [] = (Ok n, (t', name, val))"
    and d: "data' = drop n data" by (auto elim: decode_stepE)
  have "state_ok lim (read_header_field t data [] [])" by (rule read_field_inv [OF assms(2)])
  with r have "table_ok lim t'" by (simp add: state_ok_def)
  moreover have "0 < n \<and> n \<le> length data" by (rule read_field_count [OF r])
  ultimately show ?thesis by (auto simp: d)
qed

lemma decodes_ok:
  "decodes s hdrs s' \<Longrightarrow> table_ok lim (fst s) \<Longrightarrow> table_ok lim (fst s')"
  by (induction rule: decodes.induct) (auto dest: decode_step_ok)

lemma decodes_steps:
  "decodes s hdrs s' \<Longrightarrow> table_ok lim (fst s) \<Longrightarrow> length hdrs + length (snd s') \<le> length (snd s)"
proof (induction rule: decodes.induct)
  case (more s hdr s' hdrs s'')
  then show ?case
    using decode_step_ok [of "fst s" "snd s" hdr "fst s'" "snd s'" lim] by simp
qed simp

end
