(* ===== verification/Siphash.thy ===== *)
theory Siphash
  imports Prelude
begin

text \<open>
  The \<open>SipHash\<close> of \<open>http/src/http2/context.rs\<close>: the state with its buffer of at most seven bytes,
  \<open>init\<close>, \<open>add\<close> and \<open>digest\<close>.

  The lemmas: a message added in pieces leaves the state of the whole message
  (\<open>sip_add_state\<close>), whose digest is the reference SipHash of the padded message
  (\<open>sip_digest_state\<close>). The last section evaluates the hash on lists of bits, where the
  kernel can compute it (\<open>core_blocks\<close>, \<open>finish_core\<close>); it models no code.
\<close>

section \<open>SipHash\<close>

record sip =
  v0 :: u64
  v1 :: u64
  v2 :: u64
  v3 :: u64
  dgst_len :: u64
  dgst_buf :: bytes

definition sip_default :: sip where
  "sip_default = \<lparr>v0 = 0, v1 = 0, v2 = 0, v3 = 0, dgst_len = 0, dgst_buf = replicate 8 0\<rparr>"

definition rotate_left :: "nat \<Rightarrow> u64 \<Rightarrow> u64" where
  "rotate_left n w = push_bit n w OR drop_bit (64 - n) w"

text \<open>The values of the state are replaced in the order of the source.\<close>

definition sip_init :: "bytes \<Rightarrow> sip \<Rightarrow> sip" where
  "sip_init key s =
     (let k0 = from_le_bytes (take 8 key); k1 = from_le_bytes (take 8 (drop 8 key))
      in s\<lparr>v0 := 0x736f6d6570736575 XOR k0, v1 := 0x646f72616e646f6d XOR k1,
           v2 := 0x6c7967656e657261 XOR k0, v3 := 0x7465646279746573 XOR k1,
           dgst_len := 0, dgst_buf := replicate 8 0\<rparr>)"

definition sipround :: "sip \<Rightarrow> sip" where
  "sipround s =
     (let a = v0 s + v1 s;
          b = rotate_left 13 (v1 s) XOR a;
          a = rotate_left 32 a;
          c = v2 s + v3 s;
          d = rotate_left 16 (v3 s) XOR c;
          a = a + d;
          d = rotate_left 21 d XOR a;
          c = c + b;
          b = rotate_left 17 b XOR c;
          c = rotate_left 32 c
      in s\<lparr>v0 := a, v1 := b, v2 := c, v3 := d\<rparr>)"

text \<open>\<open>self.v3 ^= m; for _ in 0..C { sipround }; self.v0 ^= m\<close>\<close>

definition sip_block :: "nat \<Rightarrow> u64 \<Rightarrow> sip \<Rightarrow> sip" where
  "sip_block C m s =
     (let s = (sipround ^^ C) (s\<lparr>v3 := v3 s XOR m\<rparr>) in s\<lparr>v0 := v0 s XOR m\<rparr>)"

function sip_blocks :: "nat \<Rightarrow> sip \<Rightarrow> bytes \<Rightarrow> sip \<times> bytes" where
  "sip_blocks C s data =
     (if length data \<ge> 8
      then sip_blocks C (sip_block C (from_le_bytes (take 8 data)) s) (drop 8 data)
      else (s, data))"
  by pat_completeness auto
termination
  by (relation "measure (\<lambda>(C, s, data). length data)") auto

declare sip_blocks.simps [simp del]

definition sip_add :: "nat \<Rightarrow> bytes \<Rightarrow> sip \<Rightarrow> sip" where
  "sip_add C data s =
     (let buf_len = unat (dgst_len s mod 8); buf_rem = 8 - buf_len;
          s = s\<lparr>dgst_len := dgst_len s + of_nat (length data)\<rparr>
      in if length data < buf_rem
         then s\<lparr>dgst_buf := overwrite (dgst_buf s) buf_len data\<rparr>
         else
           (let s = s\<lparr>dgst_buf := overwrite (dgst_buf s) buf_len (take buf_rem data)\<rparr>;
                s = sip_block C (from_le_bytes (dgst_buf s)) s
            in (case sip_blocks C s (drop buf_rem data) of
                  (s, data) \<Rightarrow> s\<lparr>dgst_buf := overwrite (replicate 8 0) 0 data\<rparr>)))"

definition sip_digest :: "nat \<Rightarrow> nat \<Rightarrow> sip \<Rightarrow> u64 \<times> sip" where
  "sip_digest C D s =
     (let b = push_bit 56 (dgst_len s) OR from_le_bytes (dgst_buf s);
          s = sip_block C b s;
          s = (sipround ^^ D) (s\<lparr>v2 := v2 s XOR 0xFF\<rparr>)
      in (v0 s XOR v1 s XOR v2 s XOR v3 s, s))"

section \<open>Messages in pieces\<close>

lemma sipround_keeps [simp]:
  "sipround (s\<lparr>dgst_len := l\<rparr>) = (sipround s)\<lparr>dgst_len := l\<rparr>"
  "sipround (s\<lparr>dgst_buf := b\<rparr>) = (sipround s)\<lparr>dgst_buf := b\<rparr>"
  by (simp_all add: sipround_def Let_def)

lemma sipround_funpow [simp]:
  "(sipround ^^ n) (s\<lparr>dgst_len := l\<rparr>) = ((sipround ^^ n) s)\<lparr>dgst_len := l\<rparr>"
  "(sipround ^^ n) (s\<lparr>dgst_buf := b\<rparr>) = ((sipround ^^ n) s)\<lparr>dgst_buf := b\<rparr>"
  by (induction n) simp_all

lemma sip_block_keeps [simp]:
  "sip_block C m (s\<lparr>dgst_len := l\<rparr>) = (sip_block C m s)\<lparr>dgst_len := l\<rparr>"
  "sip_block C m (s\<lparr>dgst_buf := b\<rparr>) = (sip_block C m s)\<lparr>dgst_buf := b\<rparr>"
proof -
  have swap: "s\<lparr>dgst_len := l, v3 := x\<rparr> = s\<lparr>v3 := x, dgst_len := l\<rparr>"
    "s\<lparr>dgst_buf := b, v3 := x\<rparr> = s\<lparr>v3 := x, dgst_buf := b\<rparr>" for x
    by simp_all
  show "sip_block C m (s\<lparr>dgst_len := l\<rparr>) = (sip_block C m s)\<lparr>dgst_len := l\<rparr>"
    "sip_block C m (s\<lparr>dgst_buf := b\<rparr>) = (sip_block C m s)\<lparr>dgst_buf := b\<rparr>"
    by (simp_all add: sip_block_def Let_def swap)
qed

text \<open>The whole blocks of a message, and the bytes after them.\<close>

lemma sip_blocks_short: "length xs < 8 \<Longrightarrow> sip_blocks C s xs = (s, xs)"
  by (simp add: sip_blocks.simps)

lemma sip_blocks_step:
  "length xs = 8 \<Longrightarrow> sip_blocks C s (xs @ ys) = sip_blocks C (sip_block C (from_le_bytes xs) s) ys"
  by (simp add: sip_blocks.simps)

lemma sip_blocks_keeps:
  "sip_blocks C (s\<lparr>dgst_len := l\<rparr>) xs =
     (case sip_blocks C s xs of (t, r) \<Rightarrow> (t\<lparr>dgst_len := l\<rparr>, r))"
  "sip_blocks C (s\<lparr>dgst_buf := b\<rparr>) xs =
     (case sip_blocks C s xs of (t, r) \<Rightarrow> (t\<lparr>dgst_buf := b\<rparr>, r))"
proof (induction C s xs rule: sip_blocks.induct)
  case (1 C s data)
  { case 1 then show ?case
      using "1.IH"(1) by (subst (1 2) sip_blocks.simps) simp
  next
    case 2 then show ?case
      using "1.IH"(2) by (subst (1 2) sip_blocks.simps) simp }
qed

lemma sip_blocks_rest:
  "sip_blocks C s xs = (t, r) \<Longrightarrow> r = drop (8 * (length xs div 8)) xs"
proof (induction C s xs rule: sip_blocks.induct)
  case (1 C s data)
  then show ?case
    by (cases "8 \<le> length data")
      (auto simp: sip_blocks.simps [of C s data] le_div_geq add.commute)
qed

lemma length_sip_blocks_rest:
  "sip_blocks C s xs = (t, r) \<Longrightarrow> length r = length xs mod 8"
  by (drule sip_blocks_rest) (simp add: minus_mult_div_eq_mod)

lemma sip_blocks_append:
  "sip_blocks C s xs = (t, r) \<Longrightarrow> sip_blocks C s (xs @ ys) = sip_blocks C t (r @ ys)"
proof (induction C s xs rule: sip_blocks.induct)
  case (1 C s data)
  then show ?case
    by (cases "8 \<le> length data")
      (simp_all add: sip_blocks.simps [of C s data] sip_blocks.simps [of C s "data @ ys"])
qed

definition sip_state :: "nat \<Rightarrow> sip \<Rightarrow> bytes \<Rightarrow> sip" where
  "sip_state C s msg =
     (case sip_blocks C s msg of
        (t, r) \<Rightarrow> t\<lparr>dgst_len := of_nat (length msg), dgst_buf := overwrite (replicate 8 0) 0 r\<rparr>)"

lemma buf_len_of_nat: "unat ((of_nat n :: u64) mod 8) = n mod 8"
proof -
  have "unat ((of_nat n :: u64) mod 8) = n mod 2 ^ 64 mod 8"
    by (simp add: unat_mod unat_of_nat)
  also have "\<dots> = n mod 8"
    by (rule mod_mod_cancel) (rule dvdI [where k = "2 ^ 61"], simp)
  finally show ?thesis .
qed

lemma sip_stateI:
  "sip_blocks C s msg = (t, r) \<Longrightarrow>
   sip_state C s msg =
     t\<lparr>dgst_len := of_nat (length msg), dgst_buf := r @ replicate (8 - length r) 0\<rparr>"
  by (simp add: sip_state_def)

lemma sip_add_state: "sip_add C data (sip_state C s msg) = sip_state C s (msg @ data)"
proof -
  obtain t r where b: "sip_blocks C s msg = (t, r)" by (cases "sip_blocks C s msg")
  define k where "k = length msg mod 8"
  have r: "length r = k" unfolding k_def by (rule length_sip_blocks_rest [OF b])
  have lt: "k < 8" by (simp add: k_def)
  note st = sip_stateI [OF b, unfolded r]
  show ?thesis
  proof (cases "length data < 8 - k")
    case True
    then have "sip_blocks C s (msg @ data) = (t, r @ data)"
      using r by (simp add: sip_blocks_append [OF b] sip_blocks_short)
    from sip_stateI [OF this] show ?thesis
      using True r lt
      by (simp add: st sip_add_def Let_def buf_len_of_nat overwrite_def flip: k_def)
  next
    case False
    define m where "m = r @ take (8 - k) data"
    have lm: "length m = 8" using False r lt by (simp add: m_def)
    obtain u q where q: "sip_blocks C (sip_block C (from_le_bytes m) t) (drop (8 - k) data) = (u, q)"
      by (cases "sip_blocks C (sip_block C (from_le_bytes m) t) (drop (8 - k) data)")
    have "r @ data = m @ drop (8 - k) data" by (simp add: m_def)
    then have "sip_blocks C s (msg @ data) = (u, q)"
      by (simp only: sip_blocks_append [OF b] sip_blocks_step [OF lm] q)
    note app = sip_stateI [OF this]
    have "overwrite (r @ replicate (8 - k) 0) k (take (8 - k) data) = m"
      using r False by (simp add: overwrite_def m_def)
    then show ?thesis
      using False r lt q
      by (simp add: st app sip_add_def Let_def buf_len_of_nat sip_blocks_keeps add.commute
            flip: k_def)
  qed
qed

text \<open>The reference: the message, zeros, and its length in the last byte of the last block.\<close>

definition sip_pad :: "bytes \<Rightarrow> bytes" where
  "sip_pad msg = msg @ replicate (7 - length msg mod 8) 0 @ [of_nat (length msg)]"

definition siphash :: "nat \<Rightarrow> nat \<Rightarrow> bytes \<Rightarrow> bytes \<Rightarrow> u64" where
  "siphash C D key msg =
     (let s = fst (sip_blocks C (sip_init key sip_default) (sip_pad msg));
          s = (sipround ^^ D) (s\<lparr>v2 := v2 s XOR 0xFF\<rparr>)
      in v0 s XOR v1 s XOR v2 s XOR v3 s)"

lemma last_block:
  assumes "length r < 8"
  shows "from_le_bytes (r @ replicate (7 - length r) 0 @ [of_nat n]) =
    push_bit 56 (of_nat n) OR (from_le_bytes (r @ replicate (8 - length r) 0) :: u64)"
    (is "?l = ?r")
proof (rule bit_word_eqI)
  fix i assume "i < LENGTH(64)"
  then have i: "i < 64" by simp
  have le: "i div 8 < 8" using i by presburger
  have nth: "(r @ replicate (7 - length r) 0 @ [of_nat n]) ! j =
      (if j = 7 then of_nat n else (r @ replicate (8 - length r) (0::8 word)) ! j)" if "j < 8" for j
    using assms that by (auto simp: nth_append)
  have last: "(r @ replicate (8 - length r) (0::8 word)) ! 7 = 0"
    using assms by (auto simp: nth_append)
  show "bit ?l i \<longleftrightarrow> bit ?r i"
  proof (cases "i div 8 = 7")
    case True
    then have "i \<ge> 56 \<and> i mod 8 = i - 56" using i by presburger
    then show ?thesis
      using True assms i by (auto simp: bit_from_le_bytes bit_simps nth last)
  next
    case False
    then have "i < 56" using le by presburger
    then show ?thesis
      using False le assms i by (simp add: bit_from_le_bytes bit_simps nth)
  qed
qed

lemma sip_digest_state:
  "fst (sip_digest C D (sip_state C (sip_init key h) msg)) = siphash C D key msg"
proof -
  have ini: "sip_init key h = sip_init key sip_default"
    by (cases h) (simp add: sip_init_def sip_default_def Let_def)
  obtain t r where b: "sip_blocks C (sip_init key sip_default) msg = (t, r)"
    by (cases "sip_blocks C (sip_init key sip_default) msg")
  have r: "length r = length msg mod 8" by (rule length_sip_blocks_rest [OF b])
  then have lt: "length r < 8" by simp
  have swap: "s\<lparr>dgst_len := l, dgst_buf := z, v2 := x\<rparr> = s\<lparr>v2 := x, dgst_len := l, dgst_buf := z\<rparr>"
    for s l z x by simp
  define p where "p = r @ replicate (7 - length r) 0 @ [of_nat (length msg)]"
  have "length p = 8" using lt by (simp add: p_def)
  then have "sip_blocks C t p = (sip_block C (from_le_bytes p) t, [])"
    using sip_blocks_step [of p C t "[]"] by (simp add: sip_blocks_short)
  then have "sip_blocks C (sip_init key sip_default) (sip_pad msg) =
      (sip_block C (from_le_bytes p) t, [])"
    by (simp add: sip_pad_def sip_blocks_append [OF b] flip: r p_def)
  moreover have "from_le_bytes p =
      push_bit 56 (of_nat (length msg)) OR (from_le_bytes (r @ replicate (8 - length r) 0) :: u64)"
    unfolding p_def by (rule last_block [OF lt])
  ultimately show ?thesis
    by (simp add: ini sip_stateI [OF b] sip_digest_def siphash_def Let_def swap)
qed

lemma sip_init_state: "sip_init key h = sip_state C (sip_init key h) []"
  by (simp add: sip_stateI [OF sip_blocks_short] sip_init_def Let_def)

section \<open>The hash on lists of bits\<close>

fun xor_bits :: "bool list \<Rightarrow> bool list \<Rightarrow> bool list" where
  "xor_bits (True # xs) (True # ys) = False # xor_bits xs ys"
| "xor_bits (True # xs) (False # ys) = True # xor_bits xs ys"
| "xor_bits (False # xs) (True # ys) = True # xor_bits xs ys"
| "xor_bits (False # xs) (False # ys) = False # xor_bits xs ys"
| "xor_bits _ _ = []"

fun add_bits :: "bool \<Rightarrow> bool list \<Rightarrow> bool list \<Rightarrow> bool list" where
  "add_bits False (True # xs) (True # ys) = False # add_bits True xs ys"
| "add_bits False (True # xs) (False # ys) = True # add_bits False xs ys"
| "add_bits False (False # xs) (True # ys) = True # add_bits False xs ys"
| "add_bits False (False # xs) (False # ys) = False # add_bits False xs ys"
| "add_bits True (True # xs) (True # ys) = True # add_bits True xs ys"
| "add_bits True (True # xs) (False # ys) = False # add_bits True xs ys"
| "add_bits True (False # xs) (True # ys) = False # add_bits True xs ys"
| "add_bits True (False # xs) (False # ys) = True # add_bits False xs ys"
| "add_bits _ _ _ = []"

definition rot_bits :: "nat \<Rightarrow> bool list \<Rightarrow> bool list" where
  "rot_bits n xs = drop n xs @ take n xs"

definition bits_of :: "'a::len word \<Rightarrow> bool list" where
  "bits_of w = map (bit w) [0..<LENGTH('a)]"

lemma length_bits_of [simp]: "length (bits_of (w :: 'a::len word)) = LENGTH('a)"
  by (simp add: bits_of_def)

lemma nth_bits_of [simp]: "i < LENGTH('a) \<Longrightarrow> bits_of (w :: 'a::len word) ! i = bit w i"
  by (simp add: bits_of_def)

lemma xor_bits_map2: "length xs = length ys \<Longrightarrow> xor_bits xs ys = map2 (\<noteq>) xs ys"
  by (induction xs ys rule: xor_bits.induct) auto

lemma bits_of_xor: "bits_of (v XOR w) = xor_bits (bits_of v) (bits_of w)"
  by (rule nth_equalityI) (simp_all add: xor_bits_map2 bit_simps)

lemma bits_of_rotate:
  "n \<le> 64 \<Longrightarrow> bits_of (rotate_left n w) = rot_bits (64 - n) (bits_of w)"
  by (rule nth_equalityI)
    (auto simp: rotate_left_def rot_bits_def nth_append bit_simps dest: bit_imp_le_length)

abbreviation word_of_bits :: "bool list \<Rightarrow> u64" where
  "word_of_bits \<equiv> horner_sum of_bool 2"

lemma word_of_bits_of: "word_of_bits (bits_of w) = w"
  by (simp add: bits_of_def horner_sum_bit_eq_take_bit take_bit_word_eq_self)

lemma bits_of_word_of: "length xs = 64 \<Longrightarrow> bits_of (word_of_bits xs) = xs"
  by (rule nth_equalityI) (simp_all add: bit_horner_sum_bit_word_iff)

lemma length_add_bits: "length xs = length ys \<Longrightarrow> length (add_bits c xs ys) = length xs"
  by (induction c xs ys rule: add_bits.induct) auto

lemma word_of_add_bits:
  "length xs = length ys \<Longrightarrow>
   \<exists>k. word_of_bits (add_bits c xs ys) + 2 ^ length xs * k =
       of_bool c + word_of_bits xs + word_of_bits ys"
proof (induction xs ys arbitrary: c rule: list_induct2)
  case Nil
  then show ?case by (auto intro: exI [of _ "of_bool c"])
next
  case (Cons x xs y ys)
  have step: "\<exists>k. 2 * word_of_bits (add_bits c' xs ys) + 2 * 2 ^ length xs * k =
      2 * of_bool c' + 2 * word_of_bits xs + 2 * word_of_bits ys" for c'
  proof -
    obtain k where "word_of_bits (add_bits c' xs ys) + 2 ^ length xs * k =
        of_bool c' + word_of_bits xs + word_of_bits ys" using Cons.IH by blast
    from arg_cong [OF this, of "(*) 2"] show ?thesis
      by (intro exI [of _ k]) (simp add: algebra_simps)
  qed
  show ?case
    using step [of True] step [of False]
    by (cases c; cases x; cases y) (simp_all add: algebra_simps)
qed

lemma bits_of_add: "bits_of (v + w) = add_bits False (bits_of v) (bits_of (w :: u64))"
proof -
  obtain k where "word_of_bits (add_bits False (bits_of v) (bits_of w)) +
      2 ^ length (bits_of v) * k = of_bool False + word_of_bits (bits_of v) + word_of_bits (bits_of w)"
    using word_of_add_bits [of "bits_of v" "bits_of w" False] by auto
  moreover have z: "(2 :: u64) ^ length (bits_of v) = 0" by simp
  ultimately have "word_of_bits (add_bits False (bits_of v) (bits_of w)) = v + w"
    unfolding z by (simp add: word_of_bits_of)
  with bits_of_word_of [of "add_bits False (bits_of v) (bits_of w)"] show ?thesis
    by (simp add: length_add_bits)
qed

type_synonym sip_bits = "bool list \<times> bool list \<times> bool list \<times> bool list"

definition core :: "sip \<Rightarrow> sip_bits" where
  "core s = (bits_of (v0 s), bits_of (v1 s), bits_of (v2 s), bits_of (v3 s))"

fun round_bits :: "sip_bits \<Rightarrow> sip_bits" where
  "round_bits (a, b, c, d) =
     (let a = add_bits False a b;
          b = xor_bits (rot_bits 51 b) a;
          a = rot_bits 32 a;
          c = add_bits False c d;
          d = xor_bits (rot_bits 48 d) c;
          a = add_bits False a d;
          d = xor_bits (rot_bits 43 d) a;
          c = add_bits False c b;
          b = xor_bits (rot_bits 47 b) c;
          c = rot_bits 32 c
      in (a, b, c, d))"

declare round_bits.simps [simp del]

lemma core_round: "round_bits (core s) = core (sipround s)"
  by (simp add: core_def round_bits.simps sipround_def Let_def bits_of_xor bits_of_add bits_of_rotate)

fun xor_first :: "bool list \<Rightarrow> sip_bits \<Rightarrow> sip_bits" where
  "xor_first m (a, b, c, d) = (xor_bits a m, b, c, d)"

fun block_bits :: "bool list \<Rightarrow> sip_bits \<Rightarrow> sip_bits" where
  "block_bits m (a, b, c, d) = xor_first m (round_bits (round_bits (a, b, c, xor_bits d m)))"

fun blocks_bits :: "sip_bits \<Rightarrow> bool list list \<Rightarrow> sip_bits" where
  "blocks_bits t [] = t"
| "blocks_bits t (m # ms) = blocks_bits (block_bits m t) ms"

lemma core_block:
  "block_bits (bits_of m) (core s) = core (sip_block 2 m s)"
proof -
  let ?s = "s\<lparr>v3 := v3 s XOR m\<rparr>"
  have "(bits_of (v0 s), bits_of (v1 s), bits_of (v2 s), xor_bits (bits_of (v3 s)) (bits_of m))
      = core ?s" by (simp add: core_def bits_of_xor)
  then show ?thesis
    by (simp add: core_def [of s] core_round sip_block_def Let_def numeral_2_eq_2)
      (simp add: core_def bits_of_xor)
qed

definition reduce :: "nat \<Rightarrow> nat" where
  "reduce r = (if r < 48 then r else r - 48)"

fun double :: "bool \<Rightarrow> nat \<Rightarrow> nat" where
  "double True r = reduce (Suc (r + r))"
| "double False r = reduce (r + r)"

fun mod_bits :: "bool list \<Rightarrow> nat" where
  "mod_bits [] = 0"
| "mod_bits (x # xs) = double x (mod_bits xs)"

lemma mod_bits_spec: "mod_bits xs = horner_sum of_bool 2 xs mod 48 \<and> mod_bits xs < 48"
proof (induction xs)
  case (Cons x xs)
  let ?h = "horner_sum of_bool 2 xs :: nat"
  define r where "r = ?h mod 48"
  have "(of_bool x + 2 * ?h) mod 48 = (of_bool x + 2 * r) mod 48"
    unfolding r_def by (metis mod_add_right_eq mod_mult_right_eq)
  moreover have "r < 48" "mod_bits xs = r" using Cons by (simp_all add: r_def)
  ultimately show ?case
    by (cases x) (auto simp: reduce_def mod_if)
qed simp

lemma unat_mod_bits: "unat w mod 48 = mod_bits (bits_of (w :: u64))"
proof -
  have "horner_sum of_bool 2 (bits_of w) = unat w"
  proof (rule bit_eqI)
    show "bit (horner_sum of_bool 2 (bits_of w) :: nat) n \<longleftrightarrow> bit (unat w) n" for n
      by (cases "n < 64")
        (auto simp: bit_horner_sum_bit_iff bit_unsigned_iff dest: bit_imp_le_length)
  qed
  then show ?thesis by (simp add: mod_bits_spec)
qed

fun slot_of :: "sip_bits \<Rightarrow> nat" where
  "slot_of (a, b, c, d) = mod_bits (xor_bits a (xor_bits b (xor_bits c d)))"

fun finish_bits :: "sip_bits \<Rightarrow> nat" where
  "finish_bits (a, b, c, d) =
     slot_of (round_bits (round_bits (round_bits (round_bits
       (a, b, xor_bits c (replicate 8 True @ replicate 56 False), d)))))"

lemma bits_of_FF: "bits_of (0xFF :: u64) = replicate 8 True @ replicate 56 False"
proof (rule nth_equalityI)
  have FF: "(0xFF :: u64) = mask 8" by (simp add: mask_eq_exp_minus_1)
  fix i assume "i < length (bits_of (0xFF :: u64))"
  then show "bits_of (0xFF :: u64) ! i = (replicate 8 True @ replicate 56 False) ! i"
    by (simp add: FF bit_mask_iff nth_append)
qed simp

lemma finish_core:
  "finish_bits (core s) =
     (let s = (sipround ^^ 4) (s\<lparr>v2 := v2 s XOR 0xFF\<rparr>) in unat (v0 s XOR v1 s XOR v2 s XOR v3 s) mod 48)"
proof -
  let ?s = "s\<lparr>v2 := v2 s XOR 0xFF\<rparr>"
  have "(bits_of (v0 s), bits_of (v1 s),
      xor_bits (bits_of (v2 s)) (replicate 8 True @ replicate 56 False), bits_of (v3 s)) = core ?s"
    by (simp add: core_def bits_of_xor flip: bits_of_FF)
  then have "finish_bits (core s) = slot_of (core (sipround (sipround (sipround (sipround ?s)))))"
    by (simp add: core_def [of s] core_round)
  also have "sipround (sipround (sipround (sipround ?s))) = (sipround ^^ 4) ?s"
    by (simp add: eval_nat_numeral)
  finally show ?thesis
    by (simp add: core_def unat_mod_bits bits_of_xor Let_def)
qed

lemma nth_concat_bits:
  "i < 8 * length xs \<Longrightarrow> concat (map bits_of xs) ! i = bit (xs ! (i div 8)) (i mod 8)"
  for xs :: bytes
proof (induction xs arbitrary: i)
  case (Cons x xs)
  show ?case
  proof (cases "i < 8")
    case False
    then have "i - 8 < 8 * length xs" "i div 8 = Suc ((i - 8) div 8)" "i mod 8 = (i - 8) mod 8"
      using Cons.prems by (simp_all add: le_div_geq le_mod_geq)
    then show ?thesis using Cons.IH [of "i - 8"] False by (simp add: nth_append)
  qed (simp add: nth_append)
qed simp

lemma length_concat_bits: "length (concat (map bits_of xs)) = 8 * length (xs :: bytes)"
  by (induction xs) simp_all

lemma bits_of_le_bytes:
  "length xs = 8 \<Longrightarrow> bits_of (from_le_bytes xs :: u64) = concat (map bits_of xs)"
  by (rule nth_equalityI)
    (auto simp: length_concat_bits nth_concat_bits bit_from_le_bytes bit_simps)

fun chunks :: "bool list list \<Rightarrow> bool list list" where
  "chunks (x0 # x1 # x2 # x3 # x4 # x5 # x6 # x7 # xs) =
     (x0 @ x1 @ x2 @ x3 @ x4 @ x5 @ x6 @ x7) # chunks xs"
| "chunks _ = []"

lemma chunks_append:
  "length xs = 8 \<Longrightarrow> chunks (xs @ ys) = concat xs # chunks ys"
  by (auto simp: eval_nat_numeral length_Suc_conv)

lemma core_blocks:
  "length msg mod 8 = 0 \<Longrightarrow>
   core (fst (sip_blocks 2 s msg)) = blocks_bits (core s) (chunks (map bits_of msg))"
proof (induction "2 :: nat" s msg rule: sip_blocks.induct)
  case (1 s msg)
  show ?case
  proof (cases "8 \<le> length msg")
    case True
    then have eq: "core (fst (sip_blocks 2 s msg)) =
        blocks_bits (core (sip_block 2 (from_le_bytes (take 8 msg)) s)) (chunks (map bits_of (drop 8 msg)))"
      using 1 by (simp add: sip_blocks.simps [of 2 s msg] le_mod_geq)
    have "chunks (map bits_of msg) =
        concat (map bits_of (take 8 msg)) # chunks (map bits_of (drop 8 msg))"
      using chunks_append [of "map bits_of (take 8 msg)" "map bits_of (drop 8 msg)"] True
      by (simp flip: map_append)
    then have "chunks (map bits_of msg) =
        bits_of (from_le_bytes (take 8 msg) :: u64) # chunks (map bits_of (drop 8 msg))"
      using True by (simp add: bits_of_le_bytes)
    then show ?thesis by (simp add: eq core_block)
  next
    case False
    with "1.prems" have "msg = []" by (cases msg) auto
    then show ?thesis by (simp add: sip_blocks_short)
  qed
qed

text \<open>Characters are eight bits already, which evaluates fast.\<close>

fun char_bits :: "char \<Rightarrow> bool list" where
  "char_bits (Char b0 b1 b2 b3 b4 b5 b6 b7) = [b0, b1, b2, b3, b4, b5, b6, b7]"

fun nat_bits :: "nat \<Rightarrow> nat \<Rightarrow> bool list" where
  "nat_bits 0 n = []"
| "nat_bits (Suc k) n = odd n # nat_bits k (n div 2)"

lemma length_char_bits: "length (char_bits c) = 8"
  by (cases c) simp

lemma bits_of_char: "bits_of (of_char c :: u8) = char_bits c"
proof (rule nth_equalityI)
  have eq: "of_char c = (horner_sum of_bool 2 (char_bits c) :: u8)"
    by (cases c) (simp only: of_char_Char char_bits.simps)
  fix i assume "i < length (bits_of (of_char c :: u8))"
  then show "bits_of (of_char c :: u8) ! i = char_bits c ! i"
    by (simp add: eq bit_horner_sum_bit_word_iff length_char_bits)
qed (simp add: length_char_bits)

lemma nth_nat_bits: "i < k \<Longrightarrow> nat_bits k n ! i = bit n i"
  by (induction k n arbitrary: i rule: nat_bits.induct) (auto simp: nth_Cons bit_0 bit_Suc split: nat.splits)

lemma length_nat_bits: "length (nat_bits k n) = k"
  by (induction k n rule: nat_bits.induct) auto

lemma bits_of_of_nat: "bits_of (of_nat n :: u8) = nat_bits 8 n"
  by (rule nth_equalityI) (simp_all add: length_nat_bits nth_nat_bits bit_simps)

end
