(* ===== verification/Static_Index.thy ===== *)
theory Static_Index
  imports Siphash Hpack_Table
begin

text \<open>
  The rest of \<open>http/src/http2/context.rs\<close>: the hash map over the names of the static table, and
  the search for the static index of a header.

  The kernel evaluates the hash of the 48 names (\<open>slots_0\<close> to \<open>slots_7\<close>), so that the map is
  shown to find every one of its names within three probes (\<open>find_index_iff\<close>), and the search
  to return what a scan of the whole static table would (\<open>get_static_header_index_spec\<close>).
\<close>

section \<open>The map of the static names\<close>

definition HEADER_MAP_SIZE :: nat where "HEADER_MAP_SIZE = 48"

definition HEADER_NAMES :: "(string \<times> nat) list" where
  "HEADER_NAMES = [
     (''allow'', 21),
     (''content-range'', 29),
     (''authorization'', 22),
     (''cache-control'', 23),
     (''etag'', 33),
     (''date'', 32),
     (''range'', 49),
     (''www-authenticate'', 60),
     (''host'', 37),
     (''from'', 36),
     (''accept-ranges'', 17),
     (''proxy-authenticate'', 47),
     (''content-language'', 26),
     (''if-match'', 38),
     (''if-none-match'', 40),
     (''proxy-authorization'', 48),
     (''cookie'', 31),
     (''accept-language'', 16),
     (''expires'', 35),
     (''via'', 59),
     (''content-length'', 27),
     (''content-disposition'', 24),
     (''if-unmodified-since'', 42),
     (''server'', 53),
     (''vary'', 58),
     (''strict-transport-security'', 55),
     (''accept-charset'', 14),
     (''age'', 20),
     ('':status'', 7),
     (''link'', 44),
     (''location'', 45),
     (''user-agent'', 57),
     (''referer'', 50),
     (''if-modified-since'', 39),
     (''refresh'', 51),
     (''content-encoding'', 25),
     (''retry-after'', 52),
     (''content-location'', 28),
     (''transfer-encoding'', 56),
     (''accept-encoding'', 15),
     (''access-control-allow-origin'', 19),
     (''expect'', 34),
     (''if-range'', 41),
     (''last-modified'', 43),
     (''content-type'', 30),
     (''set-cookie'', 54),
     (''accept'', 18),
     (''max-forwards'', 46)]"

definition HEADER_MAP :: "(bytes \<times> nat) list" where
  "HEADER_MAP = map (\<lambda>(n, i). (ascii n, i)) HEADER_NAMES"

definition MAX_HEADER_LENGTH :: nat where "MAX_HEADER_LENGTH = 27"

definition HEADER_MAP_KEY :: bytes where
  "HEADER_MAP_KEY =
     [0x87, 0xf1, 0x5a, 0x17, 0x7a, 0x48, 0x42, 0x45, 0x51, 0x18, 0x8f, 0x69, 0xdc, 0xbf, 0x9a, 0x82]"

definition MAX_PROBE :: nat where "MAX_PROBE = 3"
definition MAX_CHECK_LEN :: nat where "MAX_CHECK_LEN = 5"

definition header_hash :: "sip \<Rightarrow> bytes \<Rightarrow> u64 \<times> sip" where
  "header_hash h header =
     sip_digest 2 4 (sip_add 2 header (sip_add 2 [of_nat (length header)] (sip_init HEADER_MAP_KEY h)))"

text \<open>
  The probes: a slot whose first bytes differ is skipped, the first slot whose first bytes
  agree decides.
\<close>

fun probe :: "bytes \<Rightarrow> nat \<Rightarrow> nat list \<Rightarrow> nat option" where
  "probe header start [] = None"
| "probe header start (i # is) =
     (let index = (start + i) mod HEADER_MAP_SIZE;
          name = fst (HEADER_MAP ! index);
          n = min (min (length header) (length name)) MAX_CHECK_LEN
      in if take n header \<noteq> take n name then probe header start is
         else if name = header then Some index else None)"

definition find_index :: "sip \<Rightarrow> bytes \<Rightarrow> nat option \<times> sip" where
  "find_index h header =
     (case header_hash h header of
        (hash, h') \<Rightarrow> (probe header (unat (hash mod of_nat HEADER_MAP_SIZE)) [0..<MAX_PROBE], h'))"

text \<open>
  The search for the value, from the first entry of the name on. Indexing beyond the table
  panics (\<open>None\<close>).
\<close>

function value_loop :: "bytes \<Rightarrow> bytes \<Rightarrow> nat \<Rightarrow> nat \<Rightarrow> nat option" where
  "value_loop name val index test_index =
     (if test_index < length STATIC_TABLE
      then (if fst (STATIC_TABLE ! test_index) = name
            then (if snd (STATIC_TABLE ! test_index) = Some val then Some (test_index + 1)
                  else value_loop name val index (test_index + 1))
            else Some (index + 1))
      else None)"
  by pat_completeness auto
termination
  by (relation "measure (\<lambda>(name, val, index, i). length STATIC_TABLE - i)") auto

declare value_loop.simps [simp del]

definition get_static_header_index ::
  "sip \<Rightarrow> bytes \<Rightarrow> bytes \<Rightarrow> nat option option \<times> sip" where
  "get_static_header_index h name val =
     (if length name = 0 then (Some None, h)
      else if length name > MAX_HEADER_LENGTH then (Some None, h)
      else (case find_index h name of
              (None, h') \<Rightarrow> (Some None, h')
            | (Some i, h') \<Rightarrow>
                (let index = snd (HEADER_MAP ! i)
                 in if snd (STATIC_TABLE ! index) = None then (Some (Some (index + 1)), h')
                    else (map_option Some (value_loop name val index index), h'))))"

lemma header_hash_spec:
  "fst (header_hash h name) = siphash 2 4 HEADER_MAP_KEY (of_nat (length name) # name)"
proof -
  have "sip_add 2 name (sip_add 2 [of_nat (length name)] (sip_init HEADER_MAP_KEY h)) =
      sip_state 2 (sip_init HEADER_MAP_KEY h) (of_nat (length name) # name)"
    by (subst (1) sip_init_state [where C = 2]) (simp add: sip_add_state)
  then show ?thesis
    by (simp add: header_hash_def sip_digest_state)
qed

section \<open>The slots of the names\<close>

definition key_chars :: string where
  "key_chars = [CHR 0x87, CHR 0xf1, CHR 0x5a, CHR 0x17, CHR 0x7a, CHR 0x48, CHR 0x42, CHR 0x45,
     CHR 0x51, CHR 0x18, CHR 0x8f, CHR 0x69, CHR 0xdc, CHR 0xbf, CHR 0x9a, CHR 0x82]"

text \<open>The constants of the initial state are the text of the reference, in two halves.\<close>

definition init_bits :: sip_bits where
  "init_bits =
     (let k0 = concat (map char_bits (take 8 key_chars));
          k1 = concat (map char_bits (drop 8 key_chars));
          c = (\<lambda>s. concat (map char_bits s))
      in (xor_bits (c ''uespemos'') k0, xor_bits (c ''modnarod'') k1,
          xor_bits (c ''arenegyl'') k0, xor_bits (c ''setybdet'') k1))"

lemma bits_of_ascii8:
  "length s = 8 \<Longrightarrow> bits_of (from_le_bytes (ascii s) :: u64) = concat (map char_bits s)"
  by (simp add: bits_of_le_bytes) (simp add: ascii_def comp_def bits_of_char)

lemma core_init: "core (sip_init HEADER_MAP_KEY sip_default) = init_bits"
proof -
  have key: "HEADER_MAP_KEY = ascii key_chars"
    by (simp add: HEADER_MAP_KEY_def key_chars_def ascii_def)
  have c: "from_le_bytes (ascii ''uespemos'') = (0x736f6d6570736575 :: u64)"
    "from_le_bytes (ascii ''modnarod'') = (0x646f72616e646f6d :: u64)"
    "from_le_bytes (ascii ''arenegyl'') = (0x6c7967656e657261 :: u64)"
    "from_le_bytes (ascii ''setybdet'') = (0x7465646279746573 :: u64)"
    by (simp_all add: ascii_def push_bit_eq_mult)
  have t: "take 8 (ascii s) = ascii (take 8 s)" "drop 8 (ascii s) = ascii (drop 8 s)" for s
    by (simp_all add: ascii_def take_map drop_map)
  have l: "length key_chars = 16" by (simp add: key_chars_def)
  show ?thesis
    by (simp add: core_def sip_init_def init_bits_def Let_def bits_of_xor key t bits_of_ascii8 l
        flip: c)
qed

definition slot_bits :: "string \<Rightarrow> nat" where
  "slot_bits s =
     (let n = length s;
          msg = nat_bits 8 n # map char_bits s;
          pad = replicate (7 - Suc n mod 8) (replicate 8 False) @ [nat_bits 8 (Suc n)]
      in finish_bits (blocks_bits init_bits (chunks (msg @ pad))))"

lemma header_slot:
  "unat (fst (header_hash h (ascii s)) mod of_nat HEADER_MAP_SIZE) = slot_bits s"
proof -
  let ?msg = "of_nat (length s) # ascii s :: bytes"
  have zero: "bits_of (0 :: u8) = replicate 8 False"
    by (rule nth_equalityI) simp_all
  have len: "length (sip_pad ?msg) mod 8 = 0"
    by (simp add: sip_pad_def) presburger
  have pad: "map bits_of (sip_pad ?msg) = nat_bits 8 (length s) # map char_bits s @
      replicate (7 - Suc (length s) mod 8) (replicate 8 False) @ [nat_bits 8 (Suc (length s))]"
    by (simp add: sip_pad_def zero bits_of_of_nat flip: of_nat_Suc)
      (simp add: ascii_def bits_of_char comp_def)
  have "unat (siphash 2 4 HEADER_MAP_KEY ?msg) mod 48 =
      finish_bits (core (fst (sip_blocks 2 (sip_init HEADER_MAP_KEY sip_default) (sip_pad ?msg))))"
    by (simp add: siphash_def finish_core Let_def)
  also have "\<dots> = slot_bits s"
    by (simp add: core_blocks [OF len] core_init slot_bits_def Let_def pad)
  finally show ?thesis
    by (simp add: header_hash_spec HEADER_MAP_SIZE_def unat_mod)
qed

lemma slots_0: "map slot_bits [''allow'', ''content-range'', ''authorization'', ''cache-control'', ''etag'', ''date''] = [0, 0, 2, 3, 3, 5]"
  by code_simp

lemma slots_1: "map slot_bits [''range'', ''www-authenticate'', ''host'', ''from'', ''accept-ranges'', ''proxy-authenticate''] = [4, 7, 8, 9, 10, 9]"
  by code_simp

lemma slots_2: "map slot_bits [''content-language'', ''if-match'', ''if-none-match'', ''proxy-authorization'', ''cookie'', ''accept-language''] = [12, 13, 13, 14, 16, 17]"
  by code_simp

lemma slots_3: "map slot_bits [''expires'', ''via'', ''content-length'', ''content-disposition'', ''if-unmodified-since'', ''server''] = [18, 17, 20, 21, 20, 22]"
  by code_simp

lemma slots_4: "map slot_bits [''vary'', ''strict-transport-security'', ''accept-charset'', ''age'', '':status'', ''link''] = [23, 25, 26, 27, 28, 28]"
  by code_simp

lemma slots_5: "map slot_bits [''location'', ''user-agent'', ''referer'', ''if-modified-since'', ''refresh'', ''content-encoding''] = [29, 30, 32, 33, 33, 35]"
  by code_simp

lemma slots_6: "map slot_bits [''retry-after'', ''content-location'', ''transfer-encoding'', ''accept-encoding'', ''access-control-allow-origin'', ''expect''] = [36, 37, 36, 39, 39, 40]"
  by code_simp

lemma slots_7: "map slot_bits [''if-range'', ''last-modified'', ''content-type'', ''set-cookie'', ''accept'', ''max-forwards''] = [42, 42, 44, 44, 46, 46]"
  by code_simp

section \<open>The search\<close>

lemma ascii_inject [simp]: "ascii s = ascii t \<longleftrightarrow> s = t"
proof -
  have "inj (of_char :: char \<Rightarrow> u8)"
  proof (rule injI)
    fix c d assume "(of_char c :: u8) = of_char d"
    then have "char_bits c = char_bits d" by (metis bits_of_char)
    then show "c = d" by (cases c; cases d) simp
  qed
  then show ?thesis by (simp add: ascii_def inj_map_eq_map)
qed

lemma length_HEADER_NAMES: "length HEADER_NAMES = 48"
  by (simp add: HEADER_NAMES_def)

lemma length_HEADER_MAP: "length HEADER_MAP = HEADER_MAP_SIZE"
  by (simp add: HEADER_MAP_def length_HEADER_NAMES HEADER_MAP_SIZE_def)

text \<open>Whatever the hash is, a slot found is a slot of the name.\<close>

lemma probe_sound:
  "probe header start is = Some k \<Longrightarrow> k < length HEADER_MAP \<and> fst (HEADER_MAP ! k) = header"
  by (induction "is")
    (auto simp: Let_def length_HEADER_MAP HEADER_MAP_SIZE_def split: if_splits)

text \<open>On the text of the names, a probe that the kernel can evaluate.\<close>

fun probe_text :: "string \<Rightarrow> (nat \<times> string) list \<Rightarrow> nat option" where
  "probe_text s [] = None"
| "probe_text s ((i, n) # ns) =
     (let k = min (min (length s) (length n)) 5
      in if take k s \<noteq> take k n then probe_text s ns else if n = s then Some i else None)"

definition probe_slots :: "nat \<Rightarrow> (nat \<times> string) list" where
  "probe_slots start = map (\<lambda>i. let k = (start + i) mod 48 in (k, fst (HEADER_NAMES ! k))) [0, 1, 2]"

lemma probe_probe_text:
  "probe (ascii s) start is =
     probe_text s (map (\<lambda>i. let k = (start + i) mod 48 in (k, fst (HEADER_NAMES ! k))) is)"
proof (induction "is")
  case (Cons i "is")
  let ?k = "(start + i) mod 48"
  have "?k < length HEADER_NAMES" by (simp add: length_HEADER_NAMES)
  then have name: "fst (HEADER_MAP ! ?k) = ascii (fst (HEADER_NAMES ! ?k))"
    by (simp add: HEADER_MAP_def split_beta)
  have "take n (ascii t) = ascii (take n t)" for n t by (simp add: ascii_def take_map)
  with Cons name show ?case
    by (simp add: Let_def HEADER_MAP_SIZE_def MAX_CHECK_LEN_def)
qed simp

fun index_where :: "('a \<Rightarrow> bool) \<Rightarrow> 'a list \<Rightarrow> nat option" where
  "index_where P [] = None"
| "index_where P (x # xs) = (if P x then Some 0 else map_option Suc (index_where P xs))"

lemma index_where_None: "index_where P xs = None \<longleftrightarrow> (\<forall>x\<in>set xs. \<not> P x)"
  by (induction xs) auto

lemma index_where_map: "index_where P (map f xs) = index_where (P \<circ> f) xs"
  by (induction xs) auto

lemma index_where_Some:
  "index_where P xs = Some i \<Longrightarrow> i < length xs \<and> P (xs ! i) \<and> (\<forall>j<i. \<not> P (xs ! j))"
proof (induction xs arbitrary: i)
  case (Cons x xs)
  then show ?case
    by (cases i) (auto simp: nth_Cons less_Suc_eq_0_disj split: if_splits nat.splits)
qed simp

lemma index_where_append:
  "index_where P (xs @ ys) =
     (case index_where P xs of Some i \<Rightarrow> Some i
      | None \<Rightarrow> map_option ((+) (length xs)) (index_where P ys))"
  by (induction xs) (auto simp: option.map_comp comp_def map_option_case split: option.splits)

text \<open>The entries of a name are a run of the table; only \<open>:status\<close> has several.\<close>

definition positions :: "string \<Rightarrow> nat list" where
  "positions n = map fst (filter (\<lambda>e. fst (snd e) = n) (enumerate 0 STATIC_TEXT))"

definition run_end :: "string \<Rightarrow> nat \<Rightarrow> nat" where
  "run_end n i = (if n = '':status'' then 14 else Suc i)"

lemma header_runs: "list_all (\<lambda>(n, i). positions n = [i..<run_end n i]) HEADER_NAMES"
  by code_simp

lemma header_ends:
  "list_all (\<lambda>(n, i). i < run_end n i \<and>
     (if snd (STATIC_TEXT ! i) = None then run_end n i = Suc i else run_end n i < 61)) HEADER_NAMES"
  by code_simp

lemma length_STATIC_TEXT [simp]: "length STATIC_TEXT = 61"
  by (simp add: STATIC_TEXT_def)

lemma nth_STATIC_TABLE:
  "j < 61 \<Longrightarrow> STATIC_TABLE ! j = (ascii (fst (STATIC_TEXT ! j)), map_option ascii (snd (STATIC_TEXT ! j)))"
  by (simp add: STATIC_TABLE_def static_entry_def split_beta)

lemma set_positions: "j \<in> set (positions n) \<longleftrightarrow> j < 61 \<and> fst (STATIC_TEXT ! j) = n"
  by (force simp: positions_def in_set_enumerate_eq image_iff)

lemma run_nth:
  "positions n = [i..<m] \<Longrightarrow> j < 61 \<Longrightarrow> fst (STATIC_TABLE ! j) = ascii n \<longleftrightarrow> i \<le> j \<and> j < m"
  using set_positions [of j n] by (auto simp: nth_STATIC_TABLE)

lemma run_end_le: "positions n = [i..<m] \<Longrightarrow> i < m \<Longrightarrow> m \<le> 61"
  using set_positions [of "m - 1" n] by auto

lemma index_where_outside:
  assumes "\<And>j. j < length xs \<Longrightarrow> P (xs ! j) \<Longrightarrow> i \<le> j \<and> j < m" "i < m" "m \<le> length xs"
  shows "index_where P xs = map_option ((+) i) (index_where P (drop i (take m xs)))"
proof -
  have "xs = take i xs @ drop i (take m xs) @ drop m xs"
    using assms by (metis append.assoc append_take_drop_id less_imp_le min.absorb1 take_take)
  then have "index_where P xs = index_where P (take i xs @ drop i (take m xs) @ drop m xs)"
    by (rule arg_cong)
  moreover have "index_where P (take i xs) = None"
    unfolding index_where_None using assms(1) by (fastforce simp: in_set_conv_nth)
  moreover have "index_where P (drop m xs) = None"
    unfolding index_where_None
  proof
    fix x assume "x \<in> set (drop m xs)"
    then obtain j where "j < length xs - m" "x = xs ! (m + j)" by (auto simp: in_set_conv_nth)
    then have "m + j < length xs" by arith
    with assms(1) [of "m + j"] \<open>x = xs ! (m + j)\<close> show "\<not> P x" by auto
  qed
  ultimately show ?thesis
    using assms by (auto simp: index_where_append split: option.splits)
qed

lemma run_index_where:
  assumes r: "positions n = [i..<m]" and i: "i < m" and P: "\<And>e. P e \<Longrightarrow> fst e = ascii n"
  shows "index_where P STATIC_TABLE =
    map_option ((+) i) (index_where P (drop i (take m STATIC_TABLE)))"
proof (rule index_where_outside)
  show "i \<le> j \<and> j < m" if "j < length STATIC_TABLE" "P (STATIC_TABLE ! j)" for j
    using run_nth [OF r, of j] P that by simp
qed (use i run_end_le [OF r] in simp_all)

lemma header_lengths: "list_all (\<lambda>(n, i). 0 < length n \<and> length n \<le> 27) HEADER_NAMES"
  by code_simp

lemma static_names:
  "list_all (\<lambda>(n, v). n \<in> {'':authority'', '':method'', '':path'', '':scheme''} \<or>
     n \<in> set (map fst HEADER_NAMES)) STATIC_TEXT"
  by code_simp

definition HEADER_SLOTS :: "nat list" where
  "HEADER_SLOTS = [0, 0, 2, 3, 3, 5, 4, 7, 8, 9, 10, 9, 12, 13, 13, 14, 16, 17, 18, 17, 20, 21, 20, 22, 23, 25, 26, 27, 28, 28, 29, 30, 32, 33, 33, 35, 36, 37, 36, 39, 39, 40, 42, 42, 44, 44, 46, 46]"

lemma header_slots: "map (\<lambda>e. slot_bits (fst e)) HEADER_NAMES = HEADER_SLOTS"
  using slots_0 slots_1 slots_2 slots_3 slots_4 slots_5 slots_6 slots_7
  by (simp only: HEADER_NAMES_def HEADER_SLOTS_def list.map fst_conv list.inject simp_thms)

lemma header_probes:
  "list_all (\<lambda>k. probe_text (fst (HEADER_NAMES ! k)) (probe_slots (HEADER_SLOTS ! k)) = Some k) [0..<48]"
  by code_simp

lemma find_index_complete:
  assumes "k < 48"
  shows "fst (find_index h (ascii (fst (HEADER_NAMES ! k)))) = Some k"
proof -
  let ?n = "fst (HEADER_NAMES ! k)"
  have "k < length HEADER_NAMES" using assms by (simp add: length_HEADER_NAMES)
  then have slot: "slot_bits ?n = HEADER_SLOTS ! k"
    using arg_cong [OF header_slots, of "\<lambda>xs. xs ! k"] by simp
  have "probe_text ?n (probe_slots (HEADER_SLOTS ! k)) = Some k"
    using header_probes assms by (simp add: list_all_iff)
  moreover have "[0..<MAX_PROBE] = [0, 1, 2]" by (simp add: MAX_PROBE_def upt_rec)
  ultimately show ?thesis
    by (simp only: find_index_def split_beta fst_conv header_slot probe_probe_text slot probe_slots_def)
qed

lemma find_index_iff:
  "fst (find_index h name) = Some k \<longleftrightarrow> k < 48 \<and> fst (HEADER_MAP ! k) = name"
proof
  assume "fst (find_index h name) = Some k"
  then show "k < 48 \<and> fst (HEADER_MAP ! k) = name"
    using probe_sound by (fastforce simp: find_index_def length_HEADER_MAP HEADER_MAP_SIZE_def split: prod.splits)
next
  assume *: "k < 48 \<and> fst (HEADER_MAP ! k) = name"
  then have "k < length HEADER_NAMES" by (simp add: length_HEADER_NAMES)
  with * have "name = ascii (fst (HEADER_NAMES ! k))" by (auto simp: HEADER_MAP_def split_beta)
  then show "fst (find_index h name) = Some k" using * find_index_complete by simp
qed

definition static_index :: "bytes \<Rightarrow> bytes \<Rightarrow> nat option" where
  "static_index name val =
     (if name \<in> fst ` set HEADER_MAP
      then (case index_where (\<lambda>e. e = (name, Some val)) STATIC_TABLE of
              Some i \<Rightarrow> Some (Suc i)
            | None \<Rightarrow> map_option Suc (index_where (\<lambda>e. fst e = name) STATIC_TABLE))
      else None)"

lemma value_loop_run:
  assumes "m < 61" "\<And>j. j < 61 \<Longrightarrow> fst (STATIC_TABLE ! j) = name \<longleftrightarrow> i \<le> j \<and> j < m"
  shows "i \<le> t \<Longrightarrow> t \<le> m \<Longrightarrow> value_loop name val first t =
    Some (case index_where (\<lambda>e. e = (name, Some val)) (drop t (take m STATIC_TABLE)) of
            Some j \<Rightarrow> t + j + 1 | None \<Rightarrow> first + 1)"
proof (induction "m - t" arbitrary: t)
  case 0
  then show ?case
    using assms by (auto simp: value_loop.simps [of _ _ _ t])
next
  case (Suc x)
  then have t: "t < m" by simp
  then have "t < length (take m STATIC_TABLE)" using assms(1) by simp
  from Cons_nth_drop_Suc [OF this, symmetric]
  have drop: "drop t (take m STATIC_TABLE) = STATIC_TABLE ! t # drop (Suc t) (take m STATIC_TABLE)"
    using t by simp
  have nm: "fst (STATIC_TABLE ! t) = name" using assms t Suc.prems by auto
  have IH: "value_loop name val first (Suc t) =
    Some (case index_where (\<lambda>e. e = (name, Some val)) (drop (Suc t) (take m STATIC_TABLE)) of
            Some j \<Rightarrow> Suc t + j + 1 | None \<Rightarrow> first + 1)"
    using Suc t by simp
  show ?case
    using nm t assms(1) IH
    by (auto simp: value_loop.simps [of _ _ _ t] drop prod_eq_iff split: option.splits)
qed

theorem get_static_header_index_spec:
  "fst (get_static_header_index h name val) = Some (static_index name val)"
proof (cases "name \<in> fst ` set HEADER_MAP")
  case False
  then have "fst (find_index h name) = None"
    using find_index_iff by (metis (no_types, lifting) image_eqI length_HEADER_MAP HEADER_MAP_SIZE_def
        nth_mem option.exhaust)
  with False show ?thesis
    by (auto simp: get_static_header_index_def static_index_def split: prod.splits option.splits)
next
  case True
  then obtain n i where ni: "(n, i) \<in> set HEADER_NAMES" and name: "name = ascii n"
    by (auto simp: HEADER_MAP_def)
  obtain k where k: "k < 48" "HEADER_NAMES ! k = (n, i)"
    using ni by (auto simp: in_set_conv_nth length_HEADER_NAMES)
  then have km: "HEADER_MAP ! k = (name, i)"
    by (simp add: HEADER_MAP_def name length_HEADER_NAMES)
  with k have found: "fst (find_index h name) = Some k" by (simp add: find_index_iff)
  have len: "0 < length name" "length name \<le> MAX_HEADER_LENGTH"
    using header_lengths ni by (auto simp: list_all_iff name MAX_HEADER_LENGTH_def)
  define m where "m = run_end n i"
  have r: "positions n = [i..<m]" and i: "i < m" and
    m: "if snd (STATIC_TEXT ! i) = None then m = Suc i else m < 61"
    using header_runs header_ends ni by (auto simp: list_all_iff m_def)
  note nth = run_nth [OF r, folded name]
  note i = i run_end_le [OF r i]
  have fi: "index_where (\<lambda>e. fst e = name) STATIC_TABLE = Some i"
  proof -
    have "index_where (\<lambda>e. fst e = name) (drop i (take m STATIC_TABLE)) = Some 0"
      using i nth [of i] by (subst Cons_nth_drop_Suc [symmetric]) auto
    then show ?thesis using run_index_where [OF r i(1), of "\<lambda>e. fst e = name"] name by simp
  qed
  have ex: "index_where (\<lambda>e. e = (name, Some val)) STATIC_TABLE =
      map_option ((+) i) (index_where (\<lambda>e. e = (name, Some val)) (drop i (take m STATIC_TABLE)))"
    using run_index_where [OF r i(1), of "\<lambda>e. e = (name, Some val)"] name by simp
  show ?thesis
  proof (cases "snd (STATIC_TABLE ! i)")
    case None
    then have "m = Suc i" using m i by (auto simp: nth_STATIC_TABLE split: if_splits)
    then have "index_where (\<lambda>e. e = (name, Some val)) (drop i (take m STATIC_TABLE)) = None"
      using None i by (subst Cons_nth_drop_Suc [symmetric]) (auto simp: prod_eq_iff)
    then show ?thesis
      using None found len True km ex fi
      by (auto simp: get_static_header_index_def static_index_def split: prod.splits)
  next
    case (Some v)
    then have "m < 61" using m i by (auto simp: nth_STATIC_TABLE split: if_splits)
    from value_loop_run [OF this nth, of i val i] i
    have "value_loop name val i i = Some (case index_where (\<lambda>e. e = (name, Some val))
        (drop i (take m STATIC_TABLE)) of Some j \<Rightarrow> i + j + 1 | None \<Rightarrow> i + 1)" by simp
    then show ?thesis
      using Some found len True km ex fi
      by (auto simp: get_static_header_index_def static_index_def split: prod.splits option.splits)
  qed
qed

end
