(* ===== verification/Connection.thy ===== *)
theory Connection
  imports Static_Index Frame_Settings
begin

text \<open>
  \<open>http/src/http2/context.rs\<close>, the \<open>Context\<close> record, and \<open>http/src/http2/mod.rs\<close>, the opening of an
  HTTP/2 connection: the client preface, the client's settings, the acknowledgement and the
  server's settings.

  The lemmas: a client that opens correctly gets its settings into the context, and exactly
  the two frames back (\<open>start_ok\<close>); a client that sends anything but the preface gets an
  error (\<open>start_wrong_preface\<close>, \<open>start_short_preface\<close>); no input makes the server panic, and an
  error leaves the writer untouched (\<open>start_error_silent\<close>).
\<close>

section \<open>The context\<close>

record h2_context =
  ctx_hash :: sip
  ctx_settings :: settings
  ctx_header_table :: header_table

definition context_new :: h2_context where
  "context_new =
     (let settings = settings_default;
          header_table =
            header_table_new (unat (setting_value (settings_get settings HeaderTableSize)))
      in \<lparr>ctx_hash = sip_default, ctx_settings = settings, ctx_header_table = header_table\<rparr>)"

section \<open>The start of a connection\<close>

definition PREFACE :: bytes where
  "PREFACE =
     [0x50, 0x52, 0x49, 0x20, 0x2a, 0x20, 0x48, 0x54, 0x54, 0x50, 0x2f, 0x32, 0x2e, 0x30, 0x0d, 0x0a,
      0x0d, 0x0a, 0x53, 0x4d, 0x0d, 0x0a, 0x0d, 0x0a]"

text \<open>The state is the reader and the writer; a step works on one of them.\<close>

fun on_fst :: "('r \<Rightarrow> ('e, 'a) rs \<times> 'r) \<Rightarrow> 'r \<times> 'w \<Rightarrow> ('e, 'a) rs \<times> 'r \<times> 'w" where
  "on_fst g (r, w) = (case g r of (x, r') \<Rightarrow> (x, r', w))"

text \<open>The handler between the pointer checks and the result; its errors are the messages.\<close>

definition start_connection ::
  "'r reader_fn \<Rightarrow> 'w writer_fn \<Rightarrow> settings \<Rightarrow> 'r \<times> 'w \<Rightarrow> (bytes, h2_context) rs \<times> 'r \<times> 'w" where
  "start_connection rd wr settings s =
     and_then (map_err (\<lambda>e. ascii ''Failed to read preface: '' @ display_io e)
                 (on_fst (read_array rd 24) s)) (\<lambda>preface s.
     if preface \<noteq> PREFACE then (Err (ascii ''Client preface is incorrect''), s)
     else
     and_then (map_err (\<lambda>e. ascii ''Failed to read client settings header: '' @ display_io_proto e)
                 (on_fst (read_header settings rd) s)) (\<lambda>header s.
     if h_frame_type header \<noteq> SETTINGS_TYPE
     then (Err (ascii ''Client frame is not a settings frame''), s)
     else
     and_then (map_err (\<lambda>e. ascii ''Failed to read client settings frame: '' @ display_io_proto e)
                 (on_fst (settings_read_frame rd header) s)) (\<lambda>frame s.
     case frame of
       Ack \<Rightarrow> (Err (ascii ''Failed to read client settings: Got ACK''), s)
     | Settings client_settings \<Rightarrow>
     and_then (map_err (\<lambda>e. ascii ''Failed to write ack: '' @ display_io e)
                 (on_snd (settings_write_frame wr Ack) s)) (\<lambda>_ s.
     let table = header_table_new (unat (setting_value (settings_get settings HeaderTableSize))) in
     and_then (map_err (\<lambda>e. ascii ''Failed to write server settings: '' @ display_io e)
                 (on_snd (settings_write_frame wr (Settings settings)) s)) (\<lambda>_ s.
     (Ok (context_new\<lparr>ctx_settings := client_settings, ctx_header_table := table\<rparr>), s))))))"

text \<open>The exported function; \<open>None\<close> is a panic, for an unusable pointer or a full buffer.\<close>

definition http_http2_start_connection ::
  "'r reader_fn \<Rightarrow> 'w writer_fn \<Rightarrow> 'r option \<Rightarrow> 'w option \<Rightarrow> settings \<Rightarrow> h2_context http_result option
    \<Rightarrow> ('r \<times> 'w \<times> h2_context http_result) option" where
  "http_http2_start_connection rd wr reader writer settings res =
     (case reader of None \<Rightarrow> None | Some r \<Rightarrow>
     (case writer of None \<Rightarrow> None | Some w \<Rightarrow>
     (case res of None \<Rightarrow> None | Some q \<Rightarrow>
       if \<not> is_sane (r_err q) then None
       else (case start_connection rd wr settings (r, w) of
               (Ok ctx, r', w') \<Rightarrow> map_option (\<lambda>q'. (r', w', q')) (set_ok q ctx)
             | (Err msg, r', w') \<Rightarrow> map_option (\<lambda>q'. (r', w', q')) (set_err q msg)
             | (Panic, r', w') \<Rightarrow> None))))"

section \<open>Facts\<close>

lemma PREFACE_text:
  "PREFACE = ascii (''PRI * HTTP/2.0'' @ [CHR 0x0D, CHR 0x0A, CHR 0x0D, CHR 0x0A] @ ''SM'' @
     [CHR 0x0D, CHR 0x0A, CHR 0x0D, CHR 0x0A])"
  by (simp add: PREFACE_def ascii_def)

lemma length_PREFACE [simp]: "length PREFACE = 24"
  by (simp add: PREFACE_def)

text \<open>A client that opens with the given settings.\<close>

definition client_opening :: "settings \<Rightarrow> bytes" where
  "client_opening cs =
     PREFACE @ header_wire (settings_header (of_nat (length (settings_payload cs))) False) @
     settings_payload cs"

text \<open>What the server answers: the acknowledgement first, then its own settings.\<close>

definition server_opening :: "settings \<Rightarrow> bytes" where
  "server_opening s =
     header_wire (settings_header 0 True) @
     header_wire (settings_header (of_nat (length (settings_payload s))) False) @ settings_payload s"

definition opened :: "settings \<Rightarrow> settings \<Rightarrow> h2_context" where
  "opened s cs =
     \<lparr>ctx_hash = sip_default, ctx_settings = cs,
      ctx_header_table = dyn_new (unat (setting_value (settings_get s HeaderTableSize)))\<rparr>"

lemma safe_step:
  "safe (\<lambda>_. True) x \<Longrightarrow> (\<And>a s. safe (\<lambda>_. True) (k a s)) \<Longrightarrow> safe (\<lambda>_. True) (and_then x k)"
  by (rule safe_bind)

text \<open>Reading integers, headers and settings from a well-behaved source never panics.\<close>

context byte_source
begin

lemma ints_safe:
  "safe (\<lambda>_. True) (read_u8 rd r)" "safe (\<lambda>_. True) (read_u16 rd r)"
  "safe (\<lambda>_. True) (read_u24 rd r)" "safe (\<lambda>_. True) (read_u32 rd r)"
  unfolding read_u8_def read_u16_def read_u24_def read_u32_def safe_map_ok
  by (simp_all add: safe_def read_array_no_panic)

lemma settings_loop_safe: "safe (\<lambda>_. True) (settings_loop rd k n s r)"
proof (induction "n - k" arbitrary: k s r rule: less_induct)
  case less
  show ?case
  proof (cases "k < n")
    case True
    have "safe (\<lambda>_. True) (settings_loop rd (k + 6) n s' r')" for s' r'
      using True by (intro less) simp
    then show ?thesis
      unfolding settings_loop.simps [of rd k] if_P [OF True]
      by (intro safe_step) (auto simp: ints_safe split: option.split)
  qed (simp add: settings_loop.simps)
qed

end

lemma parse_header_safe: "safe (\<lambda>_. True) (parse_header s bs)"
  unfolding parse_header_def by (auto intro!: safe_bind simp: slice.ints_safe)

context byte_source
begin

lemma read_header_safe: "safe (\<lambda>_. True) (read_header s rd r)"
  unfolding read_header_def
  using parse_header_safe [of s]
  by (intro safe_step, unfold safe_map_err) (simp_all add: safe_def read_array_no_panic)

lemma settings_check_safe: "safe (\<lambda>_. True) (settings_check s, r)"
  by (simp add: settings_check_def Let_def)

lemma settings_read_safe:
  "h_frame_type h = SETTINGS_TYPE \<Longrightarrow> safe (\<lambda>_. True) (settings_read_frame rd h r)"
  using settings_check_safe
  by (auto simp: settings_read_frame_def settings_loop_safe intro!: safe_step)

end

locale byte_duplex = byte_source rd pending + byte_sink wr sent
  for rd :: "'r reader_fn" and pending :: "'r \<Rightarrow> bytes"
    and wr :: "'w writer_fn" and sent :: "'w \<Rightarrow> bytes"
begin

lemma start_ok:
  assumes cs: "wf_settings cs" "settings_check cs = Ok (Settings cs)"
    and len: "length (settings_payload cs) \<le> unat (setting_value (settings_get s MaxFrameSize))"
    and p: "pending r = client_opening cs @ rest"
  shows "\<exists>r' w'. start_connection rd wr s (r, w) = (Ok (opened s cs), r', w') \<and>
    pending r' = rest \<and> sent w' = sent w @ server_opening s"
proof -
  let ?h = "settings_header (of_nat (length (settings_payload cs))) False"
  have wf: "wf_header ?h"
    using length_settings_payload [of cs]
    by (simp add: wf_header_def settings_header_def word_less_nat_alt settings_len)
  have fits: "\<not> setting_value (settings_get s MaxFrameSize) < h_frame_len ?h"
    using len by (simp add: settings_header_def word_less_nat_alt settings_len)
  obtain r1 where 1: "read_array rd 24 r = (Ok PREFACE, r1)"
    and p1: "pending r1 = header_wire ?h @ settings_payload cs @ rest"
    using read_array_next [of r PREFACE _ 24] p by (auto simp: client_opening_def)
  obtain r2 where 2: "read_header s rd r1 = (Ok ?h, r2)" and p2: "pending r2 = settings_payload cs @ rest"
    using yieldsD [OF read_header_wire [OF wf, of s] p1] fits by auto
  obtain r3 where 3: "settings_read_frame rd ?h r2 = (Ok (Settings cs), r3)" and p3: "pending r3 = rest"
    using yieldsD [OF settings_payload_yields [OF cs(1)] p2] cs(2) by auto
  obtain w1 where 4: "settings_write_frame wr Ack w = (Ok 9, w1)"
    and s1: "sent w1 = sent w @ header_wire (settings_header 0 True)"
    using emitsD [OF settings_ack_emits] by blast
  obtain w2 where 5: "settings_write_frame wr (Settings s) w1 = (Ok (9 + length (settings_payload s)), w2)"
    and s2: "sent w2 = sent w @ server_opening s"
    using emitsD [OF settings_write_emits, of s w1] s1 by (auto simp: server_opening_def)
  have "h_frame_type ?h = SETTINGS_TYPE" by (simp add: settings_header_def)
  then show ?thesis
    using p3 s2
    by (simp add: start_connection_def 1 2 3 4 5 Let_def opened_def context_new_def header_table_new_def)
qed

lemma start_wrong_preface:
  assumes "length pre = 24" "pre \<noteq> PREFACE" "pending r = pre @ rest"
  shows "\<exists>r'. start_connection rd wr s (r, w) =
    (Err (ascii ''Client preface is incorrect''), r', w) \<and> pending r' = rest"
proof -
  obtain r' where "read_array rd 24 r = (Ok pre, r')" "pending r' = rest"
    using read_array_next [of r pre rest 24] assms by auto
  with assms(2) show ?thesis by (simp add: start_connection_def)
qed

lemma start_short_preface:
  assumes "length (pending r) < 24"
  shows "\<exists>r'. start_connection rd wr s (r, w) =
    (Err (ascii ''Failed to read preface: '' @ display_io UnexpectedEof), r', w) \<and> pending r' = []"
proof -
  obtain r' where "read_array rd 24 r = (Err UnexpectedEof, r')" "pending r' = []"
    using read_array_eof [OF assms] by blast
  then show ?thesis by (simp add: start_connection_def)
qed

text \<open>No input makes the server panic, and an error leaves the writer untouched.\<close>

lemma start_error_silent:
  assumes "start_connection rd wr s (r, w) = (x, r', w')"
  shows "x \<noteq> Panic \<and> (\<forall>e. x = Err e \<longrightarrow> w' = w)"
proof -
  obtain x1 r1 where 1: "read_array rd 24 r = (x1, r1)" "x1 \<noteq> Panic"
    using read_array_no_panic by (metis prod.collapse)
  obtain x2 r2 where 2: "read_header s rd r1 = (x2, r2)" "x2 \<noteq> Panic"
    using read_header_safe by (metis prod.collapse safe_def)
  obtain w1 where 4: "settings_write_frame wr Ack w = (Ok 9, w1)"
    using emitsD [OF settings_ack_emits] by blast
  obtain w2 where 5: "settings_write_frame wr (Settings s) w1 = (Ok (9 + length (settings_payload s)), w2)"
    using emitsD [OF settings_write_emits, of s w1] by blast
  show ?thesis
  proof (cases x2)
    case (Ok h)
    obtain x3 r3 where 3: "settings_read_frame rd h r2 = (x3, r3)"
      "h_frame_type h = SETTINGS_TYPE \<Longrightarrow> x3 \<noteq> Panic"
      using settings_read_safe by (metis prod.collapse safe_def)
    with 1 2 4 5 assms Ok show ?thesis
      by (cases x1; cases x3) (auto simp: start_connection_def Let_def split: if_splits settings_frame.splits)
  qed (use 1 2 assms in \<open>(cases x1; auto simp: start_connection_def split: if_splits)+\<close>)
qed

end

interpretation duplex: byte_duplex slice_read id vec_write id
  by unfold_locales

end
