(* ===== verification/Frame_Trips.thy ===== *)
theory Frame_Trips
  imports Callback Frames_Fixed Frames_Data Connection
begin

text \<open>
  What the statements about whole frames share: reading a frame as the server does it, first
  the header, then the payload by the frame's own function (\<open>read_frame_of\<close>); the facts about
  flags and lengths of the headers that the writers build; and the concrete readers, writers
  and memory that the examples use.
\<close>

section \<open>Concrete readers, writers and memory\<close>

lemma slice_vec: "byte_source slice_read id" "byte_sink vec_write id"
  by (rule slice.byte_source_axioms vec.byte_sink_axioms)+

lemma default_checks:
  "settings_payload settings_default = []" "settings_check settings_default = Ok (Settings settings_default)"
  "setting_value (settings_get settings_default MaxFrameSize) = 16384"
  by (simp_all add: settings_payload_def ALL_names_def params_wire_def settings_check_def Let_def
      settings_get_default)

text \<open>An operating system that never runs out of memory.\<close>

definition roomy_os :: "nat \<Rightarrow> bytes option" where
  "roomy_os n = Some (replicate n 0)"

lemma roomy_buffer:
  "wf_buffer (empty_buffer roomy_os)" "n < 2 ^ 61 \<Longrightarrow> buffer_room (empty_buffer roomy_os) n"
proof -
  have os: "os_serves roomy_os isize_max" by (simp add: os_serves_def roomy_os_def)
  show "wf_buffer (empty_buffer roomy_os)" by (rule wf_empty_buffer [OF os])
  show "n < 2 ^ 61 \<Longrightarrow> buffer_room (empty_buffer roomy_os) n"
    using serves_internal_allocator [OF os]
    by (simp add: buffer_room_def serves_def empty_buffer_def isize_max_def usize_lim_def)
qed

section \<open>A header, then a payload\<close>

text \<open>Reading a frame that fits: its header, then its payload by the frame's own reader.\<close>

definition read_frame_of ::
  "settings \<Rightarrow> 'r reader_fn \<Rightarrow> (frame_header \<Rightarrow> 'r \<Rightarrow> (io_proto_error, 'a) rs \<times> 'r) \<Rightarrow> 'r
    \<Rightarrow> (io_proto_error, 'a) rs \<times> 'r" where
  "read_frame_of settings rd f r = and_then (read_header settings rd r) f"

lemma read_frame_of_yields:
  assumes "byte_source rd pending" and "wf_header h"
    and "\<not> h_frame_len h > setting_value (settings_get s MaxFrameSize)"
    and "yields pending (f h) xs x"
  shows "yields pending (read_frame_of s rd f) (header_wire h @ xs) x"
  unfolding read_frame_of_def
  by (rule yields_append)
    (use byte_source.read_header_wire [OF assms(1,2), of s] assms(3,4) in simp_all)

text \<open>The limit that the protocol puts under the maximum frame size.\<close>

definition protocol_settings :: "settings \<Rightarrow> bool" where
  "protocol_settings s \<longleftrightarrow> 2 ^ 14 \<le> unat (setting_value (settings_get s MaxFrameSize))"

lemma protocol_fits:
  "protocol_settings s \<Longrightarrow> unat n \<le> 2 ^ 14 \<Longrightarrow> \<not> n > setting_value (settings_get s MaxFrameSize)"
  by (simp add: protocol_settings_def word_less_nat_alt)

lemma protocol_default: "protocol_settings settings_default"
  by (simp add: protocol_settings_def default_checks)

section \<open>Flags and lengths\<close>

lemma pad_byte_len: "unat (1 + ucast (p :: u8) :: u32) = Suc (unat p)"
proof -
  have "(1 + ucast p :: u32) = of_nat (Suc (unat p))" by simp
  then show ?thesis using unat_u8_less [of p] by (simp only: unat_of_nat) simp
qed

lemma data_flags:
  "h_flags (data_header sid pad e n) AND DATA_PADDED \<noteq> 0 \<longleftrightarrow> pad \<noteq> None"
  "h_flags (data_header sid pad e n) AND DATA_END_STREAM \<noteq> 0 \<longleftrightarrow> e"
  by (cases pad; cases e; simp add: data_header_def DATA_PADDED_def DATA_END_STREAM_def)+

lemma headers_flags:
  "h_flags (headers_header sid pad prio fl n) AND FLAGS_PADDED \<noteq> 0 \<longleftrightarrow> pad \<noteq> None"
  "h_flags (headers_header sid pad prio fl n) AND FLAGS_PRIORITY \<noteq> 0 \<longleftrightarrow> prio \<noteq> None"
  "h_flags (headers_header sid pad prio fl n) AND (FLAGS_END_STREAM OR FLAGS_END_HEADERS) =
     fl AND (FLAGS_END_STREAM OR FLAGS_END_HEADERS)"
proof -
  let ?m = "FLAGS_END_HEADERS OR FLAGS_END_STREAM"
  have m: "(fl AND ?m) AND FLAGS_PADDED = 0" "(fl AND ?m) AND FLAGS_PRIORITY = 0"
    by (simp_all add: and.assoc FLAGS_PADDED_def FLAGS_PRIORITY_def FLAGS_END_HEADERS_def FLAGS_END_STREAM_def)
  note d = headers_header_def bit.conj_disj_distrib2
  show "h_flags (headers_header sid pad prio fl n) AND FLAGS_PADDED \<noteq> 0 \<longleftrightarrow> pad \<noteq> None"
    using m by (cases pad; cases prio) (simp_all add: d FLAGS_PADDED_def FLAGS_PRIORITY_def)
  show "h_flags (headers_header sid pad prio fl n) AND FLAGS_PRIORITY \<noteq> 0 \<longleftrightarrow> prio \<noteq> None"
    using m by (cases pad; cases prio) (simp_all add: d FLAGS_PADDED_def FLAGS_PRIORITY_def)
  show "h_flags (headers_header sid pad prio fl n) AND (FLAGS_END_STREAM OR FLAGS_END_HEADERS) =
     fl AND (FLAGS_END_STREAM OR FLAGS_END_HEADERS)"
    by (cases pad; cases prio)
      (simp_all add: d and.assoc FLAGS_PADDED_def FLAGS_PRIORITY_def FLAGS_END_HEADERS_def FLAGS_END_STREAM_def)
qed

lemma headers_len:
  assumes "headers_frame_len pad prio xs = Some n" and "length xs < 2 ^ 32"
  shows "unat n = length (pad_prefix pad) + length (priority_bytes prio) + length xs + pad_count pad"
  using assms
  by (auto simp: headers_frame_len_def unat_of_nat pad_byte_len priority_bytes_def
      split: option.splits dest!: add_u32_unat)

section \<open>The frames of fixed length\<close>

text \<open>A PING frame is read back as it was written.\<close>

lemma ping_roundtrip:
  assumes "byte_source rd pending" and "byte_sink wr sent" and "protocol_settings s"
  shows "emits sent (ping_write_frame wr f) (header_wire (ping_header f) @ to_be_bytes (ping_data f)) 17 \<and>
    yields pending (read_frame_of s rd (ping_read_frame rd))
      (header_wire (ping_header f) @ to_be_bytes (ping_data f)) (Ok f)"
proof
  have ack: "h_flags (ping_header f) AND PING_ACK \<noteq> 0 \<longleftrightarrow> ping_is_ack f"
    by (simp add: ping_header_def PING_ACK_def)
  have "yields pending (ping_read_frame rd (ping_header f)) (to_be_bytes (ping_data f)) (Ok f)"
    using byte_source.ping_read_yields [OF assms(1), of "ping_header f" "ping_data f", unfolded ack]
    by (cases f) (simp add: ping_header_def split del: if_split)
  then show "yields pending (read_frame_of s rd (ping_read_frame rd))
      (header_wire (ping_header f) @ to_be_bytes (ping_data f)) (Ok f)"
    by (intro read_frame_of_yields [OF assms(1)] protocol_fits [OF assms(3)])
      (simp_all add: ping_header_def wf_header_def)
qed (rule byte_sink.ping_write_emits [OF assms(2)])

text \<open>A RST_STREAM frame on a stream is read back as it was written.\<close>

lemma rst_stream_roundtrip:
  assumes "byte_source rd pending" and "byte_sink wr sent" and "protocol_settings s"
    and "0 < sid" and "sid < 0x80000000"
  shows "emits sent (rst_stream_write_frame wr sid code)
      (header_wire (rst_stream_header sid) @ to_be_bytes code) 13 \<and>
    yields pending (read_frame_of s rd (rst_stream_read_frame rd))
      (header_wire (rst_stream_header sid) @ to_be_bytes code) (Ok code)"
proof
  have "yields pending (rst_stream_read_frame rd (rst_stream_header sid)) (to_be_bytes code) (Ok code)"
    using byte_source.rst_stream_read_yields [OF assms(1), of "rst_stream_header sid"] assms(4)
    by (simp add: rst_stream_header_def)
  then show "yields pending (read_frame_of s rd (rst_stream_read_frame rd))
      (header_wire (rst_stream_header sid) @ to_be_bytes code) (Ok code)"
    by (intro read_frame_of_yields [OF assms(1)] protocol_fits [OF assms(3)])
      (simp_all add: rst_stream_header_def wf_header_def assms(5))
qed (rule byte_sink.rst_stream_write_emits [OF assms(2)])

text \<open>A WINDOW_UPDATE frame with a positive increment of 31 bits is read back; an increment of
  zero is a protocol error.\<close>

lemma window_update_roundtrip:
  assumes "byte_source rd pending" and "byte_sink wr sent" and "protocol_settings s"
    and "sid < 0x80000000" and "inc < 0x80000000"
  defines "wire \<equiv> header_wire (window_update_header sid) @ to_be_bytes inc"
  shows "emits sent (window_update_write_frame wr sid inc) wire 13 \<and>
    yields pending (read_frame_of s rd (window_update_read_frame rd)) wire
      (if inc = 0 then Err (Protocol ProtocolError)
       else Ok \<lparr>w_stream_id = sid, w_increment = inc\<rparr>)"
proof
  have "yields pending (window_update_read_frame rd (window_update_header sid)) (to_be_bytes inc)
      (if inc = 0 then Err (Protocol ProtocolError) else Ok \<lparr>w_stream_id = sid, w_increment = inc\<rparr>)"
    using byte_source.window_update_read_yields [OF assms(1), of "window_update_header sid" inc,
        unfolded and_31 [OF assms(5)]]
    by (simp add: window_update_header_def split del: if_split cong: if_cong)
  then show "yields pending (read_frame_of s rd (window_update_read_frame rd)) wire
      (if inc = 0 then Err (Protocol ProtocolError) else Ok \<lparr>w_stream_id = sid, w_increment = inc\<rparr>)"
    unfolding wire_def
    by (intro read_frame_of_yields [OF assms(1)] protocol_fits [OF assms(3)])
      (simp_all add: window_update_header_def wf_header_def assms(4))
qed (simp add: wire_def byte_sink.window_update_write_emits [OF assms(2)])

text \<open>A PRIORITY frame on another stream is read back; one that depends on itself is refused.\<close>

lemma priority_roundtrip:
  assumes "byte_source rd pending" and "byte_sink wr sent" and "protocol_settings s"
    and "0 < sid" and "sid < 0x80000000" and "p_stream_dep f < 0x80000000"
  defines "wire \<equiv> header_wire (priority_header sid) @ to_be_bytes (priority_dep f) @ [p_weight f]"
  shows "emits sent (priority_write_frame wr sid f) wire 14 \<and>
    (p_stream_dep f \<noteq> sid \<longrightarrow> yields pending (read_frame_of s rd (priority_read_frame rd)) wire (Ok f)) \<and>
    (p_stream_dep f = sid \<longrightarrow> yields pending (read_frame_of s rd (priority_read_frame rd))
      (header_wire (priority_header sid) @ to_be_bytes (priority_dep f)) (Err (Protocol ProtocolError)))"
proof (intro conjI impI)
  let ?h = "priority_header sid"
  have sid: "sid \<noteq> 0" using assms(4) by auto
  have low: "priority_dep f AND 0x7FFFFFFF = p_stream_dep f"
    and top: "priority_dep f AND 0x80000000 \<noteq> 0 \<longleftrightarrow> p_exclusive f"
    using dep_split [of "p_stream_dep f" "p_exclusive f"] assms(6)
    by (simp_all add: priority_dep_def and_31 if_distrib cong: if_cong)
  have h: "h_frame_type ?h = PRIORITY_TYPE" "h_stream_id ?h = sid" "h_frame_len ?h = 5"
    "wf_header ?h"
    using assms(5) by (simp_all add: priority_header_def wf_header_def)
  have fits: "\<not> h_frame_len ?h > setting_value (settings_get s MaxFrameSize)"
    by (rule protocol_fits [OF assms(3)]) (simp add: h)
  note read = read_frame_of_yields [OF assms(1) h(4) fits]
  { assume "p_stream_dep f \<noteq> sid"
    then have "yields pending (priority_read_frame rd ?h) (to_be_bytes (priority_dep f) @ [p_weight f]) (Ok f)"
      using byte_source.priority_read_yields [OF assms(1), of ?h "priority_dep f" "p_weight f"]
        low top h sid by (cases f) simp
    then show "yields pending (read_frame_of s rd (priority_read_frame rd)) wire (Ok f)"
      unfolding wire_def by (rule read) }
  assume "p_stream_dep f = sid"
  then have "yields pending (priority_read_frame rd ?h) (to_be_bytes (priority_dep f))
      (Err (Protocol ProtocolError))"
    using byte_source.priority_read_self [OF assms(1), of ?h "priority_dep f"] low h sid by simp
  then show "yields pending (read_frame_of s rd (priority_read_frame rd))
      (header_wire ?h @ to_be_bytes (priority_dep f)) (Err (Protocol ProtocolError))"
    by (rule read)
qed (simp add: wire_def byte_sink.priority_write_emits [OF assms(2)])

text \<open>A CONTINUATION frame appends its fragment to the block that is being collected.\<close>

lemma continuation_roundtrip:
  assumes "byte_source rd pending" and "byte_sink wr sent"
    and "length xs < 2 ^ 24" and "0 < sid" and "sid < 0x80000000"
    and "length xs \<le> unat (setting_value (settings_get s MaxFrameSize))"
    and "wf_buffer (c_data f)" and "buffer_room (c_data f) (b_len (c_data f) + length xs)"
    and "pending r = header_wire (continuation_header sid e xs) @ xs @ rest"
  shows "emits sent (continuation_write_frame wr sid e xs)
      (header_wire (continuation_header sid e xs) @ xs) (9 + length xs) \<and>
    (\<exists>r1 f' r2. read_header s rd r = (Ok (continuation_header sid e xs), r1) \<and>
       continuation_read_frame rd (continuation_header sid e xs) f r1 = (Ok (), (f', r2)) \<and>
       as_slice (c_data f') = as_slice (c_data f) @ xs \<and> c_is_end f' = e \<and> pending r2 = rest)"
proof
  let ?h = "continuation_header sid e xs"
  show "emits sent (continuation_write_frame wr sid e xs) (header_wire ?h @ xs) (9 + length xs)"
    by (rule byte_sink.continuation_write_emits [OF assms(2)])
  have len: "unat (h_frame_len ?h) = length xs"
    using assms(3) by (simp add: continuation_header_def unat_of_nat)
  have "wf_header ?h" using assms(3,5) len
    by (simp add: wf_header_def word_less_nat_alt) (simp add: continuation_header_def word_less_nat_alt)
  moreover have "\<not> h_frame_len ?h > setting_value (settings_get s MaxFrameSize)"
    using assms(6) len by (simp add: word_less_nat_alt)
  ultimately obtain r1 where 1: "read_header s rd r = (Ok ?h, r1)" and p1: "pending r1 = xs @ rest"
    using yieldsD [OF byte_source.read_header_wire [OF assms(1), of ?h s] assms(9)] by auto
  have e: "h_flags ?h AND FLAGS_END_HEADERS \<noteq> 0 \<longleftrightarrow> e"
    by (simp add: continuation_header_def FLAGS_END_HEADERS_def)
  show "\<exists>r1 f' r2. read_header s rd r = (Ok ?h, r1) \<and>
       continuation_read_frame rd ?h f r1 = (Ok (), (f', r2)) \<and>
       as_slice (c_data f') = as_slice (c_data f) @ xs \<and> c_is_end f' = e \<and> pending r2 = rest"
  proof (rule byte_source.continuation_read_ok [OF assms(1) _ _ len assms(7,8) p1])
    show "h_stream_id ?h \<noteq> 0" using assms(4) by (auto simp: continuation_header_def)
  qed (use 1 e in \<open>auto simp: continuation_header_def\<close>)
qed

text \<open>A HEADERS frame with any of its optional parts is read back: fragment, priority and flags.\<close>

lemma headers_roundtrip:
  assumes "byte_source rd pending" and "byte_sink wr sent"
    and "headers_frame_len pad prio xs = Some n" and "n < 0x1000000" and "length xs < 2 ^ 32"
    and "0 < sid" and "sid < 0x80000000" and "\<not> n > setting_value (settings_get s MaxFrameSize)"
    and "(case prio of None \<Rightarrow> 0 | Some (d, _, _) \<Rightarrow> d AND 0x7FFFFFFF) = dep" and "dep \<noteq> sid"
    and "wf_buffer (hf_data f)" and "buffer_room (hf_data f) (length xs)"
    and "pending r = header_wire (headers_header sid pad prio fl n) @ headers_payload pad prio xs @ rest"
  shows "emits sent (headers_write_frame wr sid pad prio fl xs)
      (header_wire (headers_header sid pad prio fl n) @ headers_payload pad prio xs)
      (9 + length (headers_payload pad prio xs)) \<and>
    (\<exists>r1 f' r2. read_header s rd r = (Ok (headers_header sid pad prio fl n), r1) \<and>
       headers_read_frame rd (headers_header sid pad prio fl n) f r1 = (Ok (), (f', r2)) \<and>
       as_slice (hf_data f') = xs \<and> hf_stream_dep f' = dep \<and>
       hf_exclusive f' = (case prio of None \<Rightarrow> False | Some (_, e, _) \<Rightarrow> e) \<and>
       hf_weight f' = (case prio of None \<Rightarrow> 16 | Some (_, _, wt) \<Rightarrow> wt) \<and>
       hf_end f' = fl AND (FLAGS_END_STREAM OR FLAGS_END_HEADERS) \<and> pending r2 = rest)"
proof
  let ?h = "headers_header sid pad prio fl n"
  show "emits sent (headers_write_frame wr sid pad prio fl xs) (header_wire ?h @ headers_payload pad prio xs)
      (9 + length (headers_payload pad prio xs))"
    by (rule byte_sink.headers_write_emits [OF assms(2,3)])
  have "wf_header ?h" using assms(4,7) by (simp add: wf_header_def headers_header_def)
  from yieldsD [OF byte_source.read_header_wire [OF assms(1) this, of s] assms(13)] assms(8)
  obtain r1 where 1: "read_header s rd r = (Ok ?h, r1)" and p1: "pending r1 = headers_payload pad prio xs @ rest"
    by (auto simp: headers_header_def)
  show "\<exists>r1 f' r2. read_header s rd r = (Ok ?h, r1) \<and>
       headers_read_frame rd ?h f r1 = (Ok (), (f', r2)) \<and>
       as_slice (hf_data f') = xs \<and> hf_stream_dep f' = dep \<and>
       hf_exclusive f' = (case prio of None \<Rightarrow> False | Some (_, e, _) \<Rightarrow> e) \<and>
       hf_weight f' = (case prio of None \<Rightarrow> 16 | Some (_, _, wt) \<Rightarrow> wt) \<and>
       hf_end f' = fl AND (FLAGS_END_STREAM OR FLAGS_END_HEADERS) \<and> pending r2 = rest"
  proof (rule byte_source.headers_read_ok [OF assms(1), of ?h pad prio xs dep f r1 "replicate (pad_count pad) 0" rest])
    show "pending r1 = pad_prefix pad @ priority_bytes prio @ xs @ replicate (pad_count pad) 0 @ rest"
      using p1 by (simp add: headers_payload_def)
    show "h_stream_id ?h \<noteq> 0" using assms(6) by (auto simp: headers_header_def)
  qed (use 1 assms(9-12) headers_len [OF assms(3,5)] headers_flags in \<open>auto simp: headers_header_def\<close>)
qed

end
