(* ===== verification/Header_List.thy ===== *)
theory Header_List
  imports Frame_Trips Hpack_Stream
begin

text \<open>
  A header list on its way from one peer to the other, through the operations of
  \<open>http/src/http2/frame/header.rs\<close>, \<open>continuation.rs\<close> and \<open>hpack/\<close> in the order in which the protocol
  uses them: a block is cut into fragments, sent in a HEADERS frame and CONTINUATION frames,
  collected in one buffer, and decoded field by field.

  The loops around the operations are the callers': \<open>write_block\<close> on the sending side,
  \<open>collects\<close> on the receiving side. The lemmas: the writer sends exactly the frames
  (\<open>write_block_emits\<close>); the reader of those frames has the block in its buffer, and stops after
  the frame with the end flag (\<open>collects_wire\<close>, \<open>block_collected\<close>); what is collected is determined
  by the input (\<open>collects_fun\<close>).
\<close>

section \<open>The sender\<close>

fun write_fragments :: "'w writer_fn \<Rightarrow> u32 \<Rightarrow> bytes list \<Rightarrow> 'w \<Rightarrow> (io_error, nat) rs \<times> 'w" where
  "write_fragments wr sid [] w = (Ok 0, w)"
| "write_fragments wr sid (xs # xss) w =
     and_then (continuation_write_frame wr sid (xss = []) xs w) (\<lambda>n w.
       map_ok ((+) n) (write_fragments wr sid xss w))"

definition block_flags :: "bool \<Rightarrow> bytes list \<Rightarrow> u8" where
  "block_flags end_stream xss =
     (if end_stream then FLAGS_END_STREAM else 0) OR (if xss = [] then FLAGS_END_HEADERS else 0)"

definition write_block ::
  "'w writer_fn \<Rightarrow> u32 \<Rightarrow> u8 option \<Rightarrow> (u32 \<times> bool \<times> u8) option \<Rightarrow> bool \<Rightarrow> bytes \<Rightarrow> bytes list \<Rightarrow> 'w
    \<Rightarrow> (io_error, nat) rs \<times> 'w" where
  "write_block wr sid pad prio end_stream xs xss w =
     and_then (headers_write_frame wr sid pad prio (block_flags end_stream xss) xs w) (\<lambda>n w.
       map_ok ((+) n) (write_fragments wr sid xss w))"

fun fragments_wire :: "u32 \<Rightarrow> bytes list \<Rightarrow> bytes" where
  "fragments_wire sid [] = []"
| "fragments_wire sid (xs # xss) =
     header_wire (continuation_header sid (xss = []) xs) @ xs @ fragments_wire sid xss"

definition block_frames ::
  "u32 \<Rightarrow> u8 option \<Rightarrow> (u32 \<times> bool \<times> u8) option \<Rightarrow> bool \<Rightarrow> u32 \<Rightarrow> bytes \<Rightarrow> bytes list \<Rightarrow> bytes" where
  "block_frames sid pad prio end_stream n xs xss =
     header_wire (headers_header sid pad prio (block_flags end_stream xss) n) @
     headers_payload pad prio xs @ fragments_wire sid xss"

context byte_sink
begin

lemma write_fragments_emits:
  "emits sent (write_fragments wr sid xss) (fragments_wire sid xss) (length (fragments_wire sid xss))"
proof (induction xss)
  case Nil
  then show ?case by (simp add: emits_return)
next
  case (Cons xs xss)
  have "emits sent (\<lambda>w. and_then (continuation_write_frame wr sid (xss = []) xs w) (\<lambda>n w.
      map_ok ((+) n) (write_fragments wr sid xss w)))
    ((header_wire (continuation_header sid (xss = []) xs) @ xs) @ fragments_wire sid xss)
    (length (fragments_wire sid (xs # xss)))"
    by (rule emits_bind [OF continuation_write_emits emits_map_ok [OF Cons.IH]])
      (simp_all add: length_header_wire)
  then show ?case by simp
qed

lemma write_block_emits:
  assumes "headers_frame_len pad prio xs = Some n"
  shows "emits sent (write_block wr sid pad prio e xs xss) (block_frames sid pad prio e n xs xss)
    (length (block_frames sid pad prio e n xs xss))"
  unfolding write_block_def [abs_def]
  by (rule emits_bind [OF headers_write_emits [OF assms] emits_map_ok [OF write_fragments_emits]])
    (simp_all add: block_frames_def length_header_wire)

end

section \<open>The receiver\<close>

text \<open>What is collected so far: the fragment of the HEADERS frame, and whether it was the last.\<close>

definition block_start :: "header_frame \<Rightarrow> continuation_frame" where
  "block_start f = \<lparr>c_data = hf_data f, c_is_end = (hf_end f AND FLAGS_END_HEADERS \<noteq> 0)\<rparr>"

inductive collects ::
  "settings \<Rightarrow> 'r reader_fn \<Rightarrow> continuation_frame \<times> 'r \<Rightarrow> continuation_frame \<times> 'r \<Rightarrow> bool" for s rd where
  finished: "c_is_end f \<Longrightarrow> collects s rd (f, r) (f, r)"
| next_frame: "\<not> c_is_end f \<Longrightarrow> read_header s rd r = (Ok h, r1) \<Longrightarrow> h_frame_type h = CONTINUATION_TYPE \<Longrightarrow>
    continuation_read_frame rd h f r1 = (Ok (), (f', r2)) \<Longrightarrow> collects s rd (f', r2) x \<Longrightarrow>
    collects s rd (f, r) x"

inductive_cases collectsE: "collects s rd (f, r) x"

lemma collects_fun: "collects s rd a x \<Longrightarrow> collects s rd a y \<Longrightarrow> x = y"
  by (induction rule: collects.induct) (erule collectsE; auto)+

definition fits :: "settings \<Rightarrow> bytes \<Rightarrow> bool" where
  "fits s xs \<longleftrightarrow> length xs < 2 ^ 24 \<and> length xs \<le> unat (setting_value (settings_get s MaxFrameSize))"

context byte_source
begin

lemma collects_wire:
  assumes "0 < sid" and "sid < 0x80000000" and "list_all (fits s) xss"
    and "usable A (c_data f)" and "c_is_end f \<longleftrightarrow> xss = []"
    and "buffer_room (c_data f) (length (as_slice (c_data f)) + length (concat xss))"
    and "pending r = fragments_wire sid xss @ rest"
  shows "\<exists>f' r'. collects s rd (f, r) (f', r') \<and> as_slice (c_data f') = as_slice (c_data f) @ concat xss \<and>
    usable A (c_data f') \<and> pending r' = rest"
  using assms(3-7)
proof (induction xss arbitrary: f r)
  case Nil
  then show ?case by (intro exI [of _ f] exI [of _ r]) (simp add: finished)
next
  case (Cons xs xss)
  let ?h = "continuation_header sid (xss = []) xs"
  have len: "unat (h_frame_len ?h) = length xs" and xs: "fits s xs"
    using Cons.prems(1) by (simp_all add: continuation_header_def fits_def unat_of_nat)
  have "wf_header ?h" using xs len assms(2)
    by (simp add: wf_header_def word_less_nat_alt fits_def) (simp add: continuation_header_def word_less_nat_alt)
  from yieldsD [OF read_header_wire [OF this, of s], of r "xs @ fragments_wire sid xss @ rest"] Cons.prems(5) xs len
  obtain r1 where 1: "read_header s rd r = (Ok ?h, r1)" and p1: "pending r1 = xs @ fragments_wire sid xss @ rest"
    by (auto simp: fits_def word_less_nat_alt)
  have wf: "wf_buffer (c_data f)" using Cons.prems(2) by (simp add: usable_def)
  have room: "buffer_room (c_data f) (b_len (c_data f) + length xs)"
    by (rule buffer_room_mono [OF Cons.prems(4)]) (simp add: wf_length_slice [OF wf])
  have h: "h_frame_type ?h = CONTINUATION_TYPE" "h_stream_id ?h \<noteq> 0"
    and e: "h_flags ?h AND FLAGS_END_HEADERS \<noteq> 0 \<longleftrightarrow> xss = []"
    using assms(1) by (auto simp: continuation_header_def FLAGS_END_HEADERS_def)
  obtain f1 r2 where 2: "continuation_read_frame rd ?h f r1 = (Ok (), (f1, r2))"
    and f1: "as_slice (c_data f1) = as_slice (c_data f) @ xs" "c_is_end f1 \<longleftrightarrow> xss = []"
    and p2: "pending r2 = fragments_wire sid xss @ rest"
    by (rule continuation_read_ok [OF h len wf room p1]) (use e in auto)
  have "safe (\<lambda>(f, r). usable A (c_data f)) (continuation_read_frame rd ?h f r1)"
    using continuation_read_safe [OF h(1) Cons.prems(2)] room len by simp
  then have A: "usable A (c_data f1)" by (simp add: 2 safe_def)
  have "b_alloc (c_data f1) = b_alloc (c_data f)" using A Cons.prems(2) by (simp add: usable_def)
  then have "buffer_room (c_data f1) (length (as_slice (c_data f1)) + length (concat xss))"
    using Cons.prems(4) by (simp add: buffer_room_def f1(1) add.assoc)
  from Cons.IH [OF _ A f1(2) this p2] Cons.prems(1) obtain f' r' where
    "collects s rd (f1, r2) (f', r')" "as_slice (c_data f') = as_slice (c_data f1) @ concat xss"
    "usable A (c_data f')" "pending r' = rest" by auto
  moreover from this(1) have "collects s rd (f, r) (f', r')"
    using Cons.prems(3) by (intro next_frame [OF _ 1 h(1) 2]) simp_all
  ultimately show ?case by (auto simp: f1(1))
qed

lemma block_collected:
  assumes "headers_frame_len pad prio xs = Some n" and "n < 0x1000000" and "length xs < 2 ^ 32"
    and "0 < sid" and "sid < 0x80000000" and "\<not> n > setting_value (settings_get s MaxFrameSize)"
    and "(case prio of None \<Rightarrow> 0 | Some (d, _, _) \<Rightarrow> d AND 0x7FFFFFFF) \<noteq> sid" and "list_all (fits s) xss"
    and "usable A (hf_data f)" and "buffer_room (hf_data f) (b_len (hf_data f) + length (concat (xs # xss)) + unat n)"
    and "pending r = block_frames sid pad prio e n xs xss @ rest"
  obtains h r1 f1 r2 f2 r3 where "read_header s rd r = (Ok h, r1)" and "h_frame_type h = HEADERS_TYPE"
    and "h_stream_id h = sid" and "headers_read_frame rd h f r1 = (Ok (), (f1, r2))"
    and "hf_end f1 AND FLAGS_END_STREAM \<noteq> 0 \<longleftrightarrow> e" and "collects s rd (block_start f1, r2) (f2, r3)"
    and "as_slice (c_data f2) = concat (xs # xss)" and "usable A (c_data f2)" and "pending r3 = rest"
proof -
  let ?fl = "block_flags e xss"
  let ?h = "headers_header sid pad prio ?fl n"
  have "wf_header ?h" using assms(2,5) by (simp add: wf_header_def headers_header_def)
  from yieldsD [OF read_header_wire [OF this, of s], of r] assms(6,11)
  obtain r1 where 1: "read_header s rd r = (Ok ?h, r1)"
    and p1: "pending r1 = headers_payload pad prio xs @ fragments_wire sid xss @ rest"
    by (auto simp: headers_header_def block_frames_def)
  have h: "h_frame_type ?h = HEADERS_TYPE" "h_stream_id ?h \<noteq> 0"
    using assms(4) by (auto simp: headers_header_def)
  have wf: "wf_buffer (hf_data f)" using assms(9) by (simp add: usable_def)
  have room: "buffer_room (hf_data f) (length xs)" "buffer_room (hf_data f) (unat (h_frame_len ?h))"
    by (rule buffer_room_mono [OF assms(10)]; simp add: headers_header_def)+
  from p1 have p: "pending r1 = pad_prefix pad @ priority_bytes prio @ xs @ replicate (pad_count pad) 0 @
      fragments_wire sid xss @ rest" by (simp add: headers_payload_def)
  obtain f1 r2 where 2: "headers_read_frame rd ?h f r1 = (Ok (), (f1, r2))"
    and f1: "as_slice (hf_data f1) = xs" "hf_end f1 = h_flags ?h AND (FLAGS_END_STREAM OR FLAGS_END_HEADERS)"
    and p2: "pending r2 = fragments_wire sid xss @ rest"
    by (rule headers_read_ok [OF h _ _ _ refl _ wf room(1) p])
      (use assms(7) headers_len [OF assms(1,3)] headers_flags in \<open>auto simp: headers_header_def\<close>)
  have "hf_end f1 = block_flags e xss AND (FLAGS_END_STREAM OR FLAGS_END_HEADERS)"
    by (simp only: f1(2) headers_flags(3))
  then have fl: "hf_end f1 AND FLAGS_END_HEADERS \<noteq> 0 \<longleftrightarrow> xss = []" "hf_end f1 AND FLAGS_END_STREAM \<noteq> 0 \<longleftrightarrow> e"
    by (simp_all add: block_flags_def FLAGS_END_STREAM_def FLAGS_END_HEADERS_def)
  have "safe (\<lambda>(f, r). usable A (hf_data f)) (headers_read_frame rd ?h f r1)"
    using headers_read_safe [OF h(1) assms(9)] room(2) by simp
  then have A: "usable A (hf_data f1)" by (simp add: 2 safe_def)
  have "b_alloc (hf_data f1) = b_alloc (hf_data f)" using A assms(9) by (simp add: usable_def)
  then have "buffer_room (hf_data f1) (length (as_slice (hf_data f1)) + length (concat xss))"
    using buffer_room_mono [OF assms(10), of "length xs + length (concat xss)"] by (simp add: buffer_room_def f1(1))
  with collects_wire [OF assms(4,5,8), of A "block_start f1" r2 rest] A fl(1) p2 obtain f2 r3 where
    "collects s rd (block_start f1, r2) (f2, r3)" "as_slice (c_data f2) = xs @ concat xss"
    "usable A (c_data f2)" "pending r3 = rest" by (auto simp: block_start_def f1(1))
  then show thesis by (intro that [OF 1 h(1) _ 2 fl(2)]) (simp_all add: headers_header_def)
qed

end

end
