(* ===== verification/Std_Text.thy ===== *)
theory Std_Text
  imports Prelude
begin

text \<open>
  What the HTTP/1.1 half uses of Rust's strings, on their bytes: validity as UTF-8, trimming,
  splitting, prefixes and suffixes, lower case, and the parsing and printing of numbers. The
  lemmas say what they do on ASCII text, and that a printed number is parsed back.
\<close>

section \<open>UTF-8\<close>

definition cont_byte :: "u8 \<Rightarrow> bool" where
  "cont_byte b \<longleftrightarrow> 0x80 \<le> b \<and> b \<le> 0xBF"

definition lead_3 :: "u8 \<Rightarrow> u8 \<Rightarrow> bool" where
  "lead_3 a b \<longleftrightarrow>
     (a = 0xE0 \<and> 0xA0 \<le> b \<and> b \<le> 0xBF) \<or> (0xE1 \<le> a \<and> a \<le> 0xEC \<and> cont_byte b) \<or>
     (a = 0xED \<and> 0x80 \<le> b \<and> b \<le> 0x9F) \<or> (0xEE \<le> a \<and> a \<le> 0xEF \<and> cont_byte b)"

definition lead_4 :: "u8 \<Rightarrow> u8 \<Rightarrow> bool" where
  "lead_4 a b \<longleftrightarrow>
     (a = 0xF0 \<and> 0x90 \<le> b \<and> b \<le> 0xBF) \<or> (0xF1 \<le> a \<and> a \<le> 0xF3 \<and> cont_byte b) \<or>
     (a = 0xF4 \<and> 0x80 \<le> b \<and> b \<le> 0x8F)"

text \<open>\<open>str::from_utf8\<close> accepts exactly these sequences.\<close>

fun utf8_valid :: "bytes \<Rightarrow> bool" where
  "utf8_valid [] = True"
| "utf8_valid (a # xs) =
     (if a < 0x80 then utf8_valid xs
      else (case xs of
              [] \<Rightarrow> False
            | b # ys \<Rightarrow>
                if 0xC2 \<le> a \<and> a \<le> 0xDF then cont_byte b \<and> utf8_valid ys
                else (case ys of
                        [] \<Rightarrow> False
                      | c # zs \<Rightarrow>
                          if lead_3 a b then cont_byte c \<and> utf8_valid zs
                          else (case zs of
                                  [] \<Rightarrow> False
                                | d # ws \<Rightarrow>
                                    lead_4 a b \<and> cont_byte c \<and> cont_byte d \<and> utf8_valid ws))))"

definition is_ascii :: "bytes \<Rightarrow> bool" where
  "is_ascii xs \<longleftrightarrow> list_all (\<lambda>b. b < 0x80) xs"

lemma is_ascii_simps [simp]:
  "is_ascii []" "is_ascii (x # xs) \<longleftrightarrow> x < 0x80 \<and> is_ascii xs"
  "is_ascii (xs @ ys) \<longleftrightarrow> is_ascii xs \<and> is_ascii ys"
  by (simp_all add: is_ascii_def)

lemma utf8_ascii: "is_ascii xs \<Longrightarrow> utf8_valid xs"
  by (induction xs) simp_all

section \<open>Trimming\<close>

text \<open>The encodings of the characters with \<open>char::is_whitespace\<close>.\<close>

definition WHITE_SPACE :: "bytes list" where
  "WHITE_SPACE =
     [[0x09], [0x0A], [0x0B], [0x0C], [0x0D], [0x20], [0xC2, 0x85], [0xC2, 0xA0], [0xE1, 0x9A, 0x80],
      [0xE2, 0x80, 0x80], [0xE2, 0x80, 0x81], [0xE2, 0x80, 0x82], [0xE2, 0x80, 0x83],
      [0xE2, 0x80, 0x84], [0xE2, 0x80, 0x85], [0xE2, 0x80, 0x86], [0xE2, 0x80, 0x87],
      [0xE2, 0x80, 0x88], [0xE2, 0x80, 0x89], [0xE2, 0x80, 0x8A], [0xE2, 0x80, 0xA8],
      [0xE2, 0x80, 0xA9], [0xE2, 0x80, 0xAF], [0xE2, 0x81, 0x9F], [0xE3, 0x80, 0x80]]"

definition strip_suffix :: "bytes \<Rightarrow> bytes \<Rightarrow> bytes option" where
  "strip_suffix w s =
     (if length w \<le> length s \<and> drop (length s - length w) s = w
      then Some (take (length s - length w) s) else None)"

definition strip_prefix :: "bytes \<Rightarrow> bytes \<Rightarrow> bytes option" where
  "strip_prefix w s = (if take (length w) s = w then Some (drop (length w) s) else None)"

lemma strip_suffix_iff: "strip_suffix w s = Some t \<longleftrightarrow> s = t @ w"
proof
  assume "strip_suffix w s = Some t"
  then have "drop (length s - length w) s = w" "t = take (length s - length w) s"
    by (auto simp: strip_suffix_def split: if_splits)
  then show "s = t @ w" by (metis append_take_drop_id)
qed (simp add: strip_suffix_def)

lemma strip_prefix_iff: "strip_prefix w s = Some t \<longleftrightarrow> s = w @ t"
proof
  assume "strip_prefix w s = Some t"
  then have "take (length w) s = w" "t = drop (length w) s"
    by (auto simp: strip_prefix_def split: if_splits)
  then show "s = w @ t" by (metis append_take_drop_id)
qed (simp add: strip_prefix_def)

text \<open>\<open>strip_suffix(w).unwrap_or(s)\<close>\<close>

definition without_suffix :: "bytes \<Rightarrow> bytes \<Rightarrow> bytes" where
  "without_suffix w s = (case strip_suffix w s of None \<Rightarrow> s | Some t \<Rightarrow> t)"

lemma without_suffix_append [simp]: "without_suffix w (s @ w) = s"
  by (simp add: without_suffix_def strip_suffix_def)

lemma without_suffix_other: "strip_suffix w s = None \<Longrightarrow> without_suffix w s = s"
  by (simp add: without_suffix_def)

lemma strip_suffix_last: "s = [] \<or> last s \<noteq> b \<Longrightarrow> strip_suffix [b] s = None"
  by (cases "strip_suffix [b] s") (auto simp: strip_suffix_iff)

text \<open>\<open>str::trim_end\<close>: a character at the end of a valid string is one of these encodings exactly
  when the string ends with its bytes.\<close>

function trim_end :: "bytes \<Rightarrow> bytes" where
  "trim_end s =
     (case List.find (\<lambda>w. strip_suffix w s \<noteq> None) WHITE_SPACE of
        None \<Rightarrow> s
      | Some w \<Rightarrow> trim_end (take (length s - length w) s))"
  by pat_completeness auto
termination
proof (relation "measure length")
  fix s w assume "List.find (\<lambda>w. strip_suffix w s \<noteq> None) WHITE_SPACE = Some w"
  then have "w \<in> set WHITE_SPACE" "strip_suffix w s \<noteq> None" by (auto simp: find_Some_iff)
  then have "w \<noteq> []" "length w \<le> length s"
    by (auto simp: WHITE_SPACE_def strip_suffix_def split: if_splits)
  then show "(take (length s - length w) s, s) \<in> measure length"
    by (cases w; cases s) auto
qed simp

declare trim_end.simps [simp del]

lemma trim_end_idle:
  assumes "\<forall>w\<in>set WHITE_SPACE. strip_suffix w s = None"
  shows "trim_end s = s"
  using assms by (subst trim_end.simps) (simp add: find_None_iff [THEN iffD2])

text \<open>The last byte of every white space character.\<close>

definition white_ends :: "u8 list" where
  "white_ends = map last WHITE_SPACE"

lemma trim_end_solid:
  assumes "s = [] \<or> last s \<notin> set white_ends"
  shows "trim_end s = s"
proof (rule trim_end_idle, rule ballI)
  fix w assume w: "w \<in> set WHITE_SPACE"
  then have "w \<noteq> []" "last w \<in> set white_ends" by (auto simp: WHITE_SPACE_def white_ends_def)
  then show "strip_suffix w s = None"
    using assms by (cases "strip_suffix w s") (auto simp: strip_suffix_iff)
qed

text \<open>One white space byte of ASCII at the end goes.\<close>

lemma find_unique:
  assumes "x \<in> set xs" and "P x" and "\<And>y. y \<in> set xs \<Longrightarrow> P y \<Longrightarrow> y = x"
  shows "List.find P xs = Some x"
proof (cases "List.find P xs")
  case None
  with assms(1,2) show ?thesis by (auto simp: find_None_iff)
next
  case (Some y)
  then have "y \<in> set xs" "P y" by (auto simp: find_Some_iff)
  with assms(3) Some show ?thesis by blast
qed

lemma white_ascii:
  assumes "b \<in> {0x09, 0x0A, 0x0B, 0x0C, 0x0D, 0x20}"
  shows "[b] \<in> set WHITE_SPACE" and "w \<in> set WHITE_SPACE \<Longrightarrow> last w = b \<Longrightarrow> w = [b]"
  using assms by (auto simp: WHITE_SPACE_def)

lemma trim_end_step:
  assumes "b \<in> {0x09, 0x0A, 0x0B, 0x0C, 0x0D, 0x20}"
  shows "trim_end (s @ [b]) = trim_end s"
proof -
  have "List.find (\<lambda>w. strip_suffix w (s @ [b]) \<noteq> None) WHITE_SPACE = Some [b]"
  proof (rule find_unique)
    fix w assume w: "w \<in> set WHITE_SPACE" and "strip_suffix w (s @ [b]) \<noteq> None"
    then obtain t where "s @ [b] = t @ w" by (auto simp: strip_suffix_iff)
    then have "last (s @ [b]) = last (t @ w)" by simp
    moreover have "w \<noteq> []" using w by (auto simp: WHITE_SPACE_def)
    ultimately show "w = [b]" using white_ascii(2) [OF assms w] by simp
  qed (use white_ascii(1) [OF assms] in \<open>simp_all add: strip_suffix_def\<close>)
  then show ?thesis by (simp add: trim_end.simps [of "s @ [b]"])
qed

definition CRLF :: bytes where "CRLF = [0x0D, 0x0A]"

section \<open>Splitting\<close>

text \<open>\<open>str::split_once\<close> with a pattern of one ASCII character.\<close>

definition split_once :: "u8 \<Rightarrow> bytes \<Rightarrow> (bytes \<times> bytes) option" where
  "split_once c s =
     (case dropWhile (\<lambda>b. b \<noteq> c) s of [] \<Rightarrow> None | _ # rest \<Rightarrow> Some (takeWhile (\<lambda>b. b \<noteq> c) s, rest))"

lemma split_once_append [simp]: "c \<notin> set s \<Longrightarrow> split_once c (s @ c # t) = Some (s, t)"
proof -
  assume "c \<notin> set s"
  then have "dropWhile (\<lambda>b. b \<noteq> c) (s @ c # t) = c # t" "takeWhile (\<lambda>b. b \<noteq> c) (s @ c # t) = s"
    by (subst dropWhile_append2 takeWhile_append2; auto)+
  then show ?thesis by (simp add: split_once_def)
qed

lemma split_once_None: "split_once c s = None \<longleftrightarrow> c \<notin> set s"
proof -
  have "split_once c s = None \<longleftrightarrow> dropWhile (\<lambda>b. b \<noteq> c) s = []"
    unfolding split_once_def by (split list.split) auto
  then show ?thesis by (auto simp: dropWhile_eq_Nil_conv)
qed

lemma split_onceD: "split_once c s = Some (a, b) \<Longrightarrow> s = a @ c # b \<and> c \<notin> set a"
proof -
  assume s: "split_once c s = Some (a, b)"
  then obtain x where d: "dropWhile (\<lambda>b. b \<noteq> c) s = x # b" and a: "a = takeWhile (\<lambda>b. b \<noteq> c) s"
    by (auto simp: split_once_def split: list.splits)
  from d have "x = c" using hd_dropWhile [of "\<lambda>b. b \<noteq> c" s] by auto
  with a d show ?thesis
    by (metis takeWhile_dropWhile_id set_takeWhileD)
qed

text \<open>\<open>str::splitn\<close>: at most \<open>n\<close> pieces, the last one unsplit.\<close>

fun splitn :: "nat \<Rightarrow> u8 \<Rightarrow> bytes \<Rightarrow> bytes list" where
  "splitn 0 c s = []"
| "splitn (Suc 0) c s = [s]"
| "splitn (Suc (Suc n)) c s =
     (case split_once c s of None \<Rightarrow> [s] | Some (a, b) \<Rightarrow> a # splitn (Suc n) c b)"

text \<open>\<open>iter().position(|&v| v == c)\<close>\<close>

definition position :: "u8 \<Rightarrow> bytes \<Rightarrow> nat option" where
  "position c s = (if c \<in> set s then Some (length (takeWhile (\<lambda>b. b \<noteq> c) s)) else None)"

lemma position_append [simp]: "c \<notin> set s \<Longrightarrow> position c (s @ c # t) = Some (length s)"
proof -
  assume "c \<notin> set s"
  then have "takeWhile (\<lambda>b. b \<noteq> c) (s @ c # t) = s" by (subst takeWhile_append2) auto
  then show ?thesis by (simp add: position_def)
qed

section \<open>ASCII case and white space\<close>

definition lower_byte :: "u8 \<Rightarrow> u8" where
  "lower_byte b = (if 0x41 \<le> b \<and> b \<le> 0x5A then b + 32 else b)"

definition to_ascii_lowercase :: "bytes \<Rightarrow> bytes" where
  "to_ascii_lowercase s = map lower_byte s"

lemma lower_byte_idem [simp]: "lower_byte (lower_byte b) = lower_byte b"
proof (cases "0x41 \<le> b \<and> b \<le> 0x5A")
  case True
  then have "unat (b + 32) = unat b + 32" by (subst unat_add_lem [THEN iffD1]) (auto simp: word_le_nat_alt)
  with True show ?thesis by (auto simp: lower_byte_def word_le_nat_alt)
qed (simp add: lower_byte_def)

lemma lowercase_idem [simp]: "to_ascii_lowercase (to_ascii_lowercase s) = to_ascii_lowercase s"
  by (simp add: to_ascii_lowercase_def)

lemma lowercase_simps [simp]:
  "to_ascii_lowercase [] = []" "to_ascii_lowercase s = [] \<longleftrightarrow> s = []"
  "length (to_ascii_lowercase s) = length s"
  by (simp_all add: to_ascii_lowercase_def)

definition ascii_space :: "u8 \<Rightarrow> bool" where
  "ascii_space b \<longleftrightarrow> b \<in> {0x09, 0x0A, 0x0C, 0x0D, 0x20}"

definition trim_ascii_start :: "bytes \<Rightarrow> bytes" where
  "trim_ascii_start s = dropWhile ascii_space s"

lemma trim_ascii_start_solid: "s = [] \<or> \<not> ascii_space (hd s) \<Longrightarrow> trim_ascii_start s = s"
  by (cases s) (simp_all add: trim_ascii_start_def)

section \<open>Numbers\<close>

datatype parse_int_error = Empty_Input | Invalid_Digit | Pos_Overflow

fun display_parse_int_error :: "parse_int_error \<Rightarrow> bytes" where
  "display_parse_int_error Empty_Input = ascii ''cannot parse integer from empty string''"
| "display_parse_int_error Invalid_Digit = ascii ''invalid digit found in string''"
| "display_parse_int_error Pos_Overflow = ascii ''number too large to fit in target type''"

definition to_digit :: "nat \<Rightarrow> u8 \<Rightarrow> nat option" where
  "to_digit radix c =
     (let v = (if 0x30 \<le> c \<and> c \<le> 0x39 then unat c - 0x30
               else if 0x41 \<le> c \<and> c \<le> 0x5A then unat c - 0x41 + 10
               else if 0x61 \<le> c \<and> c \<le> 0x7A then unat c - 0x61 + 10
               else radix)
      in if v < radix then Some v else None)"

fun digits_loop :: "nat \<Rightarrow> nat \<Rightarrow> bytes \<Rightarrow> parse_int_error + nat" where
  "digits_loop radix acc [] = Inr acc"
| "digits_loop radix acc (c # cs) =
     (case to_digit radix c of
        None \<Rightarrow> Inl Invalid_Digit
      | Some x \<Rightarrow>
          if acc * radix + x \<ge> usize_lim then Inl Pos_Overflow
          else digits_loop radix (acc * radix + x) cs)"

text \<open>\<open>usize::from_str_radix\<close>; a leading plus is accepted, a minus is no digit.\<close>

definition from_str_radix :: "nat \<Rightarrow> bytes \<Rightarrow> parse_int_error + nat" where
  "from_str_radix radix s =
     (if s = [] then Inl Empty_Input
      else if s = [0x2B] \<or> s = [0x2D] then Inl Invalid_Digit
      else digits_loop radix 0 (if hd s = 0x2B then tl s else s))"

text \<open>The digits of a number, as \<open>Display\<close> (radix 10) and \<open>LowerHex\<close> print them.\<close>

definition digit_byte :: "nat \<Rightarrow> u8" where
  "digit_byte d = (if d < 10 then of_nat (0x30 + d) else of_nat (0x61 + d - 10))"

function digits :: "nat \<Rightarrow> nat \<Rightarrow> bytes" where
  "digits radix n =
     (if n < radix \<or> radix < 2 then [digit_byte n] else digits radix (n div radix) @ [digit_byte (n mod radix)])"
  by pat_completeness auto
termination
  by (relation "measure (\<lambda>(radix, n). n)") (auto simp: not_less)

declare digits.simps [simp del]

lemma digit_byte_unat: "d < 16 \<Longrightarrow> unat (digit_byte d) = (if d < 10 then 0x30 + d else 0x57 + d)"
  by (cases "d < 10") (simp_all only: digit_byte_def if_True if_False unat_of_nat, simp_all)

lemma to_digit_byte: "d < radix \<Longrightarrow> radix \<le> 16 \<Longrightarrow> to_digit radix (digit_byte d) = Some d"
  using digit_byte_unat [of d] by (auto simp: to_digit_def Let_def word_le_nat_alt)

lemma digits_loop_append:
  "digits_loop radix acc (s @ t) =
    (case digits_loop radix acc s of Inl e \<Rightarrow> Inl e | Inr v \<Rightarrow> digits_loop radix v t)"
  by (induction radix acc s rule: digits_loop.induct) (simp_all split: option.split)

lemma digits_loop_digits:
  assumes "2 \<le> radix" and "radix \<le> 16"
  shows "n < usize_lim \<Longrightarrow> digits_loop radix 0 (digits radix n) = Inr n"
proof (induction n rule: less_induct)
  case (less n)
  show ?case
  proof (cases "n < radix")
    case True
    with less.prems assms show ?thesis by (simp add: digits.simps [of radix n] to_digit_byte)
  next
    case False
    with assms have lt: "n div radix < n" by auto
    with less have "digits_loop radix 0 (digits radix (n div radix)) = Inr (n div radix)" by simp
    moreover have "to_digit radix (digit_byte (n mod radix)) = Some (n mod radix)"
      using assms by (intro to_digit_byte) auto
    ultimately show ?thesis
      using False assms less.prems by (simp add: digits.simps [of radix n] digits_loop_append)
  qed
qed

lemma digit_byte_range: "d < 16 \<Longrightarrow> digit_byte d \<noteq> 0x2B \<and> digit_byte d \<noteq> 0x2D \<and> digit_byte d \<notin> set white_ends \<and>
    digit_byte d < 0x80 \<and> digit_byte d \<noteq> 0x0A"
  using digit_byte_unat [of d] by (auto simp: white_ends_def WHITE_SPACE_def word_unat_eq_iff word_less_nat_alt split: if_splits)

lemma digits_range:
  assumes "2 \<le> radix" and "radix \<le> 16"
  shows "set (digits radix n) \<subseteq> digit_byte ` {..<16}" and "digits radix n \<noteq> []"
proof -
  show "set (digits radix n) \<subseteq> digit_byte ` {..<16}"
  proof (induction n rule: less_induct)
    case (less n)
    have "n mod radix < radix" using assms by simp
    then have "n mod radix < 16" using assms(2) by (rule less_le_trans)
    then have "digit_byte (n mod radix) \<in> digit_byte ` {..<16}" by simp
    moreover have "n div radix < n" if "\<not> n < radix" using that assms by auto
    ultimately show ?case
      using less assms by (subst digits.simps) auto
  qed
  show "digits radix n \<noteq> []" by (subst digits.simps) simp
qed

lemma from_str_digits:
  assumes "2 \<le> radix" and "radix \<le> 16" and "n < usize_lim"
  shows "from_str_radix radix (digits radix n) = Inr n"
proof -
  from digits_range [OF assms(1,2), of n] have "hd (digits radix n) \<in> digit_byte ` {..<16}"
    by (meson hd_in_set subsetD)
  then have "hd (digits radix n) \<noteq> 0x2B" "hd (digits radix n) \<noteq> 0x2D"
    using digit_byte_range by auto
  then have "digits radix n \<noteq> [0x2B]" "digits radix n \<noteq> [0x2D]" "hd (digits radix n) \<noteq> 0x2B" by force+
  then show ?thesis
    by (simp add: from_str_radix_def digits_loop_digits [OF assms] digits_range(2) [OF assms(1,2)])
qed

lemma digits_text:
  assumes "2 \<le> radix" and "radix \<le> 16"
  shows "is_ascii (digits radix n)" and "0x0A \<notin> set (digits radix n)"
    and "trim_end (digits radix n @ [0x0D, 0x0A]) = digits radix n"
proof -
  have range: "b \<noteq> 0x2B \<and> b \<noteq> 0x2D \<and> b \<notin> set white_ends \<and> b < 0x80 \<and> b \<noteq> 0x0A" if "b \<in> set (digits radix n)" for b
  proof -
    have "b \<in> digit_byte ` {..<16}" using digits_range(1) [OF assms, of n] that by blast
    then obtain d where "d < 16" "b = digit_byte d" by auto
    with digit_byte_range [of d] show ?thesis by simp
  qed
  then show "is_ascii (digits radix n)" and "0x0A \<notin> set (digits radix n)"
    by (auto simp: is_ascii_def list_all_iff)
  have "last (digits radix n) \<notin> set white_ends" using range digits_range(2) [OF assms, of n] by simp
  then have "trim_end (digits radix n) = digits radix n" by (intro trim_end_solid) simp
  then show "trim_end (digits radix n @ [0x0D, 0x0A]) = digits radix n"
    using trim_end_step [of "0x0A" "digits radix n @ [0x0D]"] trim_end_step [of "0x0D" "digits radix n"]
    by simp
qed

end
