(* ===== verification/Buf_Io.thy ===== *)
theory Buf_Io
  imports Callback Std_Text
begin

text \<open>
  The buffered readers and writers of \<open>std::io\<close> that the HTTP/1.1 half puts around a connection:
  \<open>BufReader\<close> with \<open>read_until\<close> and \<open>read_line\<close>, and \<open>BufWriter\<close> with its flush on drop.

  Over a reader that keeps the contract, a buffered reader keeps it as well
  (\<open>buffered_source\<close>), and \<open>read_until\<close> returns the bytes up to the delimiter or the end of the
  input (\<open>read_until_line\<close>): it ends, though the loop on a reader that never stops would not.
  Over a writer that keeps the contract, a buffered writer loses nothing when it is dropped.
\<close>

section \<open>Buffered readers\<close>

definition BUF_SIZE :: nat where "BUF_SIZE = 8192"

text \<open>
  The cells of the buffer, the range of them that is filled and not yet consumed, and the
  reader inside.
\<close>

record 'r buf_reader =
  br_cells :: "nat \<Rightarrow> u8"
  br_pos :: nat
  br_filled :: nat
  br_inner :: 'r

definition buf_reader_new :: "'r \<Rightarrow> 'r buf_reader" where
  "buf_reader_new r = \<lparr>br_cells = (\<lambda>_. 0), br_pos = 0, br_filled = 0, br_inner = r\<rparr>"

definition buffered :: "'r buf_reader \<Rightarrow> bytes" where
  "buffered b = map (br_cells b) [br_pos b ..< br_filled b]"

definition consume :: "nat \<Rightarrow> 'r buf_reader \<Rightarrow> 'r buf_reader" where
  "consume n b = b\<lparr>br_pos := min (br_pos b + n) (br_filled b)\<rparr>"

text \<open>A read into the empty buffer; a count beyond its size panics.\<close>

definition fill_buf :: "'r reader_fn \<Rightarrow> 'r buf_reader \<Rightarrow> (io_error, bytes) rs \<times> 'r buf_reader" where
  "fill_buf rd b =
     (if br_pos b < br_filled b then (Ok (buffered b), b)
      else (case rd (br_inner b) BUF_SIZE of
              (x, got, r) \<Rightarrow>
                let cells = (\<lambda>i. if i < length got then got ! i else br_cells b i);
                    b' = (\<lambda>n. b\<lparr>br_cells := cells, br_pos := 0, br_filled := n, br_inner := r\<rparr>)
                in (case x of
                      Ok n \<Rightarrow> if n > BUF_SIZE then (Panic, b' 0) else (Ok (buffered (b' n)), b' n)
                    | Err e \<Rightarrow> (Err e, b' 0)
                    | Panic \<Rightarrow> (Panic, b' 0))))"

text \<open>\<open>impl Read for BufReader\<close>; a slice as large as the buffer goes straight to the reader inside.\<close>

definition br_read :: "'r reader_fn \<Rightarrow> 'r buf_reader reader_fn" where
  "br_read rd b len =
     (if br_pos b = br_filled b \<and> len \<ge> BUF_SIZE
      then (case rd (br_inner b) len of
              (x, got, r) \<Rightarrow> (x, got, b\<lparr>br_pos := 0, br_filled := 0, br_inner := r\<rparr>))
      else (case fill_buf rd b of
              (Ok rest, b') \<Rightarrow>
                let n = min len (length rest) in (Ok n, take n rest, consume n b')
            | (Err e, b') \<Rightarrow> (Err e, [], b')
            | (Panic, b') \<Rightarrow> (Panic, [], b')))"

text \<open>
  \<open>BufRead::read_until\<close>: the count so far and the vector that is appended to are arguments.
  \<open>None\<close>: the loop does not end.
\<close>

partial_function (option) read_until ::
  "'r reader_fn \<Rightarrow> u8 \<Rightarrow> 'r buf_reader \<Rightarrow> nat \<Rightarrow> bytes
    \<Rightarrow> ((io_error, nat) rs \<times> bytes \<times> 'r buf_reader) option" where
  "read_until rd delim b n buf =
     (case fill_buf rd b of
        (Err e, b') \<Rightarrow> Some (Err e, buf, b')
      | (Panic, b') \<Rightarrow> Some (Panic, buf, b')
      | (Ok available, b') \<Rightarrow>
          let used = (case position delim available of
                        Some i \<Rightarrow> i + 1
                      | None \<Rightarrow> length available);
              buf' = buf @ take used available;
              b'' = consume used b'
          in if position delim available \<noteq> None \<or> used = 0 then Some (Ok (n + used), buf', b'')
             else read_until rd delim b'' (n + used) buf')"

text \<open>\<open>BufRead::read_line\<close> into an empty string.\<close>

definition read_line ::
  "'r reader_fn \<Rightarrow> 'r buf_reader \<Rightarrow> ((io_error, bytes) rs \<times> 'r buf_reader) option" where
  "read_line rd b =
     map_option
       (\<lambda>(x, line, b').
         (case x of
            Ok _ \<Rightarrow> if utf8_valid line then Ok line else Err InvalidUtf8
          | Err e \<Rightarrow> Err e
          | Panic \<Rightarrow> Panic, b'))
       (read_until rd 0x0A b 0 [])"

section \<open>What they read\<close>

lemma buffered_consume: "buffered (consume n b) = drop n (buffered b)"
  by (cases "br_pos b + n \<le> br_filled b") (auto simp: buffered_def consume_def drop_map)

lemma inner_consume [simp]: "br_inner (consume n b) = br_inner b"
  by (simp add: consume_def)

definition br_pending :: "('r \<Rightarrow> bytes) \<Rightarrow> 'r buf_reader \<Rightarrow> bytes" where
  "br_pending pending b = buffered b @ pending (br_inner b)"

lemma pending_new [simp]: "br_pending pending (buf_reader_new r) = pending r"
  by (simp add: br_pending_def buf_reader_new_def buffered_def)

lemma pending_consume:
  "n \<le> length (buffered b) \<Longrightarrow> br_pending pending (consume n b) = drop n (br_pending pending b)"
  by (simp add: br_pending_def buffered_consume)

lemma buffered_got:
  "n \<le> length got \<Longrightarrow>
   buffered (b\<lparr>br_cells := (\<lambda>i. if i < length got then got ! i else c i), br_pos := 0,
              br_filled := n, br_inner := r\<rparr>) = take n got"
  by (rule nth_equalityI) (simp_all add: buffered_def)

lemma buffered_Nil: "buffered b = [] \<longleftrightarrow> br_filled b \<le> br_pos b"
  by (auto simp: buffered_def)

text \<open>The line that comes next: up to the delimiter and with it, or to the end.\<close>

definition line_of :: "u8 \<Rightarrow> bytes \<Rightarrow> bytes" where
  "line_of c xs = takeWhile (\<lambda>b. b \<noteq> c) xs @ (if c \<in> set xs then [c] else [])"

lemma line_of_append [simp]:
  assumes "c \<notin> set xs"
  shows "line_of c (xs @ c # ys) = xs @ [c]"
proof -
  have "takeWhile (\<lambda>b. b \<noteq> c) (xs @ c # ys) = xs" using assms by (subst takeWhile_append2) auto
  then show ?thesis by (simp add: line_of_def)
qed

lemma line_of_all [simp]: "c \<notin> set xs \<Longrightarrow> line_of c xs = xs"
  by (auto simp: line_of_def takeWhile_eq_all_conv)

lemma line_of_skip: "c \<notin> set xs \<Longrightarrow> line_of c (xs @ ys) = xs @ line_of c ys"
proof -
  assume "c \<notin> set xs"
  then have "takeWhile (\<lambda>b. b \<noteq> c) (xs @ ys) = xs @ takeWhile (\<lambda>b. b \<noteq> c) ys"
    by (subst takeWhile_append2) auto
  with \<open>c \<notin> set xs\<close> show ?thesis by (simp add: line_of_def)
qed

context byte_source
begin

lemma fill_buf_ok:
  obtains b' where "fill_buf rd b = (Ok (buffered b'), b')"
    and "br_pending pending b' = br_pending pending b"
    and "buffered b' = [] \<longleftrightarrow> br_pending pending b = []"
proof (cases "br_pos b < br_filled b")
  case True
  then have "buffered b \<noteq> []" by (simp add: buffered_Nil)
  with True show thesis by (intro that [of b]) (simp_all add: fill_buf_def br_pending_def)
next
  case False
  then have e: "buffered b = []" by (simp add: buffered_Nil)
  show thesis
  proof (cases "pending (br_inner b) = []")
    case True
    with exhausted obtain r' where "rd (br_inner b) BUF_SIZE = (Ok 0, [], r')" "pending r' = []" by blast
    with False e True show thesis
      by (intro that [of "b\<lparr>br_cells := br_cells b, br_pos := 0, br_filled := 0, br_inner := r'\<rparr>"])
        (simp_all add: fill_buf_def br_pending_def buffered_def)
  next
    case ne: False
    have "0 < BUF_SIZE" by (simp add: BUF_SIZE_def)
    with ne delivers obtain k r' where k: "rd (br_inner b) BUF_SIZE = (Ok k, take k (pending (br_inner b)), r')"
      "0 < k" "k \<le> BUF_SIZE" "k \<le> length (pending (br_inner b))"
      and p: "pending r' = drop k (pending (br_inner b))" by blast
    let ?got = "take k (pending (br_inner b))"
    let ?b = "b\<lparr>br_cells := (\<lambda>i. if i < length ?got then ?got ! i else br_cells b i), br_pos := 0,
              br_filled := k, br_inner := r'\<rparr>"
    have got: "buffered ?b = ?got" using k(4) by (subst buffered_got) simp_all
    show thesis
    proof (rule that [of ?b])
      show "fill_buf rd b = (Ok (buffered ?b), ?b)"
        using False k(1,3) by (simp add: fill_buf_def Let_def)
      show "br_pending pending ?b = br_pending pending b" using e got p by (simp add: br_pending_def)
      show "buffered ?b = [] \<longleftrightarrow> br_pending pending b = []" using ne e k(2) got by (simp add: br_pending_def)
    qed
  qed
qed

lemma buffered_source: "byte_source (br_read rd) (br_pending pending)"
proof
  fix n :: nat and b assume n: "0 < n" and ne: "br_pending pending b \<noteq> []"
  let ?goal = "\<exists>k b'. br_read rd b n = (Ok k, take k (br_pending pending b), b') \<and> 0 < k \<and> k \<le> n \<and>
      k \<le> length (br_pending pending b) \<and> br_pending pending b' = drop k (br_pending pending b)"
  show ?goal
  proof (cases "br_pos b = br_filled b \<and> n \<ge> BUF_SIZE")
    case True
    then have e: "buffered b = []" by (simp add: buffered_Nil)
    with n ne delivers [of n "br_inner b"] obtain k r' where
      "rd (br_inner b) n = (Ok k, take k (pending (br_inner b)), r')" "0 < k" "k \<le> n"
      "k \<le> length (pending (br_inner b))" "pending r' = drop k (pending (br_inner b))"
      by (auto simp: br_pending_def)
    with True e show ?goal
      by (intro exI [of _ k] exI [of _ "b\<lparr>br_pos := 0, br_filled := 0, br_inner := r'\<rparr>"])
        (simp add: br_read_def br_pending_def buffered_Nil [THEN iffD2])
  next
    case False
    obtain b' where b': "fill_buf rd b = (Ok (buffered b'), b')"
      "br_pending pending b' = br_pending pending b"
      "buffered b' = [] \<longleftrightarrow> br_pending pending b = []" by (rule fill_buf_ok)
    let ?k = "min n (length (buffered b'))"
    have split: "br_pending pending b = buffered b' @ pending (br_inner b')"
      using b'(2) by (metis br_pending_def)
    have 1: "br_read rd b n = (Ok ?k, take ?k (br_pending pending b), consume ?k b')"
      using False b'(1) unfolding split by (auto simp: br_read_def Let_def)
    have 2: "br_pending pending (consume ?k b') = drop ?k (br_pending pending b)"
      by (simp add: pending_consume b'(2))
    have 3: "0 < ?k" using n ne b'(3) by simp
    have 4: "?k \<le> length (br_pending pending b)" unfolding split by simp
    show ?goal by (intro exI conjI, rule 1, rule 3, simp, rule 4, rule 2)
  qed
next
  fix n :: nat and b assume p: "br_pending pending b = []"
  then have e: "buffered b = []" "pending (br_inner b) = []" by (simp_all add: br_pending_def)
  show "\<exists>b'. br_read rd b n = (Ok 0, [], b') \<and> br_pending pending b' = []"
  proof (cases "br_pos b = br_filled b \<and> n \<ge> BUF_SIZE")
    case True
    from exhausted [OF e(2)] obtain r' where "rd (br_inner b) n = (Ok 0, [], r')" "pending r' = []" by blast
    with True show ?thesis by (simp add: br_read_def br_pending_def buffered_Nil [THEN iffD2])
  next
    case False
    obtain b' where "fill_buf rd b = (Ok (buffered b'), b')"
      "br_pending pending b' = br_pending pending b"
      "buffered b' = [] \<longleftrightarrow> br_pending pending b = []" by (rule fill_buf_ok)
    note b' = this
    with p have "buffered b' = []" by simp
    with False b'(1) have "br_read rd b n = (Ok 0, [], consume 0 b')" by (auto simp: br_read_def Let_def)
    moreover have "br_pending pending (consume 0 b') = []" by (subst pending_consume) (simp_all add: b'(2) p)
    ultimately show ?thesis by blast
  qed
qed

lemma read_until_line:
  "\<exists>b'. read_until rd c b n buf =
      Some (Ok (n + length (line_of c (br_pending pending b))), buf @ line_of c (br_pending pending b), b') \<and>
    br_pending pending b' = drop (length (line_of c (br_pending pending b))) (br_pending pending b)"
proof (induction "length (br_pending pending b)" arbitrary: b n buf rule: less_induct)
  case less
  obtain b1 where f: "fill_buf rd b = (Ok (buffered b1), b1)"
    and p: "br_pending pending b1 = br_pending pending b"
    and e: "buffered b1 = [] \<longleftrightarrow> br_pending pending b = []" by (rule fill_buf_ok)
  let ?av = "buffered b1"
  have split: "br_pending pending b = ?av @ pending (br_inner b1)"
    using p by (metis br_pending_def)
  show ?case
  proof (cases "c \<in> set ?av")
    case True
    then obtain xs ys where av: "?av = xs @ c # ys" "c \<notin> set xs" by (meson split_list_first)
    then have "read_until rd c b n buf = Some (Ok (n + length (xs @ [c])), buf @ xs @ [c], consume (length (xs @ [c])) b1)"
      by (simp add: read_until.simps [of rd c b] f Let_def)
    moreover have "line_of c (br_pending pending b) = xs @ [c]" using split av by simp
    moreover have "br_pending pending (consume (length (xs @ [c])) b1) = drop (length (xs @ [c])) (br_pending pending b)"
      by (subst pending_consume) (simp_all add: av p)
    ultimately show ?thesis by simp
  next
    case out: False
    then have pos: "position c ?av = None" by (simp add: position_def)
    have p1: "br_pending pending (consume (length ?av) b1) = pending (br_inner b1)"
      by (subst pending_consume) (simp_all add: p split)
    show ?thesis
    proof (cases "?av = []")
      case True
      with e have "br_pending pending b = []" by simp
      with True pos f p1 split show ?thesis
        by (simp add: read_until.simps [of rd c b] Let_def line_of_def)
    next
      case False
      then have lt: "length (pending (br_inner b1)) < length (br_pending pending b)" by (simp add: split)
      have run: "read_until rd c b n buf = read_until rd c (consume (length ?av) b1) (n + length ?av) (buf @ ?av)"
        using False pos by (subst read_until.simps) (simp add: f Let_def)
      have line: "line_of c (br_pending pending b) = ?av @ line_of c (pending (br_inner b1))"
        unfolding split by (rule line_of_skip [OF out])
      have rest: "drop (length ?av + length (line_of c (pending (br_inner b1)))) (br_pending pending b) =
          drop (length (line_of c (pending (br_inner b1)))) (pending (br_inner b1))"
        by (simp add: split)
      from less [of "consume (length ?av) b1" "n + length ?av" "buf @ ?av"] lt
      show ?thesis by (simp add: run p1 line rest add.assoc)
    qed
  qed
qed

lemma read_line_ok:
  obtains b' where "read_line rd b =
      Some (if utf8_valid (line_of 0x0A (br_pending pending b))
            then Ok (line_of 0x0A (br_pending pending b)) else Err InvalidUtf8, b')"
    and "br_pending pending b' = drop (length (line_of 0x0A (br_pending pending b))) (br_pending pending b)"
  using read_until_line [of "0x0A" b 0 "[]"] by (auto simp: read_line_def)

text \<open>A line of ASCII that is there is read.\<close>

lemma read_line_next:
  assumes "br_pending pending b = xs @ 0x0A # ys" and "0x0A \<notin> set xs" and "utf8_valid (xs @ [0x0A])"
  obtains b' where "read_line rd b = Some (Ok (xs @ [0x0A]), b')" and "br_pending pending b' = ys"
proof -
  from assms have "line_of 0x0A (br_pending pending b) = xs @ [0x0A]" by simp
  note line = this
  obtain b' where "read_line rd b =
      Some (if utf8_valid (line_of 0x0A (br_pending pending b))
            then Ok (line_of 0x0A (br_pending pending b)) else Err InvalidUtf8, b')"
    and rest: "br_pending pending b' = drop (length (line_of 0x0A (br_pending pending b))) (br_pending pending b)"
    by (rule read_line_ok)
  then have "read_line rd b = Some (Ok (xs @ [0x0A]), b')" by (simp only: line assms(3) if_True)
  moreover have "br_pending pending b' = ys" by (simp only: rest line) (simp add: assms(1))
  ultimately show thesis by (rule that)
qed

end

interpretation buf_slice: byte_source "br_read slice_read" "br_pending id"
  by (rule slice.buffered_source)

section \<open>Buffered writers\<close>

text \<open>The bytes in the buffer, at most \<open>BUF_SIZE\<close> of them, and the writer inside.\<close>

record 'w buf_writer =
  bw_buf :: bytes
  bw_inner :: 'w

definition buf_writer_new :: "'w \<Rightarrow> 'w buf_writer" where
  "buf_writer_new w = \<lparr>bw_buf = [], bw_inner = w\<rparr>"

text \<open>The loop of \<open>flush_buf\<close>; what was written leaves the buffer, on an error too.\<close>

function flush_loop :: "'w writer_fn \<Rightarrow> bytes \<Rightarrow> 'w \<Rightarrow> (io_error, unit) rs \<times> bytes \<times> 'w" where
  "flush_loop wr buf w =
     (if buf = [] then (Ok (), [], w)
      else (case wr w buf of
              (Panic, w') \<Rightarrow> (Panic, buf, w')
            | (Err e, w') \<Rightarrow> (Err e, buf, w')
            | (Ok n, w') \<Rightarrow>
                if n = 0 then (Err FlushZero, buf, w') else flush_loop wr (drop n buf) w'))"
  by pat_completeness auto
termination
  by (relation "measure (\<lambda>(wr, buf, w). length buf)") auto

declare flush_loop.simps [simp del]

definition flush_buf :: "'w writer_fn \<Rightarrow> 'w buf_writer \<Rightarrow> (io_error, unit) rs \<times> 'w buf_writer" where
  "flush_buf wr b =
     (case flush_loop wr (bw_buf b) (bw_inner b) of (x, buf, w) \<Rightarrow> (x, \<lparr>bw_buf = buf, bw_inner = w\<rparr>))"

definition bw_write_all ::
  "'w writer_fn \<Rightarrow> bytes \<Rightarrow> 'w buf_writer \<Rightarrow> (io_error, unit) rs \<times> 'w buf_writer" where
  "bw_write_all wr buf b =
     (if length buf < BUF_SIZE - length (bw_buf b) then (Ok (), b\<lparr>bw_buf := bw_buf b @ buf\<rparr>)
      else
        and_then (if length buf > BUF_SIZE - length (bw_buf b) then flush_buf wr b else (Ok (), b)) (\<lambda>_ b.
        if length buf \<ge> BUF_SIZE
        then (case write_all wr (bw_inner b) buf of (x, w) \<Rightarrow> (x, b\<lparr>bw_inner := w\<rparr>))
        else (Ok (), b\<lparr>bw_buf := bw_buf b @ buf\<rparr>)))"

text \<open>The \<open>write!\<close> macro writes the pieces of the format string and of the arguments in turn.\<close>

fun bw_write_fmt ::
  "'w writer_fn \<Rightarrow> bytes list \<Rightarrow> 'w buf_writer \<Rightarrow> (io_error, unit) rs \<times> 'w buf_writer" where
  "bw_write_fmt wr [] b = (Ok (), b)"
| "bw_write_fmt wr (p # ps) b = and_then (bw_write_all wr p b) (\<lambda>_ b. bw_write_fmt wr ps b)"

text \<open>
  Dropping the writer flushes it and ignores an error of that; \<open>None\<close> is a panic of the
  writer inside.
\<close>

definition bw_drop :: "'w writer_fn \<Rightarrow> 'w buf_writer \<Rightarrow> 'w option" where
  "bw_drop wr b =
     (case flush_buf wr b of (Panic, b') \<Rightarrow> None | (Ok _, b') \<Rightarrow> Some (bw_inner b') | (Err _, b') \<Rightarrow> Some (bw_inner b'))"

section \<open>What they write\<close>

definition bw_sent :: "('w \<Rightarrow> bytes) \<Rightarrow> 'w buf_writer \<Rightarrow> bytes" where
  "bw_sent sent b = sent (bw_inner b) @ bw_buf b"

lemma bw_sent_new [simp]: "bw_sent sent (buf_writer_new w) = sent w"
  by (simp add: bw_sent_def buf_writer_new_def)

lemma bw_write_fmt_append:
  "bw_write_fmt wr (ps @ qs) b = and_then (bw_write_fmt wr ps b) (\<lambda>_ b. bw_write_fmt wr qs b)"
proof (induction ps arbitrary: b)
  case (Cons p ps)
  show ?case by (cases "bw_write_all wr p b"; cases "fst (bw_write_all wr p b)") (auto simp: Cons)
qed simp

text \<open>While everything fits, the writer inside is not called.\<close>

lemma bw_write_fmt_fits:
  "length (bw_buf b) + length (concat ps) < BUF_SIZE \<Longrightarrow>
   bw_write_fmt wr ps b = (Ok (), b\<lparr>bw_buf := bw_buf b @ concat ps\<rparr>)"
proof (induction ps arbitrary: b)
  case (Cons p ps)
  then have "length p < BUF_SIZE - length (bw_buf b)" by simp
  then have "bw_write_all wr p b = (Ok (), b\<lparr>bw_buf := bw_buf b @ p\<rparr>)" by (simp add: bw_write_all_def)
  with Cons show ?case by simp
qed simp

context byte_sink
begin

lemma flush_loop_ok: "\<exists>w'. flush_loop wr buf w = (Ok (), [], w') \<and> sent w' = sent w @ buf"
proof (induction buf arbitrary: w rule: length_induct)
  case (1 buf)
  show ?case
  proof (cases "buf = []")
    case True
    then show ?thesis by (simp add: flush_loop.simps)
  next
    case False
    with takes obtain k w' where k: "wr w buf = (Ok k, w')" "0 < k"
      and s: "sent w' = sent w @ take k buf" by blast
    with False have "length (drop k buf) < length buf" by simp
    with "1.IH" obtain w'' where "flush_loop wr (drop k buf) w' = (Ok (), [], w'')"
      and "sent w'' = sent w' @ drop k buf" by blast
    with False k s show ?thesis by (simp add: flush_loop.simps [of wr buf w])
  qed
qed

lemma flush_buf_ok:
  obtains b' where "flush_buf wr b = (Ok (), b')" and "bw_sent sent b' = bw_sent sent b"
    and "bw_buf b' = []" and "sent (bw_inner b') = bw_sent sent b"
proof -
  obtain w' where "flush_loop wr (bw_buf b) (bw_inner b) = (Ok (), [], w')"
    "sent w' = sent (bw_inner b) @ bw_buf b" using flush_loop_ok by blast
  then show thesis
    by (intro that [of "\<lparr>bw_buf = [], bw_inner = w'\<rparr>"]) (simp_all add: flush_buf_def bw_sent_def)
qed

lemma bw_write_all_ok: "\<exists>b'. bw_write_all wr xs b = (Ok (), b') \<and> bw_sent sent b' = bw_sent sent b @ xs"
proof (cases "length xs < BUF_SIZE - length (bw_buf b)")
  case True
  then show ?thesis by (simp add: bw_write_all_def bw_sent_def)
next
  case False
  let ?f = "if length xs > BUF_SIZE - length (bw_buf b) then flush_buf wr b else (Ok (), b)"
  obtain b1 where b1: "?f = (Ok (), b1)" "bw_sent sent b1 = bw_sent sent b"
    "length xs \<ge> BUF_SIZE \<Longrightarrow> bw_buf b1 = []"
  proof (cases "length xs > BUF_SIZE - length (bw_buf b)")
    case True
    obtain b' where "flush_buf wr b = (Ok (), b')" "bw_sent sent b' = bw_sent sent b" "bw_buf b' = []"
      by (rule flush_buf_ok)
    with True show thesis by (intro that [of b']) simp_all
  next
    case all: False
    with False have "length xs = BUF_SIZE - length (bw_buf b)" by simp
    then have "length xs \<ge> BUF_SIZE \<Longrightarrow> bw_buf b = []"
      by (cases "bw_buf b") (simp_all add: BUF_SIZE_def)
    with all show thesis by (intro that [of b]) simp_all
  qed
  obtain w' where "write_all wr (bw_inner b1) xs = (Ok (), w')" "sent w' = sent (bw_inner b1) @ xs"
    by (rule write_all_sent)
  with False b1 show ?thesis by (auto simp: bw_write_all_def bw_sent_def)
qed

lemma bw_write_fmt_ok:
  "\<exists>b'. bw_write_fmt wr ps b = (Ok (), b') \<and> bw_sent sent b' = bw_sent sent b @ concat ps"
proof (induction ps arbitrary: b)
  case (Cons p ps)
  from bw_write_all_ok [of p b] obtain b1 where "bw_write_all wr p b = (Ok (), b1)"
    "bw_sent sent b1 = bw_sent sent b @ p" by blast
  with Cons [of b1] show ?case by auto
qed simp

lemma bw_drop_ok: "\<exists>w'. bw_drop wr b = Some w' \<and> sent w' = bw_sent sent b"
proof -
  obtain b' where "flush_buf wr b = (Ok (), b')" "sent (bw_inner b') = bw_sent sent b"
    by (rule flush_buf_ok)
  then show ?thesis by (simp add: bw_drop_def)
qed

end

end
