(* ===== verification/Header_Map.thy ===== *)
theory Header_Map
  imports Std_Text "HOL-Library.Multiset"
begin

text \<open>
  \<open>HeaderMap\<close> of \<open>http/src/request.rs\<close>, a hash map from names to the values under each name. The
  model is the list of its entries; the order in which the map is iterated is not specified,
  so code that iterates takes it as a parameter (\<open>iterates\<close> says what is known of it). The
  interface \<open>multimap\<close> says what the requests and responses rely on.
\<close>

type_synonym header_map = "(bytes \<times> bytes list) list"

definition hm_new :: header_map where "hm_new = []"

definition hm_get :: "header_map \<Rightarrow> bytes \<Rightarrow> bytes list option" where
  "hm_get h name = map_of h name"

text \<open>\<open>entry(name).or_insert(\<dots>).push(value)\<close>\<close>

fun hm_push :: "bytes \<Rightarrow> bytes \<Rightarrow> header_map \<Rightarrow> header_map" where
  "hm_push name val [] = [(name, [val])]"
| "hm_push name val ((k, vs) # h) =
     (if k = name then (k, vs @ [val]) # h else (k, vs) # hm_push name val h)"

definition hm_remove :: "bytes \<Rightarrow> header_map \<Rightarrow> header_map" where
  "hm_remove name h = filter (\<lambda>(k, vs). k \<noteq> name) h"

text \<open>The map invariant: a name once, and no name without a value.\<close>

definition hm_ok :: "header_map \<Rightarrow> bool" where
  "hm_ok h \<longleftrightarrow> distinct (map fst h) \<and> (\<forall>(k, vs)\<in>set h. vs \<noteq> [])"

text \<open>An order of iteration goes through every entry once.\<close>

definition iterates :: "(header_map \<Rightarrow> header_map) \<Rightarrow> bool" where
  "iterates order \<longleftrightarrow> (\<forall>h. mset (order h) = mset h)"

text \<open>The values under a name, none when the name is absent.\<close>

definition hm_values :: "header_map \<Rightarrow> bytes \<Rightarrow> bytes list" where
  "hm_values h name = (case hm_get h name of None \<Rightarrow> [] | Some vs \<Rightarrow> vs)"

section \<open>The interface\<close>

locale multimap =
  fixes inv :: "'m \<Rightarrow> bool"
    and values_of :: "'m \<Rightarrow> bytes \<Rightarrow> bytes list"
    and fresh :: 'm
    and push :: "bytes \<Rightarrow> bytes \<Rightarrow> 'm \<Rightarrow> 'm"
    and remove :: "bytes \<Rightarrow> 'm \<Rightarrow> 'm"
  assumes fresh_inv: "inv fresh"
    and fresh_values: "values_of fresh k = []"
    and push_inv: "inv h \<Longrightarrow> inv (push k v h)"
    and push_values: "values_of (push k v h) = (values_of h)(k := values_of h k @ [v])"
    and remove_inv: "inv h \<Longrightarrow> inv (remove k h)"
    and remove_values: "values_of (remove k h) = (values_of h)(k := [])"
begin

lemma fold_push_inv: "inv h \<Longrightarrow> inv (fold (\<lambda>(k, v). push k v) kvs h)"
  by (induction kvs arbitrary: h) (auto intro: push_inv)

lemma fold_push_values:
  "values_of (fold (\<lambda>(k, v). push k v) kvs h) name =
   values_of h name @ map snd (filter (\<lambda>(k, v). k = name) kvs)"
proof (induction kvs arbitrary: h)
  case (Cons kv kvs)
  then show ?case by (cases kv) (simp add: push_values)
qed simp

end

lemma hm_get_empty: "hm_get [] k = None"
  by (simp add: hm_get_def)

lemma hm_get_push:
  "hm_get (hm_push k v h) = (hm_get h)(k \<mapsto> (case hm_get h k of None \<Rightarrow> [v] | Some vs \<Rightarrow> vs @ [v]))"
  by (induction k v h rule: hm_push.induct) (auto simp: hm_get_def)

lemma hm_get_remove: "hm_get (hm_remove k h) = (hm_get h)(k := None)"
  by (rule ext, induction h) (auto simp: hm_get_def hm_remove_def)

lemma fst_hm_push: "fst ` set (hm_push k v h) = insert k (fst ` set h)"
  by (induction k v h rule: hm_push.induct) auto

interpretation hm: multimap hm_ok hm_values hm_new hm_push hm_remove
proof
  fix k v h assume "hm_ok h"
  then show "hm_ok (hm_push k v h)"
  proof (induction k v h rule: hm_push.induct)
    case (2 name val k vs h)
    then show ?case using fst_hm_push [of name val h] by (auto simp: hm_ok_def split: if_splits)
  qed (simp add: hm_ok_def)
next
  fix k h assume "hm_ok h"
  then show "hm_ok (hm_remove k h)"
    by (auto simp: hm_ok_def hm_remove_def distinct_map_filter)
qed (auto simp: hm_ok_def hm_new_def hm_values_def hm_get_empty hm_get_push hm_get_remove fun_eq_iff
    split: option.split)

lemma hm_get_values: "hm_ok h \<Longrightarrow> hm_get h k = (if hm_values h k = [] then None else Some (hm_values h k))"
  by (auto simp: hm_ok_def hm_values_def hm_get_def dest: map_of_SomeD split: option.split)

text \<open>The entries in an order of iteration, one line for each value.\<close>

definition hm_lines :: "header_map \<Rightarrow> (bytes \<times> bytes) list" where
  "hm_lines h = [(k, v). (k, vs) \<leftarrow> h, v \<leftarrow> vs]"

lemma hm_lines_simps [simp]:
  "hm_lines [] = []" "hm_lines ((k, vs) # h) = map (\<lambda>v. (k, v)) vs @ hm_lines h"
  by (simp_all add: hm_lines_def)

end
