(* ===== verification/Status_Codes.thy ===== *)
theory Status_Codes
  imports Std_Text
begin

text \<open>
  \<open>http/src/response.rs\<close>, the module \<open>status_codes\<close>: the codes by name, and the reason phrase of a
  code. The lemmas: every code has its own phrase, in ASCII and without a line break, and any
  other number has the empty one.
\<close>

definition CONTINUE :: u16 where "CONTINUE = 100"
definition SWITCHING_PROTOCOLS :: u16 where "SWITCHING_PROTOCOLS = 101"
definition PROCESSING :: u16 where "PROCESSING = 102"
definition EARLY_HINTS :: u16 where "EARLY_HINTS = 103"
definition OK :: u16 where "OK = 200"
definition CREATED :: u16 where "CREATED = 201"
definition ACCEPTED :: u16 where "ACCEPTED = 202"
definition NON_AUTHORITATIVE_INFORMATION :: u16 where "NON_AUTHORITATIVE_INFORMATION = 203"
definition NO_CONTENT :: u16 where "NO_CONTENT = 204"
definition RESET_CONTENT :: u16 where "RESET_CONTENT = 205"
definition PARTIAL_CONTENT :: u16 where "PARTIAL_CONTENT = 206"
definition MULTIPLE_CHOICES :: u16 where "MULTIPLE_CHOICES = 300"
definition MOVED_PERMANENTLY :: u16 where "MOVED_PERMANENTLY = 301"
definition FOUND :: u16 where "FOUND = 302"
definition SEE_OTHER :: u16 where "SEE_OTHER = 303"
definition NOT_MODIFIED :: u16 where "NOT_MODIFIED = 304"
definition TEMPORARY_REDIRECT :: u16 where "TEMPORARY_REDIRECT = 307"
definition PERMANENT_REDIRECT :: u16 where "PERMANENT_REDIRECT = 308"
definition BAD_REQUEST :: u16 where "BAD_REQUEST = 400"
definition UNAUTHORIZED :: u16 where "UNAUTHORIZED = 401"
definition PAYMENT_REQUIRED :: u16 where "PAYMENT_REQUIRED = 402"
definition FORBIDDEN :: u16 where "FORBIDDEN = 403"
definition NOT_FOUND :: u16 where "NOT_FOUND = 404"
definition METHOD_NOT_ALLOWED :: u16 where "METHOD_NOT_ALLOWED = 405"
definition NOT_ACCEPTABLE :: u16 where "NOT_ACCEPTABLE = 406"
definition PROXY_AUTHENTICATION_REQUIRED :: u16 where "PROXY_AUTHENTICATION_REQUIRED = 407"
definition REQUEST_TIMEOUT :: u16 where "REQUEST_TIMEOUT = 408"
definition CONFLICT :: u16 where "CONFLICT = 409"
definition GONE :: u16 where "GONE = 410"
definition LENGTH_REQUIRED :: u16 where "LENGTH_REQUIRED = 411"
definition PRECONDITION_FAILED :: u16 where "PRECONDITION_FAILED = 412"
definition CONTENT_TOO_LARGE :: u16 where "CONTENT_TOO_LARGE = 413"
definition URITOO_LONG :: u16 where "URITOO_LONG = 414"
definition UNSUPPORTED_MEDIA_TYPE :: u16 where "UNSUPPORTED_MEDIA_TYPE = 415"
definition RANGE_NOT_SATISFIABLE :: u16 where "RANGE_NOT_SATISFIABLE = 416"
definition EXPECTATION_FAILED :: u16 where "EXPECTATION_FAILED = 417"
definition IM_ATEAPOT :: u16 where "IM_ATEAPOT = 418"
definition MISDIRECTED_REQUEST :: u16 where "MISDIRECTED_REQUEST = 421"
definition UPGRADE_REQUIRED :: u16 where "UPGRADE_REQUIRED = 426"
definition PRECONDITION_REQUIRED :: u16 where "PRECONDITION_REQUIRED = 428"
definition TOO_MANY_REQUESTS :: u16 where "TOO_MANY_REQUESTS = 429"
definition REQUEST_HEADER_FIELDS_TOO_LARGE :: u16 where "REQUEST_HEADER_FIELDS_TOO_LARGE = 431"
definition UNAVAILABLE_FOR_LEGAL_REASONS :: u16 where "UNAVAILABLE_FOR_LEGAL_REASONS = 451"
definition INTERNAL_SERVER_ERROR :: u16 where "INTERNAL_SERVER_ERROR = 500"
definition NOT_IMPLEMENTED :: u16 where "NOT_IMPLEMENTED = 501"
definition BAD_GATEWAY :: u16 where "BAD_GATEWAY = 502"
definition SERVICE_UNAVAILABLE :: u16 where "SERVICE_UNAVAILABLE = 503"
definition GATEWAY_TIMEOUT :: u16 where "GATEWAY_TIMEOUT = 504"
definition HTTPVERSION_NOT_SUPPORTED :: u16 where "HTTPVERSION_NOT_SUPPORTED = 505"
definition VARIANT_ALSO_NEGOTIATES :: u16 where "VARIANT_ALSO_NEGOTIATES = 506"
definition NOT_EXTENDED :: u16 where "NOT_EXTENDED = 510"
definition NETWORK_AUTHENTICATION_REQUIRED :: u16 where "NETWORK_AUTHENTICATION_REQUIRED = 511"

text \<open>The arms of the match, and the match: \<open>None\<close> is the arm for any other code.\<close>

definition REASON_PHRASES :: "(u16 \<times> string) list" where
  "REASON_PHRASES =
     [(CONTINUE, ''Continue''),
      (SWITCHING_PROTOCOLS, ''Switching Protocols''),
      (PROCESSING, ''Processing''),
      (EARLY_HINTS, ''Early Hints''),
      (OK, ''OK''),
      (CREATED, ''Created''),
      (ACCEPTED, ''Accepted''),
      (NON_AUTHORITATIVE_INFORMATION, ''Non-Authoritative Information''),
      (NO_CONTENT, ''No Content''),
      (RESET_CONTENT, ''Reset Content''),
      (PARTIAL_CONTENT, ''Partial Content''),
      (MULTIPLE_CHOICES, ''Multiple Choices''),
      (MOVED_PERMANENTLY, ''Moved Permanently''),
      (FOUND, ''Found''),
      (SEE_OTHER, ''See Other''),
      (NOT_MODIFIED, ''Not Modified''),
      (TEMPORARY_REDIRECT, ''Temporary Redirect''),
      (PERMANENT_REDIRECT, ''Permanent Redirect''),
      (BAD_REQUEST, ''Bad Request''),
      (UNAUTHORIZED, ''Unauthorized''),
      (PAYMENT_REQUIRED, ''Payment Required''),
      (FORBIDDEN, ''Forbidden''),
      (NOT_FOUND, ''Not Found''),
      (METHOD_NOT_ALLOWED, ''Method Not Allowed''),
      (NOT_ACCEPTABLE, ''Not Acceptable''),
      (PROXY_AUTHENTICATION_REQUIRED, ''Proxy Authentication Required''),
      (REQUEST_TIMEOUT, ''Request Timeout''),
      (CONFLICT, ''Conflict''),
      (GONE, ''Gone''),
      (LENGTH_REQUIRED, ''Length Required''),
      (PRECONDITION_FAILED, ''Precondition Failed''),
      (CONTENT_TOO_LARGE, ''Content Too Large''),
      (URITOO_LONG, ''URI Too Long''),
      (UNSUPPORTED_MEDIA_TYPE, ''Unsupported Media Type''),
      (RANGE_NOT_SATISFIABLE, ''Range Not Satisfiable''),
      (EXPECTATION_FAILED, ''Expectation Failed''),
      (IM_ATEAPOT, ''I'' @ [CHR 0x27] @ ''m A Teapot''),
      (MISDIRECTED_REQUEST, ''Misdirected Request''),
      (UPGRADE_REQUIRED, ''Upgrade Required''),
      (PRECONDITION_REQUIRED, ''Precondition Required''),
      (TOO_MANY_REQUESTS, ''Too Many Requests''),
      (REQUEST_HEADER_FIELDS_TOO_LARGE, ''Request Header Fields Too Large''),
      (UNAVAILABLE_FOR_LEGAL_REASONS, ''Unavailable For Legal Reasons''),
      (INTERNAL_SERVER_ERROR, ''Internal Server Error''),
      (NOT_IMPLEMENTED, ''Not Implemented''),
      (BAD_GATEWAY, ''Bad Gateway''),
      (SERVICE_UNAVAILABLE, ''Service Unavailable''),
      (GATEWAY_TIMEOUT, ''Gateway Timeout''),
      (HTTPVERSION_NOT_SUPPORTED, ''HTTP Version Not Supported''),
      (VARIANT_ALSO_NEGOTIATES, ''Variant Also Negotiates''),
      (NOT_EXTENDED, ''Not Extended''),
      (NETWORK_AUTHENTICATION_REQUIRED, ''Network Authentication Required'')]"

definition get_reason_phrase :: "u16 \<Rightarrow> bytes" where
  "get_reason_phrase code =
     (case map_of REASON_PHRASES code of None \<Rightarrow> [] | Some phrase \<Rightarrow> ascii phrase)"

lemmas status_code_defs =
  CONTINUE_def SWITCHING_PROTOCOLS_def PROCESSING_def EARLY_HINTS_def OK_def CREATED_def ACCEPTED_def NON_AUTHORITATIVE_INFORMATION_def NO_CONTENT_def RESET_CONTENT_def PARTIAL_CONTENT_def MULTIPLE_CHOICES_def MOVED_PERMANENTLY_def FOUND_def SEE_OTHER_def NOT_MODIFIED_def TEMPORARY_REDIRECT_def PERMANENT_REDIRECT_def BAD_REQUEST_def UNAUTHORIZED_def PAYMENT_REQUIRED_def FORBIDDEN_def NOT_FOUND_def METHOD_NOT_ALLOWED_def NOT_ACCEPTABLE_def PROXY_AUTHENTICATION_REQUIRED_def REQUEST_TIMEOUT_def CONFLICT_def GONE_def LENGTH_REQUIRED_def PRECONDITION_FAILED_def CONTENT_TOO_LARGE_def URITOO_LONG_def UNSUPPORTED_MEDIA_TYPE_def RANGE_NOT_SATISFIABLE_def EXPECTATION_FAILED_def IM_ATEAPOT_def MISDIRECTED_REQUEST_def UPGRADE_REQUIRED_def PRECONDITION_REQUIRED_def TOO_MANY_REQUESTS_def REQUEST_HEADER_FIELDS_TOO_LARGE_def UNAVAILABLE_FOR_LEGAL_REASONS_def INTERNAL_SERVER_ERROR_def NOT_IMPLEMENTED_def BAD_GATEWAY_def SERVICE_UNAVAILABLE_def GATEWAY_TIMEOUT_def HTTPVERSION_NOT_SUPPORTED_def VARIANT_ALSO_NEGOTIATES_def NOT_EXTENDED_def NETWORK_AUTHENTICATION_REQUIRED_def

text \<open>The numbers of the arms, and what holds of every phrase.\<close>

definition status_numbers :: "nat list" where
  "status_numbers = map (\<lambda>(c, p). unat c) REASON_PHRASES"

lemma status_numbers_eq:
  "status_numbers = [100, 101, 102, 103, 200, 201, 202, 203, 204, 205, 206, 300, 301, 302, 303, 304, 307, 308, 400, 401, 402, 403, 404, 405, 406, 407, 408, 409, 410, 411, 412, 413, 414, 415, 416, 417, 418, 421, 426, 428, 429, 431, 451, 500, 501, 502, 503, 504, 505, 506, 510, 511]"
  by (simp add: status_numbers_def REASON_PHRASES_def status_code_defs)

lemma distinct_status: "distinct (map fst REASON_PHRASES)"
proof -
  have "distinct status_numbers" unfolding status_numbers_eq by simp
  moreover have "status_numbers = map unat (map fst REASON_PHRASES)"
    by (simp add: status_numbers_def case_prod_unfold)
  ultimately show ?thesis using distinct_map [of unat "map fst REASON_PHRASES"] by metis
qed

definition plain_text :: "string \<Rightarrow> bool" where
  "plain_text p \<longleftrightarrow> p \<noteq> [] \<and> length p \<le> 31 \<and> list_all (\<lambda>b. b < 0x80 \<and> 0x20 \<le> b) (ascii p)"

lemma phrases_plain: "list_all (\<lambda>(c, p). plain_text p) REASON_PHRASES"
  by (simp add: REASON_PHRASES_def plain_text_def ascii_def)

lemma reason_phrase_cases:
  obtains "get_reason_phrase code = []" "code \<notin> fst ` set REASON_PHRASES"
    | p where "get_reason_phrase code = ascii p" "(code, p) \<in> set REASON_PHRASES" "plain_text p"
proof (cases "map_of REASON_PHRASES code")
  case None
  then have "code \<notin> fst ` set REASON_PHRASES" by (rule map_of_eq_None_iff [THEN iffD1])
  moreover have "get_reason_phrase code = []" unfolding get_reason_phrase_def None by simp
  ultimately show thesis using that(1) by blast
next
  case (Some p)
  then have "(code, p) \<in> set REASON_PHRASES" by (rule map_of_SomeD)
  moreover from this have "plain_text p" using phrases_plain by (auto simp: list_all_iff)
  ultimately show thesis using that(2) Some by (simp add: get_reason_phrase_def)
qed

lemma reason_phrase_plain:
  "is_ascii (get_reason_phrase code)" "0x0A \<notin> set (get_reason_phrase code)"
  "length (get_reason_phrase code) \<le> 31"
  by (cases code rule: reason_phrase_cases; force simp: is_ascii_def plain_text_def list_all_iff)+

lemma reason_phrase_known:
  "get_reason_phrase code \<noteq> [] \<longleftrightarrow> code \<in> fst ` set REASON_PHRASES"
  by (cases code rule: reason_phrase_cases) (force simp: plain_text_def ascii_def)+

end
