(* ===== verification/Response.thy ===== *)
theory Response
  imports Buf_Io Header_Map Status_Codes
begin

text \<open>
  \<open>http/src/response.rs\<close>, the response writer, and the end of \<open>http/src/http11.rs\<close>, how it
  writes the head of an HTTP/1.1 response.

  A response writer is a writer, the headers so far, and whether the head was written. Its
  two function pointers never change, so they are arguments of the operations. \<open>None\<close>: an
  assertion fails, or a callback panics. What \<open>bstr\<close> prints of a byte string (in one or more
  pieces) is the parameter \<open>pieces\<close>; the order in which the hash map of the headers is
  iterated is the parameter \<open>order\<close>.

  The lemmas: what the head is on the wire (\<open>write_status_ok\<close>), that nothing of it depends on
  the writer as long as it fits in the buffer (\<open>write_status_blind\<close>), and what a sequence of
  operations on a response sends (\<open>response_run_sent\<close>).
\<close>

section \<open>The response writer\<close>

record 'w response_writer =
  rw_writer :: 'w
  rw_headers :: header_map
  rw_written :: bool

type_synonym 'w status_fn =
  "'w response_writer \<Rightarrow> u16 \<Rightarrow> nat http_result \<Rightarrow> ('w response_writer \<times> nat http_result) option"

type_synonym 'w write_fn = "'w \<Rightarrow> bytes \<Rightarrow> nat http_result \<Rightarrow> (nat http_result \<times> 'w) option"

definition http_custom_response_writer :: "'w option \<Rightarrow> 'w response_writer option" where
  "http_custom_response_writer writer =
     map_option (\<lambda>w. \<lparr>rw_writer = w, rw_headers = hm_new, rw_written = False\<rparr>) writer"

text \<open>The write function that \<open>http_new_response_writer\<close> installs.\<close>

definition http_new_response_writer :: "'w write_cb \<Rightarrow> 'w option \<Rightarrow> ('w response_writer \<times> 'w write_fn) option" where
  "http_new_response_writer cb writer =
     map_option (\<lambda>rw. (rw, \<lambda>w data res. http_bio_write cb (Some w) (Some data) (Some res)))
       (http_custom_response_writer writer)"

definition http_write_status ::
  "'w status_fn \<Rightarrow> 'w response_writer option \<Rightarrow> u16 \<Rightarrow> nat http_result option
    \<Rightarrow> ('w response_writer \<times> nat http_result) option" where
  "http_write_status status_fn writer status res =
     (case writer of None \<Rightarrow> None | Some w \<Rightarrow>
     (case res of None \<Rightarrow> None | Some q \<Rightarrow>
       if \<not> is_sane (r_err q) then None
       else if rw_written w then map_option (\<lambda>q'. (w, q')) (set_ok q 0)
       else (case status_fn w status q of
               None \<Rightarrow> None
             | Some (w', q') \<Rightarrow>
                 if \<not> r_is_ok q' then Some (w', q')
                 else Some (w'\<lparr>rw_written := True\<rparr>, q'))))"

definition http_write ::
  "'w status_fn \<Rightarrow> 'w write_fn \<Rightarrow> 'w response_writer option \<Rightarrow> bytes option \<Rightarrow> nat http_result option
    \<Rightarrow> ('w response_writer \<times> nat http_result) option" where
  "http_write status_fn write_fn writer data res =
     (case writer of None \<Rightarrow> None | Some w \<Rightarrow>
     (case data of None \<Rightarrow> None | Some buf \<Rightarrow>
     (case res of None \<Rightarrow> None | Some q \<Rightarrow>
       if \<not> is_sane (r_err q) then None
       else (case (if \<not> rw_written w then http_write_status status_fn (Some w) OK (Some q)
                   else Some (w, q)) of
               None \<Rightarrow> None
             | Some (w', q') \<Rightarrow>
                 if \<not> rw_written w \<and> \<not> r_is_ok q' then Some (w', q')
                 else map_option (\<lambda>(q'', v). (w'\<lparr>rw_writer := v\<rparr>, q'')) (write_fn (rw_writer w') buf q')))))"

definition http_add_header ::
  "'w response_writer option \<Rightarrow> const_buffer \<Rightarrow> const_buffer \<Rightarrow> 'w response_writer option" where
  "http_add_header writer name val =
     (case writer of None \<Rightarrow> None | Some w \<Rightarrow>
       if \<not> const_is_sane name \<or> \<not> const_is_sane val then None
       else if const_as_slice name = [] then Some w
       else
         let name = to_ascii_lowercase (const_as_slice name);
             val = const_as_slice val
         in if hm_get (rw_headers w) name = None \<or> val \<noteq> []
            then Some (w\<lparr>rw_headers := hm_push name val (rw_headers w)\<rparr>)
            else Some w)"

definition http_remove_header ::
  "'w response_writer option \<Rightarrow> const_buffer \<Rightarrow> 'w response_writer option" where
  "http_remove_header writer header =
     (case writer of None \<Rightarrow> None | Some w \<Rightarrow>
       if \<not> const_is_sane header then None
       else Some (w\<lparr>rw_headers := hm_remove (const_as_slice header) (rw_headers w)\<rparr>))"

section \<open>The head of an HTTP/1.1 response\<close>

definition status_line :: "u16 \<Rightarrow> bytes list" where
  "status_line code =
     [ascii ''HTTP/1.1 '', digits 10 (unat code), ascii '' '', get_reason_phrase code, CRLF]"

fun write_header_lines ::
  "(bytes \<Rightarrow> bytes list) \<Rightarrow> 'w writer_fn \<Rightarrow> (bytes \<times> bytes) list \<Rightarrow> nat \<Rightarrow> 'w buf_writer
    \<Rightarrow> (io_error, nat) rs \<times> 'w buf_writer" where
  "write_header_lines pieces wr [] written b = (Ok written, b)"
| "write_header_lines pieces wr ((k, val) # kvs) written b =
     and_then (bw_write_fmt wr (pieces k @ [ascii '': ''] @ pieces val @ [CRLF]) b) (\<lambda>_ b.
     write_header_lines pieces wr kvs (written + (length k + 2 + length val + 2)) b)"

definition write_head ::
  "(bytes \<Rightarrow> bytes list) \<Rightarrow> (header_map \<Rightarrow> header_map) \<Rightarrow> 'w writer_fn \<Rightarrow> header_map \<Rightarrow> u16
    \<Rightarrow> 'w buf_writer \<Rightarrow> (io_error, nat) rs \<times> 'w buf_writer" where
  "write_head pieces order wr headers code b =
     and_then (bw_write_fmt wr (status_line code) b) (\<lambda>_ b.
     and_then (write_header_lines pieces wr (hm_lines (order headers))
                 (8 + 1 + 3 + 1 + length (get_reason_phrase code)) b) (\<lambda>written b.
     map_ok (\<lambda>_. written + 2) (bw_write_all wr CRLF b)))"

text \<open>
  The status function for HTTP/1.1. The result is set before the buffered writer is dropped,
  which flushes it.
\<close>

definition http11_write_status ::
  "(bytes \<Rightarrow> bytes list) \<Rightarrow> (header_map \<Rightarrow> header_map) \<Rightarrow> 'w writer_fn \<Rightarrow> 'w status_fn" where
  "http11_write_status pieces order wr w code res =
     (if \<not> is_sane (r_err res) then None
      else (case write_head pieces order wr (rw_headers w) code (buf_writer_new (rw_writer w)) of
              (x, b) \<Rightarrow>
                (case (case x of
                         Ok written \<Rightarrow> set_ok res written
                       | Err e \<Rightarrow> set_err res (display_io e)
                       | Panic \<Rightarrow> None) of
                   None \<Rightarrow> None
                 | Some res' \<Rightarrow>
                     map_option (\<lambda>v. (w\<lparr>rw_writer := v\<rparr>, res')) (bw_drop wr b))))"

definition http_http11_response_writer ::
  "(bytes \<Rightarrow> bytes) \<Rightarrow> (nat \<Rightarrow> bytes option) \<Rightarrow> (bytes \<Rightarrow> bytes list) \<Rightarrow> (header_map \<Rightarrow> header_map)
    \<Rightarrow> 'w write_cb \<Rightarrow> 'w option \<Rightarrow> ('w response_writer \<times> 'w write_fn \<times> 'w status_fn) option" where
  "http_http11_response_writer lossy os pieces order cb writer =
     map_option (\<lambda>(rw, write_fn). (rw, write_fn, http11_write_status pieces order (writer_write lossy os cb)))
       (http_new_response_writer cb writer)"

section \<open>The head on the wire\<close>

definition head_wire :: "(header_map \<Rightarrow> header_map) \<Rightarrow> header_map \<Rightarrow> u16 \<Rightarrow> bytes" where
  "head_wire order headers code =
     ascii ''HTTP/1.1 '' @ digits 10 (unat code) @ ascii '' '' @ get_reason_phrase code @ CRLF @
     concat (map (\<lambda>(k, v). k @ ascii '': '' @ v @ CRLF) (hm_lines (order headers))) @ CRLF"

text \<open>The names and values that are printed as they are: those that are text for \<open>bstr\<close>.\<close>

definition printed :: "(bytes \<Rightarrow> bytes list) \<Rightarrow> header_map \<Rightarrow> bool" where
  "printed pieces h \<longleftrightarrow> (\<forall>(k, v)\<in>set (hm_lines h). concat (pieces k) = k \<and> concat (pieces v) = v)"

text \<open>All that the head writes, in pieces, and the count that it reports.\<close>

definition head_pieces :: "(bytes \<Rightarrow> bytes list) \<Rightarrow> (bytes \<times> bytes) list \<Rightarrow> u16 \<Rightarrow> bytes list" where
  "head_pieces pieces kvs code =
     status_line code @ concat (map (\<lambda>(k, v). pieces k @ [ascii '': ''] @ pieces v @ [CRLF]) kvs) @ [CRLF]"

definition head_count :: "(bytes \<times> bytes) list \<Rightarrow> u16 \<Rightarrow> nat" where
  "head_count kvs code =
     13 + length (get_reason_phrase code) + (\<Sum>(k, v)\<leftarrow>kvs. length k + 2 + length v + 2) + 2"

lemma write_header_lines_pieces:
  "write_header_lines pieces wr kvs n b =
     map_ok (\<lambda>_. n + (\<Sum>(k, v)\<leftarrow>kvs. length k + 2 + length v + 2))
       (bw_write_fmt wr (concat (map (\<lambda>(k, v). pieces k @ [ascii '': ''] @ pieces v @ [CRLF]) kvs)) b)"
proof (induction kvs arbitrary: n b)
  case (Cons kv kvs)
  obtain k v where kv: "kv = (k, v)" by force
  let ?x = "bw_write_fmt wr (pieces k @ [ascii '': ''] @ pieces v @ [CRLF]) b"
  show ?case
    unfolding kv write_header_lines.simps list.map concat.simps prod.case bw_write_fmt_append [of wr "pieces k @ _"]
    by (cases ?x; cases "fst ?x") (simp_all add: Cons add.assoc)
qed simp

lemma write_head_pieces:
  "write_head pieces order wr h code b =
     map_ok (\<lambda>_. head_count (hm_lines (order h)) code)
       (bw_write_fmt wr (head_pieces pieces (hm_lines (order h)) code) b)"
proof -
  have last: "bw_write_all wr CRLF b = bw_write_fmt wr [CRLF] b" for b
    by (cases "bw_write_all wr CRLF b"; cases "fst (bw_write_all wr CRLF b)") auto
  let ?x = "bw_write_fmt wr (status_line code) b"
  let ?l = "concat (map (\<lambda>(k, v). pieces k @ [ascii '': ''] @ pieces v @ [CRLF]) (hm_lines (order h)))"
  show ?thesis
    unfolding write_head_def head_pieces_def write_header_lines_pieces last bw_write_fmt_append head_count_def
    by (cases ?x; cases "fst ?x"; cases "bw_write_fmt wr ?l (snd ?x)"; cases "fst (bw_write_fmt wr ?l (snd ?x))")
      (auto simp: numeral_eq_Suc)
qed

lemma head_wire_pieces:
  "printed pieces (order h) \<Longrightarrow> concat (head_pieces pieces (hm_lines (order h)) code) = head_wire order h code"
proof -
  assume "printed pieces (order h)"
  then have "concat (concat (map (\<lambda>(k, v). pieces k @ [ascii '': ''] @ pieces v @ [CRLF]) kvs)) =
      concat (map (\<lambda>(k, v). k @ ascii '': '' @ v @ CRLF) kvs)" if "set kvs \<subseteq> set (hm_lines (order h))" for kvs
    using that by (induction kvs) (auto simp: printed_def)
  then show ?thesis by (simp add: head_pieces_def status_line_def head_wire_def)
qed

lemma head_count_wire:
  assumes "100 \<le> unat code" and "unat code < 1000"
  shows "head_count (hm_lines (order h)) code + 2 = length (head_wire order h code)"
proof -
  have "length (digits 10 n) = 3" if "100 \<le> n" "n < 1000" for n
  proof -
    have "100 div 10 \<le> n div 10" using that(1) by (rule div_le_mono)
    then have "\<not> n < 10" "\<not> n div 10 < 10" using that(1) by simp_all
    moreover have "n div 10 div 10 < 10" using that(2) by (intro less_mult_imp_div_less) simp
    ultimately show ?thesis
      by (simp add: digits.simps [of 10 n] digits.simps [of 10 "n div 10"]
          digits.simps [of 10 "n div 10 div 10"])
  qed
  then have "length (digits 10 (unat code)) = 3" using assms by blast
  moreover have "(\<Sum>(k, v)\<leftarrow>kvs. length k + 2 + length v + 2) =
      length (concat (map (\<lambda>(k, v). k @ ascii '': '' @ v @ CRLF) kvs))" for kvs
    by (induction kvs) (auto simp: CRLF_def)
  ultimately show ?thesis by (simp add: head_count_def head_wire_def CRLF_def)
qed

section \<open>What the status function does\<close>

text \<open>As long as the head fits in the buffer, its success says nothing about the writer.\<close>

lemma write_status_blind:
  assumes "length (concat (head_pieces pieces (hm_lines (order (rw_headers w))) code)) < BUF_SIZE"
    and "wf_result res"
  shows "http11_write_status pieces order wr w code res =
    (let ps = head_pieces pieces (hm_lines (order (rw_headers w))) code
     in case set_ok res (head_count (hm_lines (order (rw_headers w))) code) of
          None \<Rightarrow> None
        | Some q \<Rightarrow> map_option (\<lambda>v. (w\<lparr>rw_writer := v\<rparr>, q))
            (bw_drop wr \<lparr>bw_buf = concat ps, bw_inner = rw_writer w\<rparr>))"
proof -
  have "is_sane (r_err res)" using assms(2) by (simp add: wf_result_def wf_sane)
  with assms(1) show ?thesis
    by (simp add: http11_write_status_def write_head_pieces bw_write_fmt_fits buf_writer_new_def Let_def)
qed

context byte_sink
begin

lemma write_status_ok:
  assumes "printed pieces (order (rw_headers w))" and "wf_result res"
  obtains v q where "http11_write_status pieces order wr w code res = Some (w\<lparr>rw_writer := v\<rparr>, q)"
    and "sent v = sent (rw_writer w) @ head_wire order (rw_headers w) code"
    and "wf_result q" and "r_is_ok q"
    and "r_ok q = Some (head_count (hm_lines (order (rw_headers w))) code)" and "as_slice (r_err q) = []"
    and "b_alloc (r_err q) = b_alloc (r_err res)"
proof -
  let ?n = "head_count (hm_lines (order (rw_headers w))) code"
  obtain b where b: "bw_write_fmt wr (head_pieces pieces (hm_lines (order (rw_headers w))) code)
      (buf_writer_new (rw_writer w)) = (Ok (), b)"
    and s: "bw_sent sent b = sent (rw_writer w) @ head_wire order (rw_headers w) code"
    using bw_write_fmt_ok [of "head_pieces pieces (hm_lines (order (rw_headers w))) code"
        "buf_writer_new (rw_writer w)"] by (auto simp: head_wire_pieces [where order = order and h = "rw_headers w", OF assms(1)])
  obtain v where v: "bw_drop wr b = Some v" "sent v = bw_sent sent b" using bw_drop_ok by blast
  obtain q where q: "set_ok res ?n = Some q" "wf_result q" "r_is_ok q" "r_ok q = Some ?n"
    "as_slice (r_err q) = []" "b_alloc (r_err q) = b_alloc (r_err res)" by (rule set_ok_spec [OF assms(2)])
  have "is_sane (r_err res)" using assms(2) by (simp add: wf_result_def wf_sane)
  then have "http11_write_status pieces order wr w code res = Some (w\<lparr>rw_writer := v\<rparr>, q)"
    by (simp add: http11_write_status_def write_head_pieces b v q)
  then show thesis using s v(2) q by (intro that [of v q]) simp_all
qed

end

section \<open>A response as a sequence of operations\<close>

text \<open>The calls that the user of a response writer makes, each with a result of its own.\<close>

datatype response_op =
    Add_Header bytes bytes
  | Remove_Header bytes
  | Write_Status u16
  | Write_Data bytes

fun response_step ::
  "'w status_fn \<Rightarrow> 'w write_fn \<Rightarrow> nat http_result \<Rightarrow> response_op \<Rightarrow> 'w response_writer
    \<Rightarrow> ('w response_writer \<times> nat http_result) option" where
  "response_step sf wfn res (Add_Header name val) w =
     map_option (\<lambda>w. (w, res)) (http_add_header (Some w) (const_from name) (const_from val))"
| "response_step sf wfn res (Remove_Header name) w =
     map_option (\<lambda>w. (w, res)) (http_remove_header (Some w) (const_from name))"
| "response_step sf wfn res (Write_Status code) w = http_write_status sf (Some w) code (Some res)"
| "response_step sf wfn res (Write_Data buf) w = http_write sf wfn (Some w) (Some buf) (Some res)"

text \<open>A run, with the counts that the calls reported.\<close>

inductive response_run ::
  "'w status_fn \<Rightarrow> 'w write_fn \<Rightarrow> nat http_result \<Rightarrow> 'w response_writer \<Rightarrow> (response_op \<times> nat) list
    \<Rightarrow> 'w response_writer \<Rightarrow> bool"
  for sf wfn res where
  start: "response_run sf wfn res w [] w"
| call: "response_run sf wfn res w ops w1 \<Longrightarrow>
    response_step sf wfn res op w1 = Some (w2, q) \<Longrightarrow> r_is_ok q \<Longrightarrow> r_ok q = Some n \<Longrightarrow>
    response_run sf wfn res w (ops @ [(op, n)]) w2"

text \<open>
  What a run should send: nothing before the head, the head once, with the headers at that
  moment, then the part of each piece of data that its call reported.
\<close>

fun header_op :: "response_op \<Rightarrow> header_map \<Rightarrow> header_map" where
  "header_op (Add_Header name val) h =
     (let name = to_ascii_lowercase name
      in if name = [] \<or> (hm_get h name \<noteq> None \<and> val = []) then h else hm_push name val h)"
| "header_op (Remove_Header name) h = hm_remove name h"
| "header_op op h = h"

fun response_spec ::
  "(header_map \<Rightarrow> u16 \<Rightarrow> bytes) \<Rightarrow> response_op \<times> nat \<Rightarrow> header_map \<times> bool \<times> bytes
    \<Rightarrow> header_map \<times> bool \<times> bytes" where
  "response_spec head (Write_Status code, n) (h, started, out) =
     (h, True, out @ (if started then [] else head h code))"
| "response_spec head (Write_Data d, n) (h, started, out) =
     (h, True, out @ (if started then [] else head h OK) @ take n d)"
| "response_spec head (op, n) (h, started, out) = (header_op op h, started, out)"

text \<open>Operations on text, with some data to write.\<close>

fun op_plain :: "(bytes \<Rightarrow> bytes list) \<Rightarrow> response_op \<Rightarrow> bool" where
  "op_plain pieces (Add_Header name val) \<longleftrightarrow>
     concat (pieces (to_ascii_lowercase name)) = to_ascii_lowercase name \<and> concat (pieces val) = val"
| "op_plain pieces (Write_Data d) \<longleftrightarrow> d \<noteq> []"
| "op_plain pieces op \<longleftrightarrow> True"

lemma hm_lines_push:
  "set (hm_lines (hm_push k v h)) \<subseteq> insert (k, v) (set (hm_lines h))"
  by (induction k v h rule: hm_push.induct) auto

lemma hm_lines_remove: "set (hm_lines (hm_remove k h)) \<subseteq> set (hm_lines h)"
  by (auto simp: hm_lines_def hm_remove_def)

lemma printed_header_op:
  assumes "op_plain pieces op" and "printed pieces h"
  shows "printed pieces (header_op op h)"
  using assms hm_lines_push hm_lines_remove
  by (cases op) (fastforce simp: printed_def Let_def)+

lemma printed_order: "iterates order \<Longrightarrow> printed pieces h \<Longrightarrow> printed pieces (order h)"
proof -
  assume "iterates order" and h: "printed pieces h"
  then have "set (order h) = set h" unfolding iterates_def by (metis set_mset_mset)
  with h show ?thesis by (auto simp: printed_def hm_lines_def)
qed

lemma const_from_sane [simp]: "const_is_sane (const_from v)" "const_as_slice (const_from v) = v"
  by (simp_all add: const_is_sane_def const_from_def const_as_slice_def)

lemma header_step:
  "response_step sf wfn res (Add_Header name val) w =
     Some (w\<lparr>rw_headers := header_op (Add_Header name val) (rw_headers w)\<rparr>, res)"
  "response_step sf wfn res (Remove_Header name) w =
     Some (w\<lparr>rw_headers := header_op (Remove_Header name) (rw_headers w)\<rparr>, res)"
  by (auto simp: http_add_header_def http_remove_header_def Let_def)

context byte_sink
begin

lemma bio_write_ok:
  assumes "buf \<noteq> []" and "wf_result res"
  obtains k v q where "http_bio_write (writer_from_write wr) (Some w) (Some buf) (Some res) = Some (q, v)"
    and "sent v = sent w @ take k buf" and "0 < k" and "k \<le> length buf"
    and "r_is_ok q" and "r_ok q = Some k" and "wf_result q"
proof -
  from takes [OF assms(1)] obtain k v where k: "wr w buf = (Ok k, v)" "0 < k" "k \<le> length buf"
    "sent v = sent w @ take k buf" by blast
  obtain q where "set_ok res k = Some q" "wf_result q" "r_is_ok q" "r_ok q = Some k"
    by (rule set_ok_spec [OF assms(2)])
  with k show thesis by (intro that [of q v k]) (simp_all add: http_bio_write_def writer_from_write_def)
qed

text \<open>Every call succeeds and does what the specification says.\<close>

lemma response_step_ok:
  fixes lossy os pieces order
  defines "cb \<equiv> writer_from_write wr"
  defines "sf \<equiv> http11_write_status pieces order (writer_write lossy os cb)"
    and "wfn \<equiv> \<lambda>v data res. http_bio_write cb (Some v) (Some data) (Some res)"
  assumes "wf_result res" and "r_is_ok res" and "op_plain pieces op"
    and "printed pieces (rw_headers w)" and "iterates order"
  obtains w' q n where "response_step sf wfn res op w = Some (w', q)" and "r_is_ok q" and "r_ok q = Some n"
    and "response_spec (head_wire order) (op, n) (rw_headers w, rw_written w, sent (rw_writer w)) =
      (rw_headers w', rw_written w', sent (rw_writer w'))"
proof -
  have sane: "is_sane (r_err res)" using assms(4) by (simp add: wf_result_def wf_sane)
  have head: "\<exists>v q n. http_write_status sf (Some w) code (Some res) = Some (w\<lparr>rw_writer := v, rw_written := True\<rparr>, q) \<and>
      sent v = sent (rw_writer w) @ head_wire order (rw_headers w) code \<and> r_is_ok q \<and> r_ok q = Some n \<and> wf_result q"
    if "\<not> rw_written w" for code
  proof -
    obtain v q where "sf w code res = Some (w\<lparr>rw_writer := v\<rparr>, q)"
      "sent v = sent (rw_writer w) @ head_wire order (rw_headers w) code" "wf_result q" "r_is_ok q"
      "r_ok q = Some (head_count (hm_lines (order (rw_headers w))) code)"
      unfolding sf_def cb_def
      by (rule byte_sink.write_status_ok [where order = order and w = w, OF wrapped printed_order [OF assms(8,7)] assms(4)])
    with that sane show ?thesis
      by (intro exI [of _ v] exI [of _ q] exI [of _ "head_count (hm_lines (order (rw_headers w))) code"])
        (simp add: http_write_status_def)
  qed
  obtain q0 where again: "set_ok res 0 = Some q0" "wf_result q0" "r_is_ok q0" "r_ok q0 = Some 0"
    by (rule set_ok_spec [OF assms(4)])
  obtain r where r: "r_ok res = Some r" using assms(4) by (auto simp: wf_result_def)
  show thesis
  proof (cases op)
    case (Add_Header name val)
    with that [of "w\<lparr>rw_headers := header_op op (rw_headers w)\<rparr>" res r] assms(5) r show thesis
      by (simp add: header_step del: response_step.simps header_op.simps)
  next
    case (Remove_Header name)
    with that [of "w\<lparr>rw_headers := header_op op (rw_headers w)\<rparr>" res r] assms(5) r show thesis
      by (simp add: header_step del: response_step.simps header_op.simps)
  next
    case (Write_Status code)
    show thesis
    proof (cases "rw_written w")
      case True
      with that [of w q0 0] Write_Status sane again show thesis by (simp add: http_write_status_def)
    next
      case False
      from head [OF False, of code] obtain v q n where
        "http_write_status sf (Some w) code (Some res) = Some (w\<lparr>rw_writer := v, rw_written := True\<rparr>, q)"
        "sent v = sent (rw_writer w) @ head_wire order (rw_headers w) code" "r_is_ok q" "r_ok q = Some n"
        by blast
      with that [of "w\<lparr>rw_writer := v, rw_written := True\<rparr>" q n] Write_Status False show thesis by simp
    qed
  next
    case (Write_Data d)
    with assms(6) have d: "d \<noteq> []" by simp
    show thesis
    proof (cases "rw_written w")
      case True
      obtain k v q where 1: "wfn (rw_writer w) d res = Some (q, v)"
        "sent v = sent (rw_writer w) @ take k d" "r_is_ok q" "r_ok q = Some k"
        unfolding wfn_def cb_def by (rule bio_write_ok [OF d assms(4), of "rw_writer w"])
      show thesis
      proof (rule that)
        show "response_step sf wfn res op w = Some (w\<lparr>rw_writer := v\<rparr>, q)"
          using True sane 1(1) by (simp add: Write_Data http_write_def)
      qed (use 1 True Write_Data in simp_all)
    next
      case False
      from head [OF False, of OK] obtain v q n where
        1: "http_write_status sf (Some w) OK (Some res) = Some (w\<lparr>rw_writer := v, rw_written := True\<rparr>, q)"
        "sent v = sent (rw_writer w) @ head_wire order (rw_headers w) OK" "r_is_ok q" "wf_result q"
        by blast
      obtain k v' q' where 2: "wfn v d q = Some (q', v')" "sent v' = sent v @ take k d" "r_is_ok q'" "r_ok q' = Some k"
        unfolding wfn_def cb_def by (rule bio_write_ok [OF d 1(4), of v])
      show thesis
      proof (rule that)
        show "response_step sf wfn res op w = Some (w\<lparr>rw_writer := v', rw_written := True\<rparr>, q')"
          using False sane 1(1,3) 2(1) by (simp add: Write_Data http_write_def)
      qed (use 1 2 False Write_Data in simp_all)
    qed
  qed
qed

lemma response_run_sent:
  fixes lossy os pieces order
  defines "cb \<equiv> writer_from_write wr"
  defines "sf \<equiv> http11_write_status pieces order (writer_write lossy os cb)"
    and "wfn \<equiv> \<lambda>v data res. http_bio_write cb (Some v) (Some data) (Some res)"
  assumes "response_run sf wfn res w ops w'" and "wf_result res" and "r_is_ok res"
    and "list_all (\<lambda>(op, n). op_plain pieces op) ops"
    and "printed pieces (rw_headers w)" and "iterates order"
  shows "fold (response_spec (head_wire order)) ops (rw_headers w, rw_written w, sent (rw_writer w)) =
      (rw_headers w', rw_written w', sent (rw_writer w')) \<and> printed pieces (rw_headers w')"
  using assms(4,7,8)
proof (induction rule: response_run.induct)
  case (call w ops w1 op w2 q n)
  then have ih: "fold (response_spec (head_wire order)) ops (rw_headers w, rw_written w, sent (rw_writer w)) =
      (rw_headers w1, rw_written w1, sent (rw_writer w1))" "printed pieces (rw_headers w1)"
    and plain: "op_plain pieces op" by simp_all
  obtain w' q' n' where s: "response_step sf wfn res op w1 = Some (w', q')" "r_ok q' = Some n'"
    "response_spec (head_wire order) (op, n') (rw_headers w1, rw_written w1, sent (rw_writer w1)) =
      (rw_headers w', rw_written w', sent (rw_writer w'))"
    unfolding sf_def wfn_def cb_def by (rule response_step_ok [OF assms(5,6) plain ih(2) assms(9)])
  with call.hyps have eq: "w' = w2" "n' = n" by simp_all
  have "rw_headers w2 = header_op op (rw_headers w1)" using s(3) eq by (cases op) simp_all
  then have "printed pieces (rw_headers w2)" using printed_header_op [OF plain ih(2)] by simp
  with ih(1) s(3) eq show ?case by simp
qed simp

text \<open>Any such operations can be run: no call fails.\<close>

lemma response_run_total:
  fixes lossy os pieces order
  defines "cb \<equiv> writer_from_write wr"
  defines "sf \<equiv> http11_write_status pieces order (writer_write lossy os cb)"
    and "wfn \<equiv> \<lambda>v data res. http_bio_write cb (Some v) (Some data) (Some res)"
  assumes "wf_result res" and "r_is_ok res" and "printed pieces (rw_headers w)" and "iterates order"
  shows "list_all (op_plain pieces) ops \<Longrightarrow> \<exists>evs w'. map fst evs = ops \<and> response_run sf wfn res w evs w'"
proof (induction ops rule: rev_induct)
  case Nil
  then show ?case by (intro exI [of _ "[]"] exI [of _ w]) (simp add: response_run.start)
next
  case (snoc op ops)
  then obtain evs w1 where run: "map fst evs = ops" "response_run sf wfn res w evs w1" by auto
  have "list_all (\<lambda>(op, n). op_plain pieces op) evs"
    using snoc.prems run(1) by (force simp: list_all_iff)
  then have "printed pieces (rw_headers w1)"
    using response_run_sent [OF run(2) [unfolded sf_def wfn_def cb_def] assms(4,5) _ assms(6,7)] by blast
  moreover have "op_plain pieces op" using snoc.prems by simp
  ultimately obtain w' q n where "response_step sf wfn res op w1 = Some (w', q)" "r_is_ok q" "r_ok q = Some n"
    unfolding sf_def wfn_def cb_def using response_step_ok [OF assms(4,5) _ _ assms(7)] by metis
  with run(2) have "response_run sf wfn res w (evs @ [(op, n)]) w'" by (rule response_run.call)
  with run(1) show ?case by (intro exI [of _ "evs @ [(op, n)]"]) auto
qed

end

text \<open>Names are kept in lower case, so a header that was added is found under any case of its name
  in lower case, and removing it by the name it was added with does nothing when that has a capital.\<close>

lemma remove_header_keeps_capitals:
  assumes "http_add_header (Some w) (const_from name) (const_from val) = Some w1"
    and "name \<noteq> []" and "val \<noteq> []" and "hm_get (rw_headers w) name = None" and "to_ascii_lowercase name \<noteq> name"
    and "http_remove_header (Some w1) (const_from name) = Some w2"
  shows "hm_values (rw_headers w2) (to_ascii_lowercase name) =
    hm_values (rw_headers w) (to_ascii_lowercase name) @ [val]"
  using assms by (auto simp: http_add_header_def http_remove_header_def Let_def hm.push_values hm.remove_values)

end
