(* ===== verification/Http11_Body.thy ===== *)
theory Http11_Body
  imports Buf_Io Header_Map
begin

text \<open>
  \<open>http/src/http11.rs\<close>, the body of a request: \<open>Body\<close>, a reader that stops after the announced
  length or goes from chunk to chunk, and \<open>get_body_reader\<close>, which chooses between the two.

  The interface \<open>body_stream\<close> says what reading a body with any buffers gives; it holds for a
  body of a given length (\<open>length_stream\<close>) and for a chunked one (\<open>chunked_stream\<close>), up to the
  end of the body. After the end of a chunked body another read takes the next lines of the
  connection for a chunk (\<open>read_after_end\<close>).
\<close>

section \<open>The body reader\<close>

record 'r body =
  bd_reader :: "'r buf_reader"
  bd_content_length :: "nat option"
  bd_chunked :: bool

text \<open>\<open>NonZeroUsize::new\<close>\<close>

definition non_zero :: "nat \<Rightarrow> nat option" where
  "non_zero n = (if n = 0 then None else Some n)"

text \<open>The read from the reader inside, of at most \<open>len\<close> bytes.\<close>

definition body_take ::
  "'r reader_fn \<Rightarrow> 'r body \<Rightarrow> nat \<Rightarrow> nat \<Rightarrow> (io_error, nat) rs \<times> bytes \<times> 'r body" where
  "body_take rd b len n =
     (case br_read rd (bd_reader b) (if n > len then len else n) of
        (Ok k, got, r) \<Rightarrow>
          if k > len then (Panic, got, b\<lparr>bd_reader := r\<rparr>)
          else (Ok k, got, b\<lparr>bd_reader := r, bd_content_length := non_zero (len - k)\<rparr>)
      | (Err e, got, r) \<Rightarrow> (Err e, got, b\<lparr>bd_reader := r\<rparr>)
      | (Panic, got, r) \<Rightarrow> (Panic, got, b\<lparr>bd_reader := r\<rparr>))"

text \<open>\<open>impl Read for Body\<close>; \<open>None\<close>: a line does not end.\<close>

definition body_read ::
  "'r reader_fn \<Rightarrow> 'r body \<Rightarrow> nat \<Rightarrow> ((io_error, nat) rs \<times> bytes \<times> 'r body) option" where
  "body_read rd b n =
     (case bd_content_length b of
        Some len \<Rightarrow> Some (body_take rd b len n)
      | None \<Rightarrow>
          if \<not> bd_chunked b then Some (Ok 0, [], b)
          else
            (case read_line rd (bd_reader b) of
               None \<Rightarrow> None
             | Some (Err e, r) \<Rightarrow> Some (Err e, [], b\<lparr>bd_reader := r\<rparr>)
             | Some (Panic, r) \<Rightarrow> Some (Panic, [], b\<lparr>bd_reader := r\<rparr>)
             | Some (Ok _, r) \<Rightarrow>
                 (case read_line rd r of
                    None \<Rightarrow> None
                  | Some (Err e, r) \<Rightarrow> Some (Err e, [], b\<lparr>bd_reader := r\<rparr>)
                  | Some (Panic, r) \<Rightarrow> Some (Panic, [], b\<lparr>bd_reader := r\<rparr>)
                  | Some (Ok line, r) \<Rightarrow>
                      (case from_str_radix 16 (trim_end line) of
                         Inl e \<Rightarrow> Some (Err (IoOther (display_parse_int_error e)), [], b\<lparr>bd_reader := r\<rparr>)
                       | Inr len \<Rightarrow>
                           if len = 0 then Some (Ok 0, [], b\<lparr>bd_reader := r\<rparr>)
                           else Some (body_take rd (b\<lparr>bd_reader := r\<rparr>) len n)))))"

definition get_body_reader ::
  "'r reader_fn \<Rightarrow> 'r buf_reader \<Rightarrow> header_map \<Rightarrow> (bytes, 'r body) rs option" where
  "get_body_reader rd reader headers =
     (if (case hm_get headers (ascii ''transfer-encoding'') of
            None \<Rightarrow> False | Some vs \<Rightarrow> ascii ''chunked'' \<in> set vs)
      then
        (case read_line rd reader of
           None \<Rightarrow> None
         | Some (Err e, r) \<Rightarrow> Some (Err (ascii ''Failed to read chunked encoding line: '' @ display_io e))
         | Some (Panic, r) \<Rightarrow> Some Panic
         | Some (Ok line, r) \<Rightarrow>
             (case from_str_radix 16 (trim_end line) of
                Inl e \<Rightarrow>
                  Some (Err (ascii ''Failed to get chunked encoding first length: '' @ display_parse_int_error e))
              | Inr len \<Rightarrow>
                  if len = 0
                  then Some (Ok \<lparr>bd_reader = r, bd_content_length = None, bd_chunked = False\<rparr>)
                  else Some (Ok \<lparr>bd_reader = r, bd_content_length = non_zero len, bd_chunked = True\<rparr>)))
      else
        (case hm_get headers (ascii ''content-length'') of
           Some [] \<Rightarrow> Some Panic
         | vs \<Rightarrow>
             (let text = (case vs of Some (v # _) \<Rightarrow> if utf8_valid v then v else ascii ''0'' | _ \<Rightarrow> ascii ''0'')
              in case from_str_radix 10 text of
                   Inl e \<Rightarrow> Some (Err (ascii ''Failed to parse content length: '' @ display_parse_int_error e))
                 | Inr len \<Rightarrow>
                     Some (Ok \<lparr>bd_reader = reader, bd_content_length = non_zero len, bd_chunked = False\<rparr>))))"

section \<open>Reading a body to its end\<close>

text \<open>
  A client that reads with buffers of the given sizes until a read returns zero, or the
  sizes are used up.
\<close>

fun read_with ::
  "('s \<Rightarrow> nat \<Rightarrow> ((io_error, nat) rs \<times> bytes \<times> 's) option) \<Rightarrow> nat list \<Rightarrow> 's
    \<Rightarrow> ((io_error, bytes) rs \<times> 's) option" where
  "read_with rdf [] s = Some (Ok [], s)"
| "read_with rdf (n # ns) s =
     (case rdf s n of
        None \<Rightarrow> None
      | Some (Err e, got, s') \<Rightarrow> Some (Err e, s')
      | Some (Panic, got, s') \<Rightarrow> Some (Panic, s')
      | Some (Ok k, got, s') \<Rightarrow>
          if k = 0 then Some (Ok [], s')
          else map_option (map_ok (\<lambda>xs. take k got @ xs)) (read_with rdf ns s'))"

locale body_stream =
  fixes rdf :: "'s \<Rightarrow> nat \<Rightarrow> ((io_error, nat) rs \<times> bytes \<times> 's) option"
    and holds :: "bytes \<Rightarrow> bytes \<Rightarrow> 's \<Rightarrow> bool"
    and finished :: "bytes \<Rightarrow> 's \<Rightarrow> bool"
  assumes more: "holds xs rest s \<Longrightarrow> xs \<noteq> [] \<Longrightarrow> 0 < n \<Longrightarrow>
      \<exists>k s'. rdf s n = Some (Ok k, take k xs, s') \<and> 0 < k \<and> k \<le> n \<and> k \<le> length xs \<and>
        holds (drop k xs) rest s'"
    and stop: "holds [] rest s \<Longrightarrow> \<exists>s'. rdf s n = Some (Ok 0, [], s') \<and> finished rest s'"
begin

lemma read_with_all:
  "holds xs rest s \<Longrightarrow> length xs < length ns \<Longrightarrow> \<forall>n\<in>set ns. 0 < n \<Longrightarrow>
   \<exists>s'. read_with rdf ns s = Some (Ok xs, s') \<and> finished rest s'"
proof (induction ns arbitrary: xs s)
  case (Cons n ns)
  show ?case
  proof (cases "xs = []")
    case True
    with stop [of rest s n] Cons.prems show ?thesis by auto
  next
    case False
    with more [of xs rest s n] Cons.prems obtain k s' where
      k: "rdf s n = Some (Ok k, take k xs, s')" "0 < k" "k \<le> length xs" "holds (drop k xs) rest s'" by auto
    moreover have "length (drop k xs) < length ns" using k(2,3) Cons.prems(2) by simp
    ultimately obtain s'' where "read_with rdf ns s' = Some (Ok (drop k xs), s'')" "finished rest s''"
      using Cons.IH [of "drop k xs" s'] Cons.prems(3) by auto
    with k show ?thesis by simp
  qed
qed simp

end

section \<open>A body of a given length\<close>

definition length_holds :: "('r \<Rightarrow> bytes) \<Rightarrow> bytes \<Rightarrow> bytes \<Rightarrow> 'r body \<Rightarrow> bool" where
  "length_holds pending xs rest b \<longleftrightarrow>
     \<not> bd_chunked b \<and> bd_content_length b = non_zero (length xs) \<and>
     br_pending pending (bd_reader b) = xs @ rest"

definition body_finished :: "('r \<Rightarrow> bytes) \<Rightarrow> bool \<Rightarrow> bytes \<Rightarrow> 'r body \<Rightarrow> bool" where
  "body_finished pending chunked rest b \<longleftrightarrow>
     bd_chunked b = chunked \<and> bd_content_length b = None \<and> br_pending pending (bd_reader b) = rest"

context byte_source
begin

text \<open>A read inside the announced length.\<close>

lemma body_take_ok:
  assumes "br_pending pending (bd_reader b) = xs @ rest" and "xs \<noteq> []" and "0 < n"
  obtains k r where "body_take rd b (length xs) n =
      (Ok k, take k xs, b\<lparr>bd_reader := r, bd_content_length := non_zero (length xs - k)\<rparr>)"
    and "0 < k" and "k \<le> n" and "k \<le> length xs" and "br_pending pending r = drop k xs @ rest"
proof -
  let ?m = "if n > length xs then length xs else n"
  have "0 < ?m" "br_pending pending (bd_reader b) \<noteq> []" using assms by auto
  then obtain k r where k: "br_read rd (bd_reader b) ?m = (Ok k, take k (br_pending pending (bd_reader b)), r)"
    "0 < k" "k \<le> ?m" "br_pending pending r = drop k (br_pending pending (bd_reader b))"
    using byte_source.delivers [OF buffered_source] by blast
  have "k \<le> length xs" "k \<le> n" using k(3) by (auto split: if_splits)
  with k assms(1) show thesis by (intro that [of k r]) (simp_all add: body_take_def)
qed

lemma length_stream: "body_stream (body_read rd) (length_holds pending) (body_finished pending False)"
proof
  fix xs rest b and n :: nat
  assume h: "length_holds pending xs rest b" and ne: "xs \<noteq> []" and n: "0 < n"
  from h have p: "br_pending pending (bd_reader b) = xs @ rest" by (simp add: length_holds_def)
  obtain k r where "body_take rd b (length xs) n =
      (Ok k, take k xs, b\<lparr>bd_reader := r, bd_content_length := non_zero (length xs - k)\<rparr>)"
    "0 < k" "k \<le> n" "k \<le> length xs" "br_pending pending r = drop k xs @ rest"
    by (rule body_take_ok [OF p ne n])
  with h ne show "\<exists>k b'. body_read rd b n = Some (Ok k, take k xs, b') \<and> 0 < k \<and> k \<le> n \<and> k \<le> length xs \<and>
      length_holds pending (drop k xs) rest b'"
    by (intro exI [of _ k]) (simp add: length_holds_def body_read_def non_zero_def)
next
  fix rest b and n :: nat
  assume "length_holds pending [] rest b"
  then show "\<exists>b'. body_read rd b n = Some (Ok 0, [], b') \<and> body_finished pending False rest b'"
    by (simp add: length_holds_def body_read_def non_zero_def body_finished_def)
qed

end

section \<open>A chunked body\<close>

text \<open>A line that says the size of a chunk: anything that the reader takes for the number.\<close>

definition size_line :: "bytes \<Rightarrow> nat \<Rightarrow> bool" where
  "size_line l n \<longleftrightarrow>
     (\<exists>xs. l = xs @ [0x0A] \<and> 0x0A \<notin> set xs) \<and> utf8_valid l \<and> from_str_radix 16 (trim_end l) = Inr n"

text \<open>A chunk is its size line and its data; after the data comes a line break.\<close>

definition chunk_ok :: "bytes \<times> bytes \<Rightarrow> bool" where
  "chunk_ok c \<longleftrightarrow> size_line (fst c) (length (snd c)) \<and> snd c \<noteq> []"

text \<open>What follows the data of a chunk, up to and including the line of the last chunk.\<close>

definition chunks_after :: "(bytes \<times> bytes) list \<Rightarrow> bytes \<Rightarrow> bytes" where
  "chunks_after cs last_line = concat (map (\<lambda>(l, d). CRLF @ l @ d) cs) @ CRLF @ last_line"

lemma chunks_after_simps:
  "chunks_after [] z = CRLF @ z" "chunks_after (c # cs) z = CRLF @ fst c @ snd c @ chunks_after cs z"
  by (simp_all add: chunks_after_def case_prod_unfold)

definition payload :: "(bytes \<times> bytes) list \<Rightarrow> bytes" where
  "payload cs = concat (map snd cs)"

text \<open>The sizes that \<open>LowerHex\<close> prints are such lines.\<close>

lemma size_line_digits:
  assumes "n < usize_lim"
  shows "size_line (digits 16 n @ CRLF) n"
proof -
  have "\<exists>xs. digits 16 n @ CRLF = xs @ [0x0A] \<and> 0x0A \<notin> set xs"
    using digits_text(2) [of 16 n] by (intro exI [of _ "digits 16 n @ [0x0D]"]) (simp add: CRLF_def)
  moreover have "utf8_valid (digits 16 n @ CRLF)"
    using digits_text(1) [of 16 n] by (intro utf8_ascii) (simp add: CRLF_def)
  moreover have "trim_end (digits 16 n @ CRLF) = digits 16 n" using digits_text(3) [of 16 n] by (simp add: CRLF_def)
  ultimately show ?thesis using from_str_digits [of 16 n] assms by (simp add: size_line_def)
qed

definition chunked_holds ::
  "('r \<Rightarrow> bytes) \<Rightarrow> bytes \<Rightarrow> bytes \<Rightarrow> bytes \<Rightarrow> 'r body \<Rightarrow> bool" where
  "chunked_holds pending last_line xs rest b \<longleftrightarrow>
     bd_chunked b \<and> size_line last_line 0 \<and>
     (\<exists>d cs. xs = d @ payload cs \<and> list_all chunk_ok cs \<and> bd_content_length b = non_zero (length d) \<and>
        br_pending pending (bd_reader b) = d @ chunks_after cs last_line @ rest)"

context byte_source
begin

lemma read_size_line:
  assumes "br_pending pending b = l @ ys" and "size_line l n"
  obtains b' where "read_line rd b = Some (Ok l, b')" and "br_pending pending b' = ys"
proof -
  from assms(2) obtain xs where l: "l = xs @ [0x0A]" "0x0A \<notin> set xs" "utf8_valid (xs @ [0x0A])"
    by (auto simp: size_line_def)
  from assms(1) l have "br_pending pending b = xs @ 0x0A # ys" by simp
  from read_line_next [OF this l(2,3)] that l(1) show thesis by blast
qed

lemma read_break:
  assumes "br_pending pending b = CRLF @ ys"
  obtains b' where "read_line rd b = Some (Ok CRLF, b')" and "br_pending pending b' = ys"
  using read_line_next [of b "[0x0D]" ys] assms that by (auto simp: CRLF_def)

text \<open>Between two chunks a read takes the line break and the size of the next chunk.\<close>

lemma body_read_next:
  assumes "bd_chunked b" and "bd_content_length b = None"
    and "br_pending pending (bd_reader b) = CRLF @ l @ ys" and "size_line l m"
  obtains r where "br_pending pending r = ys"
    and "body_read rd b n =
      (if m = 0 then Some (Ok 0, [], b\<lparr>bd_reader := r\<rparr>) else Some (body_take rd (b\<lparr>bd_reader := r\<rparr>) m n))"
proof -
  from read_break [OF assms(3)] obtain r1 where 1: "read_line rd (bd_reader b) = Some (Ok CRLF, r1)"
    "br_pending pending r1 = l @ ys" by blast
  from read_size_line [OF 1(2) assms(4)] obtain r2 where 2: "read_line rd r1 = Some (Ok l, r2)"
    "br_pending pending r2 = ys" by blast
  with 1 assms show thesis by (intro that [of r2]) (simp_all add: body_read_def size_line_def)
qed

lemma chunked_stream:
  "body_stream (body_read rd) (chunked_holds pending last_line) (body_finished pending True)"
proof
  fix xs rest b and n :: nat
  assume h: "chunked_holds pending last_line xs rest b" and ne: "xs \<noteq> []" and n: "0 < n"
  from h obtain d cs where c: "bd_chunked b" "size_line last_line 0" "xs = d @ payload cs" "list_all chunk_ok cs"
    "bd_content_length b = non_zero (length d)"
    "br_pending pending (bd_reader b) = d @ chunks_after cs last_line @ rest"
    by (auto simp: chunked_holds_def)
  obtain b1 d1 cs1 where 1: "body_read rd b n = Some (body_take rd b1 (length d1) n)" "bd_chunked b1"
    "xs = d1 @ payload cs1" "d1 \<noteq> []" "list_all chunk_ok cs1"
    "br_pending pending (bd_reader b1) = d1 @ chunks_after cs1 last_line @ rest"
  proof (cases "d = []")
    case False
    with c show thesis by (intro that [of b d cs]) (simp_all add: body_read_def non_zero_def)
  next
    case True
    with ne c(3) obtain l e cs' where cs: "cs = (l, e) # cs'" by (cases cs) (auto simp: payload_def)
    with c(4) have e: "size_line l (length e)" "e \<noteq> []" by (simp_all add: chunk_ok_def)
    from c(6) cs True have "br_pending pending (bd_reader b) = CRLF @ l @ (e @ chunks_after cs' last_line @ rest)"
      by (simp add: chunks_after_simps)
    from body_read_next [OF c(1) _ this e(1), of n] c(5) True obtain r where
      "br_pending pending r = e @ chunks_after cs' last_line @ rest"
      "body_read rd b n = Some (body_take rd (b\<lparr>bd_reader := r\<rparr>) (length e) n)"
      using e(2) by (auto simp: non_zero_def)
    with c(1,3,4) cs True e(2) show thesis
      by (intro that [of "b\<lparr>bd_reader := r\<rparr>" e cs']) (simp_all add: payload_def)
  qed
  obtain k r where "body_take rd b1 (length d1) n =
      (Ok k, take k d1, b1\<lparr>bd_reader := r, bd_content_length := non_zero (length d1 - k)\<rparr>)"
    "0 < k" "k \<le> n" "k \<le> length d1" "br_pending pending r = drop k d1 @ chunks_after cs1 last_line @ rest"
    by (rule body_take_ok [OF 1(6,4) n])
  with 1 c(2) show "\<exists>k b'. body_read rd b n = Some (Ok k, take k xs, b') \<and> 0 < k \<and> k \<le> n \<and> k \<le> length xs \<and>
      chunked_holds pending last_line (drop k xs) rest b'"
    by (intro exI [of _ k]) (auto simp: chunked_holds_def intro!: exI [of _ "drop k d1"] exI [of _ cs1])
next
  fix rest b and n :: nat
  assume "chunked_holds pending last_line [] rest b"
  then have c: "bd_chunked b" "size_line last_line 0" "bd_content_length b = None"
    "br_pending pending (bd_reader b) = CRLF @ last_line @ rest"
    by (auto simp: chunked_holds_def payload_def chunk_ok_def list_all_iff non_zero_def chunks_after_def)
  from body_read_next [OF c(1,3,4,2), of n] obtain r where
    "br_pending pending r = rest" "body_read rd b n = Some (Ok 0, [], b\<lparr>bd_reader := r\<rparr>)" by auto
  with c show "\<exists>b'. body_read rd b n = Some (Ok 0, [], b') \<and> body_finished pending True rest b'"
    by (simp add: body_finished_def)
qed

text \<open>
  After the end of a chunked body the next read does not report the end again: it skips
  what is left of the message and takes the next line of the connection for a size.
\<close>

lemma read_after_end:
  assumes "body_finished pending True (CRLF @ l @ ys) b"
    and "l = xs @ [0x0A]" and "0x0A \<notin> set xs" and "utf8_valid l"
    and "from_str_radix 16 (trim_end l) = Inl e"
  obtains b' where "body_read rd b n = Some (Err (IoOther (display_parse_int_error e)), [], b')"
    and "br_pending pending (bd_reader b') = ys"
proof -
  from assms(1) have b: "bd_chunked b" "bd_content_length b = None"
    "br_pending pending (bd_reader b) = CRLF @ l @ ys" by (simp_all add: body_finished_def)
  from read_break [OF b(3)] obtain r1 where 1: "read_line rd (bd_reader b) = Some (Ok CRLF, r1)"
    "br_pending pending r1 = l @ ys" by blast
  with assms(2) have "br_pending pending r1 = xs @ 0x0A # ys" by simp
  with read_line_next [OF this assms(3)] assms(2,4) obtain r2 where
    "read_line rd r1 = Some (Ok l, r2)" "br_pending pending r2 = ys" by auto
  with 1 b assms(5) show thesis by (intro that [of "b\<lparr>bd_reader := r2\<rparr>"]) (simp_all add: body_read_def)
qed

text \<open>And at the end of the input it fails as well.\<close>

lemma read_after_end_eof:
  assumes "body_finished pending True CRLF b"
  obtains b' where "body_read rd b n = Some (Err (IoOther (display_parse_int_error Empty_Input)), [], b')"
proof -
  from assms have b: "bd_chunked b" "bd_content_length b = None"
    "br_pending pending (bd_reader b) = CRLF @ []" by (simp_all add: body_finished_def)
  from read_break [OF b(3)] obtain r1 where 1: "read_line rd (bd_reader b) = Some (Ok CRLF, r1)"
    "br_pending pending r1 = []" by blast
  obtain r2 where "read_line rd r1 = Some (Ok [], r2)"
    using read_line_ok [of r1] 1(2) by (auto simp: line_of_def)
  moreover have "trim_end [] = []" by (rule trim_end_solid) simp
  ultimately show thesis using 1 b
    by (intro that [of "b\<lparr>bd_reader := r2\<rparr>"]) (simp_all add: body_read_def from_str_radix_def)
qed

text \<open>The choice of the body from the headers.\<close>

lemma get_body_length:
  assumes "hm_values h (ascii ''transfer-encoding'') = []"
    and "hm_get h (ascii ''content-length'') = Some (v # vs)" and "is_ascii v"
    and "from_str_radix 10 v = Inr (length xs)" and "br_pending pending r = xs @ rest"
  obtains b where "get_body_reader rd r h = Some (Ok b)" and "length_holds pending xs rest b"
proof -
  have "\<not> (case hm_get h (ascii ''transfer-encoding'') of None \<Rightarrow> False | Some vs \<Rightarrow> ascii ''chunked'' \<in> set vs)"
    using assms(1) by (simp add: hm_values_def split: option.splits)
  with assms show thesis
    by (intro that [of "\<lparr>bd_reader = r, bd_content_length = non_zero (length xs), bd_chunked = False\<rparr>"])
      (simp_all add: get_body_reader_def length_holds_def utf8_ascii)
qed

lemma get_body_none:
  assumes "hm_values h (ascii ''transfer-encoding'') = []" and "hm_get h (ascii ''content-length'') = None"
    and "br_pending pending r = rest"
  obtains b where "get_body_reader rd r h = Some (Ok b)" and "length_holds pending [] rest b"
proof -
  have "\<not> (case hm_get h (ascii ''transfer-encoding'') of None \<Rightarrow> False | Some vs \<Rightarrow> ascii ''chunked'' \<in> set vs)"
    using assms(1) by (simp add: hm_values_def split: option.splits)
  moreover have "from_str_radix 10 (ascii ''0'') = Inr 0"
    by (simp add: from_str_radix_def ascii_def to_digit_def Let_def usize_lim_def)
  ultimately show thesis using assms
    by (intro that [of "\<lparr>bd_reader = r, bd_content_length = None, bd_chunked = False\<rparr>"])
      (simp_all add: get_body_reader_def length_holds_def non_zero_def)
qed

lemma get_body_chunked:
  assumes "hm_get h (ascii ''transfer-encoding'') = Some vs" and "ascii ''chunked'' \<in> set vs"
    and "list_all chunk_ok ((l, d) # cs)" and "size_line last_line 0"
    and "br_pending pending r = l @ d @ chunks_after cs last_line @ rest"
  obtains b where "get_body_reader rd r h = Some (Ok b)"
    and "chunked_holds pending last_line (payload ((l, d) # cs)) rest b"
proof -
  from assms(3) have l: "size_line l (length d)" "d \<noteq> []" "list_all chunk_ok cs" by (simp_all add: chunk_ok_def)
  from read_size_line [OF assms(5) l(1)] obtain r' where r': "read_line rd r = Some (Ok l, r')"
    "br_pending pending r' = d @ chunks_after cs last_line @ rest" by blast
  let ?b = "\<lparr>bd_reader = r', bd_content_length = non_zero (length d), bd_chunked = True\<rparr>"
  have "get_body_reader rd r h = Some (Ok ?b)"
    using assms(1,2) l r'(1) by (simp add: get_body_reader_def size_line_def)
  moreover have "chunked_holds pending last_line (payload ((l, d) # cs)) rest ?b"
    using assms(4) l(3) r'(2) by (auto simp: chunked_holds_def payload_def)
  ultimately show thesis by (rule that)
qed

end

interpretation slice_length_body: body_stream "body_read slice_read" "length_holds id" "body_finished id False"
  by (rule slice.length_stream)

interpretation slice_chunked_body: body_stream "body_read slice_read" "chunked_holds id last_line" "body_finished id True"
  for last_line
  by (rule slice.chunked_stream)

end
