(* ===== verification/Request.thy ===== *)
theory Request
  imports Callback Header_Map
begin

text \<open>
  \<open>http/src/request.rs\<close>: the request object and the exported functions that read it. Each
  checks its pointers (\<open>None\<close> is the assertion that fails) and copies a part of the request
  into the caller's buffer. The body is a reader: its callback never changes and is a
  parameter, its data is a field. The lemmas say what a caller with a sound buffer gets.
\<close>

record 'd request =
  rq_method :: bytes
  rq_path :: bytes
  rq_host :: bytes
  rq_version :: "u32 \<times> u32"
  rq_headers :: header_map
  rq_body :: 'd

definition request_new ::
  "bytes \<Rightarrow> bytes \<Rightarrow> bytes \<Rightarrow> u32 \<times> u32 \<Rightarrow> header_map \<Rightarrow> 'd \<Rightarrow> 'd request" where
  "request_new method path host version headers body =
     \<lparr>rq_method = method, rq_path = path, rq_host = host, rq_version = version,
      rq_headers = headers, rq_body = body\<rparr>"

definition http_read_body ::
  "'d read_cb \<Rightarrow> 'd request option \<Rightarrow> nat option \<Rightarrow> nat http_result option
    \<Rightarrow> (bytes \<times> nat http_result \<times> 'd request) option" where
  "http_read_body cb request data res =
     (case request of
        None \<Rightarrow> None
      | Some req \<Rightarrow>
          map_option (\<lambda>(got, q, d). (got, q, req\<lparr>rq_body := d\<rparr>))
            (http_bio_read cb (Some (rq_body req)) data res))"

text \<open>The functions that copy one part.\<close>

definition copy_part :: "('d request \<Rightarrow> bytes) \<Rightarrow> 'd request option \<Rightarrow> buffer option \<Rightarrow> buffer option" where
  "copy_part part request string =
     (case request of None \<Rightarrow> None | Some req \<Rightarrow>
     (case string of None \<Rightarrow> None | Some b \<Rightarrow>
       if \<not> is_sane b then None else copy_slice b (part req)))"

definition http_get_method :: "'d request option \<Rightarrow> buffer option \<Rightarrow> buffer option" where
  "http_get_method request string = copy_part rq_method request string"

definition http_get_path :: "'d request option \<Rightarrow> buffer option \<Rightarrow> buffer option" where
  "http_get_path request string = copy_part rq_path request string"

text \<open>The pieces of a \<open>write!\<close> into a buffer.\<close>

fun push_all :: "bytes list \<Rightarrow> buffer \<Rightarrow> buffer option" where
  "push_all [] b = Some b"
| "push_all (p # ps) b = (case push_slice b p of None \<Rightarrow> None | Some b' \<Rightarrow> push_all ps b')"

definition http_get_uri :: "'d request option \<Rightarrow> buffer option \<Rightarrow> buffer option" where
  "http_get_uri request string =
     (case request of None \<Rightarrow> None | Some req \<Rightarrow>
     (case string of None \<Rightarrow> None | Some b \<Rightarrow>
       if \<not> is_sane b then None
       else push_all [ascii ''https://'', rq_host req, rq_path req] (clear b)))"

text \<open>
  The two numbers may be asked for or not: a pointer is \<open>None\<close> when it is misaligned,
  \<open>Some None\<close> when it is null, otherwise the cell with its value.
\<close>

definition http_get_version ::
  "'d request option \<Rightarrow> u32 option option \<Rightarrow> u32 option option \<Rightarrow> (u32 option \<times> u32 option) option" where
  "http_get_version request major minor =
     (case request of None \<Rightarrow> None | Some req \<Rightarrow>
     (case major of None \<Rightarrow> None | Some major \<Rightarrow>
     (case minor of None \<Rightarrow> None | Some minor \<Rightarrow>
       Some (map_option (\<lambda>_. fst (rq_version req)) major, map_option (\<lambda>_. snd (rq_version req)) minor))))"

definition http_get_header_count :: "'d request option \<Rightarrow> const_buffer \<Rightarrow> nat option" where
  "http_get_header_count request name =
     (case request of None \<Rightarrow> None | Some req \<Rightarrow>
       if \<not> const_is_sane name then None
       else Some (case hm_get (rq_headers req) (const_as_slice name) of None \<Rightarrow> 0 | Some vs \<Rightarrow> length vs))"

text \<open>The result is the C return value and the buffer.\<close>

definition http_get_header ::
  "'d request option \<Rightarrow> const_buffer \<Rightarrow> nat \<Rightarrow> buffer option \<Rightarrow> (int \<times> buffer) option" where
  "http_get_header request name header_index val =
     (case request of None \<Rightarrow> None | Some req \<Rightarrow>
     (case val of None \<Rightarrow> None | Some b \<Rightarrow>
       if \<not> const_is_sane name then None
       else if \<not> is_sane b then None
       else (case hm_get (rq_headers req) (const_as_slice name) of
               None \<Rightarrow> Some (1, b)
             | Some vs \<Rightarrow>
                 if header_index < length vs
                 then map_option (\<lambda>b'. (0, b')) (copy_slice b (vs ! header_index))
                 else Some (2, b))))"

section \<open>What the caller gets\<close>

lemma copy_part_ok:
  assumes "wf_buffer b" and "buffer_room b (length (part req))"
  obtains b' where "copy_part part (Some req) (Some b) = Some b'" and "wf_buffer b'"
    and "as_slice b' = part req"
proof -
  from buf.rewrite_total [OF assms] obtain b' where "push_slice (clear b) (part req) = Some b'"
    "wf_buffer b'" "as_slice b' = part req" by blast
  with assms(1) that show thesis by (simp add: copy_part_def wf_sane copy_slice_def clear_def)
qed

lemma push_all_ok:
  assumes "wf_buffer b" and "buffer_room b (length (as_slice b) + length (concat ps))"
  shows "\<exists>b'. push_all ps b = Some b' \<and> wf_buffer b' \<and> as_slice b' = as_slice b @ concat ps"
  using assms
proof (induction ps arbitrary: b)
  case (Cons p ps)
  have "buffer_room b (length (as_slice b) + length p)" by (rule buffer_room_mono [OF Cons.prems(2)]) simp
  with buf.append_total [OF Cons.prems(1)] obtain b1 where 1: "push_slice b p = Some b1" by blast
  then have b1: "wf_buffer b1" "as_slice b1 = as_slice b @ p"
    "buffer_room b1 (length (as_slice b1) + length (concat ps))"
    using Cons.prems buf.append_inv buf.append_contents buf.append_room [OF 1] by (auto simp: add.assoc)
  from Cons.IH [OF b1(1,3)] 1 b1(2) show ?case by simp
qed simp

lemma http_get_uri_ok:
  assumes "wf_buffer b" and "buffer_room b (8 + length (rq_host req) + length (rq_path req))"
  obtains b' where "http_get_uri (Some req) (Some b) = Some b'" and "wf_buffer b'"
    and "as_slice b' = ascii ''https://'' @ rq_host req @ rq_path req"
proof -
  let ?ps = "[ascii ''https://'', rq_host req, rq_path req]"
  have c: "wf_buffer (clear b)" "as_slice (clear b) = []"
    using assms(1) by (simp_all add: buf.reset_inv buf.reset_contents)
  have "length (as_slice (clear b)) + length (concat ?ps) = 8 + length (rq_host req) + length (rq_path req)"
    by (simp add: c)
  then have "buffer_room (clear b) (length (as_slice (clear b)) + length (concat ?ps))"
    using assms(2) by (simp only: buf.reset_room)
  from push_all_ok [OF c(1) this] obtain b' where "push_all ?ps (clear b) = Some b'" "wf_buffer b'"
    "as_slice b' = concat ?ps" by (auto simp: c)
  with assms(1) show thesis by (intro that [of b']) (simp_all add: http_get_uri_def wf_sane)
qed

text \<open>Asking for the values of a name one by one gives all of them, and a code after the last.\<close>

lemma http_get_header_cases:
  fixes name
  assumes "hm_ok (rq_headers req)" and "wf_buffer b"
  defines "vs \<equiv> hm_values (rq_headers req) name"
  shows "http_get_header_count (Some req) (const_from name) = Some (length vs)"
    and "length vs \<le> i \<Longrightarrow> http_get_header (Some req) (const_from name) i (Some b) =
      Some (if vs = [] then 1 else 2, b)"
    and "i < length vs \<Longrightarrow> http_get_header (Some req) (const_from name) i (Some b) =
      map_option (\<lambda>b'. (0, b')) (copy_slice b (vs ! i))"
proof -
  have c: "const_is_sane (const_from name)" "const_as_slice (const_from name) = name"
    by (simp_all add: const_is_sane_def const_from_def const_as_slice_def)
  have "vs \<noteq> []" if "hm_get (rq_headers req) name = Some vs" for vs
    using assms(1) that by (auto simp: hm_ok_def hm_get_def dest: map_of_SomeD)
  then show "http_get_header_count (Some req) (const_from name) = Some (length vs)"
    and "length vs \<le> i \<Longrightarrow> http_get_header (Some req) (const_from name) i (Some b) =
      Some (if vs = [] then 1 else 2, b)"
    and "i < length vs \<Longrightarrow> http_get_header (Some req) (const_from name) i (Some b) =
      map_option (\<lambda>b'. (0, b')) (copy_slice b (vs ! i))"
    using assms(2) by (auto simp: c vs_def hm_values_def http_get_header_count_def http_get_header_def wf_sane
        split: option.splits)
qed

end
