(* ===== verification/Http11_Request.thy ===== *)
theory Http11_Request
  imports Http11_Body Request
begin

text \<open>
  \<open>http/src/http11.rs\<close>, \<open>http_parse_http11_request\<close>: the request line, the header lines, the choice
  of the body, and the target. An error is the message for the caller; the reader is gone
  then. \<open>None\<close>: the input does not end. What \<open>bstr\<close> makes of a host that is not UTF-8 is the
  parameter \<open>lossy\<close>.

  The lemmas: which request lines are accepted (\<open>request_line_iff\<close>); what a head that is well
  formed is parsed to, with the body left in the reader (\<open>parse_head_ok\<close>); that on every input
  the parser returns, and does not panic (\<open>parse_total\<close>).
\<close>

section \<open>The parser\<close>

definition parse_request_line :: "bytes \<Rightarrow> (bytes, bytes \<times> bytes) rs" where
  "parse_request_line line =
     (case splitn 3 0x20 (trim_end line) of
        [] \<Rightarrow> Err (ascii ''No method found'')
      | method # spl \<Rightarrow>
          if method = [] then Err (ascii ''No method found'')
          else (case spl of
                  [] \<Rightarrow> Err (ascii ''No URI found'')
                | uri # spl \<Rightarrow>
                    (case spl of
                       [] \<Rightarrow> Err (ascii ''No version found'')
                     | version_string # _ \<Rightarrow>
                         (case strip_prefix (ascii ''HTTP/'') version_string of
                            None \<Rightarrow> Err (ascii ''No http prefix'')
                          | Some version \<Rightarrow>
                              (case split_once 0x2E version of
                                 None \<Rightarrow> Err (ascii (''Version not split with '' @ [CHR 0x22] @ ''.'' @ [CHR 0x22]))
                               | Some (major, minor) \<Rightarrow>
                                   if major \<noteq> ascii ''1'' \<or> minor \<noteq> ascii ''1''
                                   then Err (ascii ''HTTP not version 1.1'')
                                   else Ok (method, uri))))))"

text \<open>The loop over the header lines; the end of the input ends it as an empty line does.\<close>

partial_function (option) parse_headers ::
  "'r reader_fn \<Rightarrow> 'r buf_reader \<Rightarrow> header_map \<Rightarrow> ((bytes, header_map) rs \<times> 'r buf_reader) option" where
  "parse_headers rd reader headers =
     (case read_until rd 0x0A reader 0 [] of
        None \<Rightarrow> None
      | Some (Err e, line, r) \<Rightarrow> Some (Err (ascii ''Failed to read header line: '' @ display_io e), r)
      | Some (Panic, line, r) \<Rightarrow> Some (Panic, r)
      | Some (Ok _, line, r) \<Rightarrow>
          let line = without_suffix [0x0D] (without_suffix [0x0A] line)
          in if line = [] then Some (Ok headers, r)
             else (case position 0x3A line of
                     None \<Rightarrow>
                       Some (Err (ascii (''Failed to find '' @ [CHR 0x22] @ '':'' @ [CHR 0x22] @ '' in header'')), r)
                   | Some colon_index \<Rightarrow>
                       let header_name = to_ascii_lowercase (take colon_index line);
                           header_value = trim_ascii_start (drop 1 (drop colon_index line))
                       in parse_headers rd r (hm_push header_name header_value headers)))"

text \<open>The path and the host.\<close>

definition request_target :: "(bytes \<Rightarrow> bytes) \<Rightarrow> bytes \<Rightarrow> header_map \<Rightarrow> (bytes, bytes \<times> bytes) rs" where
  "request_target lossy uri headers =
     (case hm_get headers (ascii ''host'') of
        Some [] \<Rightarrow> Panic
      | Some (host # _) \<Rightarrow> Ok (uri, lossy host)
      | None \<Rightarrow>
          (case strip_prefix (ascii ''https://'') uri of
             None \<Rightarrow> Err (ascii ''Invalid URI scheme'')
           | Some uri \<Rightarrow>
               (case split_once 0x2F uri of
                  None \<Rightarrow> Err (ascii ''Invalid URI path'')
                | Some (host, path) \<Rightarrow> Ok (ascii ''/'' @ path, host))))"

definition parse_request ::
  "(bytes \<Rightarrow> bytes) \<Rightarrow> 'r reader_fn \<Rightarrow> 'r \<Rightarrow> (bytes, 'r body request) rs option" where
  "parse_request lossy rd reader =
     (case read_line rd (buf_reader_new reader) of
        None \<Rightarrow> None
      | Some (Err e, r) \<Rightarrow> Some (Err (ascii ''Failed to read status line: '' @ display_io e))
      | Some (Panic, r) \<Rightarrow> Some Panic
      | Some (Ok line, r) \<Rightarrow>
          (case parse_request_line line of
             Err e \<Rightarrow> Some (Err e)
           | Panic \<Rightarrow> Some Panic
           | Ok (method, uri) \<Rightarrow>
               (case parse_headers rd r hm_new of
                  None \<Rightarrow> None
                | Some (Err e, r) \<Rightarrow> Some (Err e)
                | Some (Panic, r) \<Rightarrow> Some Panic
                | Some (Ok headers, r) \<Rightarrow>
                    (case get_body_reader rd r headers of
                       None \<Rightarrow> None
                     | Some (Err e) \<Rightarrow> Some (Err (ascii ''Failed to create body: '' @ e))
                     | Some Panic \<Rightarrow> Some Panic
                     | Some (Ok body) \<Rightarrow>
                         Some (case request_target lossy uri headers of
                                 Err e \<Rightarrow> Err e
                               | Panic \<Rightarrow> Panic
                               | Ok (path, host) \<Rightarrow> Ok (request_new method path host (1, 1) headers body))))))"

text \<open>
  The exported function. The request's body is read through \<open>reader_from_read\<close>; a read that
  does not return has no result there, which \<open>body_reader\<close> writes as a panic.
\<close>

definition http_parse_http11_request ::
  "(bytes \<Rightarrow> bytes) \<Rightarrow> 'r reader_fn \<Rightarrow> 'r option \<Rightarrow> 'r body request http_result option
    \<Rightarrow> 'r body request http_result option" where
  "http_parse_http11_request lossy rd reader res =
     (case reader of None \<Rightarrow> None | Some r \<Rightarrow>
     (case res of None \<Rightarrow> None | Some q \<Rightarrow>
       if \<not> is_sane (r_err q) then None
       else (case parse_request lossy rd r of
               None \<Rightarrow> None
             | Some (Ok req) \<Rightarrow> set_ok q req
             | Some (Err msg) \<Rightarrow> set_err q msg
             | Some Panic \<Rightarrow> None)))"

definition body_reader :: "'r reader_fn \<Rightarrow> 'r body reader_fn" where
  "body_reader rd b n = (case body_read rd b n of None \<Rightarrow> (Panic, [], b) | Some x \<Rightarrow> x)"

definition request_body_cb :: "'r reader_fn \<Rightarrow> 'r body read_cb" where
  "request_body_cb rd = reader_from_read (body_reader rd)"

section \<open>The request line\<close>

text \<open>Exactly these lines are accepted.\<close>

lemma splitn_3:
  "splitn 3 c s = [a, b, d] \<longleftrightarrow> s = a @ c # b @ c # d \<and> c \<notin> set a \<and> c \<notin> set b"
proof
  assume "splitn 3 c s = [a, b, d]"
  then show "s = a @ c # b @ c # d \<and> c \<notin> set a \<and> c \<notin> set b"
    by (auto simp: numeral_3_eq_3 split: option.splits prod.splits dest!: split_onceD)
qed (auto simp: numeral_3_eq_3)

lemma request_line_iff:
  "parse_request_line line = Ok (method, uri) \<longleftrightarrow>
   trim_end line = method @ 0x20 # uri @ 0x20 # ascii ''HTTP/1.1'' \<and>
   method \<noteq> [] \<and> 0x20 \<notin> set method \<and> 0x20 \<notin> set uri"
proof
  assume ok: "parse_request_line line = Ok (method, uri)"
  then obtain v ws vs where s: "splitn 3 0x20 (trim_end line) = method # uri # v # ws" and m: "method \<noteq> []"
    and "strip_prefix (ascii ''HTTP/'') v = Some vs"
    and "split_once 0x2E vs = Some (ascii ''1'', ascii ''1'')"
    by (auto simp: parse_request_line_def split: list.splits option.splits if_splits)
  then have "v = ascii ''HTTP/'' @ ascii ''1'' @ 0x2E # ascii ''1''"
    by (auto simp: strip_prefix_iff dest!: split_onceD)
  then have v: "v = ascii ''HTTP/1.1''" by (simp add: ascii_def)
  have "ws = []" using s by (auto simp: numeral_3_eq_3 split: option.splits prod.splits)
  with s m v show "trim_end line = method @ 0x20 # uri @ 0x20 # ascii ''HTTP/1.1'' \<and>
      method \<noteq> [] \<and> 0x20 \<notin> set method \<and> 0x20 \<notin> set uri"
    using splitn_3 by blast
next
  assume "trim_end line = method @ 0x20 # uri @ 0x20 # ascii ''HTTP/1.1'' \<and>
      method \<noteq> [] \<and> 0x20 \<notin> set method \<and> 0x20 \<notin> set uri"
  then have "splitn 3 0x20 (trim_end line) = [method, uri, ascii ''HTTP/1.1'']" and m: "method \<noteq> []"
    by (auto simp: splitn_3)
  moreover have "strip_prefix (ascii ''HTTP/'') (ascii ''HTTP/1.1'') = Some (ascii ''1.1'')"
    by (simp add: strip_prefix_iff ascii_def)
  moreover have "split_once 0x2E (ascii ''1.1'') = Some (ascii ''1'', ascii ''1'')"
    by (simp add: split_once_def ascii_def)
  ultimately show "parse_request_line line = Ok (method, uri)" by (simp add: parse_request_line_def)
qed

lemma request_line_no_panic: "parse_request_line line \<noteq> Panic"
  by (auto simp: parse_request_line_def split: list.split option.split)

section \<open>A well-formed head\<close>

text \<open>Visible ASCII characters, of which methods and targets consist.\<close>

definition visible :: "bytes \<Rightarrow> bool" where
  "visible xs \<longleftrightarrow> xs \<noteq> [] \<and> list_all (\<lambda>b. 0x21 \<le> b \<and> b \<le> 0x7E) xs"

definition field_ok :: "bytes \<times> bytes \<Rightarrow> bool" where
  "field_ok f \<longleftrightarrow>
     0x3A \<notin> set (fst f) \<and> 0x0A \<notin> set (fst f) \<and> 0x0A \<notin> set (snd f) \<and>
     (snd f = [] \<or> \<not> ascii_space (hd (snd f)))"

definition request_line :: "bytes \<Rightarrow> bytes \<Rightarrow> bytes" where
  "request_line method uri = method @ [0x20] @ uri @ [0x20] @ ascii ''HTTP/1.1'' @ CRLF"

definition field_line :: "bytes \<times> bytes \<Rightarrow> bytes" where
  "field_line f = fst f @ [0x3A, 0x20] @ snd f @ CRLF"

definition request_head :: "bytes \<Rightarrow> bytes \<Rightarrow> (bytes \<times> bytes) list \<Rightarrow> bytes" where
  "request_head method uri flds =
     request_line method uri @ concat (map field_line flds) @ CRLF"

text \<open>The headers that the flds make: names in lower case, values in the order they came.\<close>

definition request_headers :: "(bytes \<times> bytes) list \<Rightarrow> header_map" where
  "request_headers flds =
     fold (\<lambda>(k, v). hm_push k v) (map (\<lambda>(k, v). (to_ascii_lowercase k, v)) flds) hm_new"

text \<open>The values of the fields with a name, whatever its case.\<close>

definition field_values :: "(bytes \<times> bytes) list \<Rightarrow> bytes \<Rightarrow> bytes list" where
  "field_values flds name = map snd (filter (\<lambda>(k, v). to_ascii_lowercase k = name) flds)"

lemma request_headers_values:
  "hm_ok (request_headers flds)"
  "hm_values (request_headers flds) name = field_values flds name"
proof -
  show "hm_ok (request_headers flds)"
    unfolding request_headers_def by (rule hm.fold_push_inv [OF hm.fresh_inv])
  have "filter (\<lambda>(k, v). k = name) (map (\<lambda>(k, v). (to_ascii_lowercase k, v)) flds) =
      map (\<lambda>(k, v). (to_ascii_lowercase k, v)) (filter (\<lambda>(k, v). to_ascii_lowercase k = name) flds)"
    by (induction flds) auto
  note keys = this
  show "hm_values (request_headers flds) name = field_values flds name"
    unfolding field_values_def request_headers_def hm.fold_push_values hm.fresh_values keys
    by (simp add: case_prod_unfold comp_def)
qed

lemma request_headers_get:
  "hm_get (request_headers flds) name = (if field_values flds name = [] then None else Some (field_values flds name))"
  using hm_get_values [OF request_headers_values(1)] by (simp add: request_headers_values(2))

lemma visible_bytes:
  assumes "visible xs"
  shows "is_ascii xs" and "0x20 \<notin> set xs" and "0x0A \<notin> set xs" and "xs \<noteq> []"
  using assms by (auto simp: visible_def is_ascii_def list_all_iff word_le_nat_alt word_less_nat_alt)

lemma request_line_text:
  assumes "visible method" and "visible uri"
  obtains xs where "request_line method uri = xs @ [0x0A]" and "0x0A \<notin> set xs"
    and "utf8_valid (xs @ [0x0A])" and "parse_request_line (xs @ [0x0A]) = Ok (method, uri)"
proof -
  let ?t = "method @ 0x20 # uri @ 0x20 # ascii ''HTTP/1.1''"
  note m = visible_bytes [OF assms(1)] and u = visible_bytes [OF assms(2)]
  have eq: "request_line method uri = (?t @ [0x0D]) @ [0x0A]" by (simp add: request_line_def CRLF_def)
  have "trim_end ((?t @ [0x0D]) @ [0x0A]) = trim_end ?t"
    using trim_end_step [of "0x0A" "?t @ [0x0D]"] trim_end_step [of "0x0D" ?t] by simp
  also have "\<dots> = ?t" by (rule trim_end_solid) (simp add: ascii_def white_ends_def WHITE_SPACE_def)
  finally have "parse_request_line ((?t @ [0x0D]) @ [0x0A]) = Ok (method, uri)"
    using m u by (simp only: request_line_iff) simp
  moreover have "utf8_valid ((?t @ [0x0D]) @ [0x0A])"
    using m u by (intro utf8_ascii) (simp add: ascii_def)
  moreover have "0x0A \<notin> set (?t @ [0x0D])" using m u by (simp add: ascii_def)
  ultimately show thesis using eq that by blast
qed

lemma field_line_parts:
  assumes "field_ok (k, v)"
  shows "\<exists>xs. field_line (k, v) = xs @ [0x0A] \<and> 0x0A \<notin> set xs"
    and "without_suffix [0x0D] (without_suffix [0x0A] (field_line (k, v))) = k @ 0x3A # 0x20 # v"
    and "trim_ascii_start (0x20 # v) = v"
proof -
  have line: "field_line (k, v) = ((k @ 0x3A # 0x20 # v) @ [0x0D]) @ [0x0A]" by (simp add: field_line_def CRLF_def)
  show "\<exists>xs. field_line (k, v) = xs @ [0x0A] \<and> 0x0A \<notin> set xs"
    unfolding line using assms by (intro exI [of _ "(k @ 0x3A # 0x20 # v) @ [0x0D]"]) (simp add: field_ok_def)
  show "without_suffix [0x0D] (without_suffix [0x0A] (field_line (k, v))) = k @ 0x3A # 0x20 # v"
    unfolding line without_suffix_append ..
  show "trim_ascii_start (0x20 # v) = v"
    using assms by (cases v) (auto simp: trim_ascii_start_def ascii_space_def field_ok_def)
qed

text \<open>What the statements say of a request that was read: its parts, and what its body gives.\<close>

definition reads_as ::
  "(bytes \<Rightarrow> bytes) \<Rightarrow> 'a body request \<Rightarrow> bytes \<Rightarrow> bytes \<Rightarrow> (bytes \<times> bytes) list \<Rightarrow> bytes \<Rightarrow> bool" where
  "reads_as lossy req method uri flds host \<longleftrightarrow>
     rq_method req = method \<and> rq_path req = uri \<and> rq_host req = lossy host \<and> rq_version req = (1, 1) \<and>
     (\<forall>name. hm_values (rq_headers req) name = field_values flds name)"

context byte_source
begin

lemma read_until_next:
  assumes "br_pending pending b = xs @ [c] @ ys" and "c \<notin> set xs"
  obtains b' where "read_until rd c b 0 [] = Some (Ok (length xs + 1), xs @ [c], b')"
    and "br_pending pending b' = ys"
proof -
  from assms have l: "line_of c (br_pending pending b) = xs @ [c]" by simp
  from read_until_line [of c b 0 "[]"] obtain b' where
    "read_until rd c b 0 [] = Some (Ok (0 + length (line_of c (br_pending pending b))), [] @ line_of c (br_pending pending b), b')"
    and p: "br_pending pending b' = drop (length (line_of c (br_pending pending b))) (br_pending pending b)" by blast
  then have "read_until rd c b 0 [] = Some (Ok (length xs + 1), xs @ [c], b')" by (simp only: l) simp
  moreover have "br_pending pending b' = ys" using p by (simp only: l) (simp add: assms(1))
  ultimately show thesis by (rule that)
qed

lemma parse_headers_ok:
  assumes "br_pending pending r = concat (map field_line flds) @ CRLF @ rest" and "list_all field_ok flds"
  shows "\<exists>r'. parse_headers rd r h =
      Some (Ok (fold (\<lambda>(k, v). hm_push k v) (map (\<lambda>(k, v). (to_ascii_lowercase k, v)) flds) h), r') \<and>
    br_pending pending r' = rest"
  using assms
proof (induction flds arbitrary: r h)
  case Nil
  then have "br_pending pending r = [0x0D] @ [0x0A] @ rest" by (simp add: CRLF_def)
  then obtain r' where u: "read_until rd 0x0A r 0 [] = Some (Ok (length [0x0D::u8] + 1), [0x0D] @ [0x0A], r')"
    and p: "br_pending pending r' = rest" by (rule read_until_next) simp
  have "without_suffix [0x0D] (without_suffix [0x0A] ([0x0D] @ [0x0A])) = []"
    unfolding without_suffix_append using without_suffix_append [of "[0x0D]" "[]"] by simp
  with u p show ?case by (simp add: parse_headers.simps [of rd r h])
next
  case (Cons f flds)
  obtain k v where f: "f = (k, v)" by force
  with Cons.prems(2) have ok: "field_ok (k, v)" by simp
  then obtain xs where l: "field_line (k, v) = xs @ [0x0A]" "0x0A \<notin> set xs" using field_line_parts(1) by blast
  have "br_pending pending r = xs @ [0x0A] @ concat (map field_line flds) @ CRLF @ rest"
    using Cons.prems(1) f l(1) by simp
  then obtain r1 where u: "read_until rd 0x0A r 0 [] = Some (Ok (length xs + 1), field_line (k, v), r1)"
    and p: "br_pending pending r1 = concat (map field_line flds) @ CRLF @ rest"
    unfolding l(1) by (rule read_until_next [OF _ l(2)])
  have pos: "position 0x3A (k @ 0x3A # 0x20 # v) = Some (length k)"
    using ok by (intro position_append) (simp add: field_ok_def)
  have "parse_headers rd r h = parse_headers rd r1 (hm_push (to_ascii_lowercase k) v h)"
    by (simp add: parse_headers.simps [of rd r h] u field_line_parts(2) [OF ok] pos
        field_line_parts(3) [OF ok])
  with Cons.IH [OF p] Cons.prems(2) f show ?case by simp
qed

text \<open>The parser on a request with a well-formed head, up to the choice of the body.\<close>

lemma parse_head_steps:
  assumes "pending r = request_head method uri flds @ rest"
    and "visible method" and "visible uri" and "list_all field_ok flds"
  obtains line r1 r2 where "read_line rd (buf_reader_new r) = Some (Ok line, r1)"
    and "parse_request_line line = Ok (method, uri)"
    and "parse_headers rd r1 hm_new = Some (Ok (request_headers flds), r2)" and "br_pending pending r2 = rest"
proof -
  obtain xs where l: "request_line method uri = xs @ [0x0A]" "0x0A \<notin> set xs"
    "utf8_valid (xs @ [0x0A])" "parse_request_line (xs @ [0x0A]) = Ok (method, uri)"
    by (rule request_line_text [OF assms(2,3)])
  have "br_pending pending (buf_reader_new r) = xs @ 0x0A # (concat (map field_line flds) @ CRLF @ rest)"
    using assms(1) l(1) by (simp add: request_head_def)
  from read_line_next [OF this l(2,3)] obtain r1 where
    1: "read_line rd (buf_reader_new r) = Some (Ok (xs @ [0x0A]), r1)"
    "br_pending pending r1 = concat (map field_line flds) @ CRLF @ rest" by blast
  from parse_headers_ok [OF 1(2) assms(4), of hm_new] obtain r2 where
    "parse_headers rd r1 hm_new = Some (Ok (request_headers flds), r2)" "br_pending pending r2 = rest"
    unfolding request_headers_def by blast
  with 1(1) l(4) show thesis by (intro that)
qed

lemma parse_head_ok:
  assumes "pending r = request_head method uri flds @ rest"
    and "visible method" and "visible uri" and "list_all field_ok flds"
  obtains r' where "br_pending pending r' = rest"
    and "\<forall>body path host. get_body_reader rd r' (request_headers flds) = Some (Ok body) \<longrightarrow>
      request_target lossy uri (request_headers flds) = Ok (path, host) \<longrightarrow>
      parse_request lossy rd r = Some (Ok (request_new method path host (1, 1) (request_headers flds) body))"
proof -
  obtain line r1 r2 where "read_line rd (buf_reader_new r) = Some (Ok line, r1)"
    "parse_request_line line = Ok (method, uri)"
    "parse_headers rd r1 hm_new = Some (Ok (request_headers flds), r2)" "br_pending pending r2 = rest"
    by (rule parse_head_steps [OF assms])
  then show thesis by (intro that [of r2]) (simp_all add: parse_request_def)
qed

lemma parse_head_parts:
  assumes "pending r = request_head method uri flds @ rest"
    and "visible method" and "visible uri" and "list_all field_ok flds"
    and "parse_request lossy rd r = Some (Ok req)"
  shows "rq_method req = method" and "rq_headers req = request_headers flds"
proof -
  obtain line r1 r2 where "read_line rd (buf_reader_new r) = Some (Ok line, r1)"
    "parse_request_line line = Ok (method, uri)"
    "parse_headers rd r1 hm_new = Some (Ok (request_headers flds), r2)"
    by (rule parse_head_steps [OF assms(1-4)])
  with assms(5) show "rq_method req = method" and "rq_headers req = request_headers flds"
    by (auto simp: parse_request_def request_new_def split: option.splits rs.splits)
qed

section \<open>Every input\<close>

lemma parse_headers_total:
  "hm_ok h \<Longrightarrow> \<exists>x r'. parse_headers rd r h = Some (x, r') \<and> x \<noteq> Panic \<and> (\<forall>h'. x = Ok h' \<longrightarrow> hm_ok h')"
proof (induction "length (br_pending pending r)" arbitrary: r h rule: less_induct)
  case less
  let ?line = "line_of 0x0A (br_pending pending r)"
  from read_until_line [of "0x0A" r 0 "[]"] obtain r1 where
    u: "read_until rd 0x0A r 0 [] = Some (Ok (length ?line), ?line, r1)"
    and p: "br_pending pending r1 = drop (length ?line) (br_pending pending r)" by auto
  let ?s = "without_suffix [0x0D] (without_suffix [0x0A] ?line)"
  show ?case
  proof (cases "?s = [] \<or> position 0x3A ?s = None")
    case True
    with less.prems show ?thesis by (auto simp: parse_headers.simps [of rd r h] u Let_def)
  next
    case False
    then obtain i where i: "?s \<noteq> []" "position 0x3A ?s = Some i" by blast
    have "?line \<noteq> []" using i(1) by (auto simp: without_suffix_def strip_suffix_def)
    then have "br_pending pending r \<noteq> []" by (auto simp: line_of_def)
    with p \<open>?line \<noteq> []\<close> have "length (br_pending pending r1) < length (br_pending pending r)" by simp
    from less.hyps [OF this hm.push_inv [OF less.prems]] i show ?thesis
      by (simp add: parse_headers.simps [of rd r h] u Let_def)
  qed
qed

lemma get_body_total:
  assumes "hm_ok h"
  shows "\<exists>x. get_body_reader rd r h = Some x \<and> x \<noteq> Panic"
proof -
  have "hm_get h (ascii ''content-length'') \<noteq> Some []"
    using assms by (auto simp: hm_ok_def hm_get_def dest: map_of_SomeD)
  moreover obtain r' where "read_line rd r =
      Some (if utf8_valid (line_of 0x0A (br_pending pending r))
            then Ok (line_of 0x0A (br_pending pending r)) else Err InvalidUtf8, r')" by (rule read_line_ok)
  ultimately show ?thesis
    by (auto simp: get_body_reader_def Let_def split: option.split list.split sum.split)
qed

lemma request_target_total: "hm_ok h \<Longrightarrow> request_target lossy uri h \<noteq> Panic"
  by (auto simp: request_target_def hm_ok_def hm_get_def dest: map_of_SomeD
      split: option.split list.split)

lemma parse_total: "\<exists>x. parse_request lossy rd r = Some x \<and> x \<noteq> Panic"
proof -
  let ?l = "line_of 0x0A (pending r)"
  obtain r1 where line: "read_line rd (buf_reader_new r) =
      Some (if utf8_valid ?l then Ok ?l else Err InvalidUtf8, r1)"
    by (rule read_line_ok [of "buf_reader_new r", unfolded pending_new])
  obtain x r2 where heads: "parse_headers rd r1 hm_new = Some (x, r2)" "x \<noteq> Panic" "\<forall>h. x = Ok h \<longrightarrow> hm_ok h"
    using parse_headers_total [OF hm.fresh_inv, of r1] by blast
  show ?thesis
  proof (cases "utf8_valid ?l")
    case True
    show ?thesis
    proof (cases "parse_request_line ?l")
      case mu: (Ok mu)
      obtain meth uri where "mu = (meth, uri)" by force
      note mu = mu [unfolded this]
      show ?thesis
      proof (cases x)
        case (Ok h)
        with heads(3) have h: "hm_ok h" by simp
        obtain y where y: "get_body_reader rd r2 h = Some y" "y \<noteq> Panic"
          using get_body_total [OF h, of r2] by blast
        have z: "request_target lossy uri h \<noteq> Panic" by (rule request_target_total [OF h])
        have "parse_request lossy rd r = Some (case y of
            Err e \<Rightarrow> Err (ascii ''Failed to create body: '' @ e)
          | Panic \<Rightarrow> Panic
          | Ok body \<Rightarrow> (case request_target lossy uri h of
                Err e \<Rightarrow> Err e
              | Panic \<Rightarrow> Panic
              | Ok (path, host) \<Rightarrow> Ok (request_new meth path host (1, 1) h body)))"
          using line True mu heads(1) Ok y by (simp add: parse_request_def split: rs.split)
        with y(2) z show ?thesis by (simp split: rs.split prod.split)
      qed (use line True mu heads in \<open>simp_all add: parse_request_def\<close>)
    qed (use line True request_line_no_panic [of ?l] in \<open>simp_all add: parse_request_def\<close>)
  qed (use line in \<open>simp add: parse_request_def\<close>)
qed

section \<open>Whole requests\<close>

lemma parse_request_body:
  assumes "pending r = request_head method uri flds @ rest"
    and "visible method" and "visible uri" and "list_all field_ok flds"
    and "field_values flds (ascii ''host'') = host # hosts"
    and body: "\<And>r'. br_pending pending r' = rest \<Longrightarrow>
      \<exists>body. get_body_reader rd r' (request_headers flds) = Some (Ok body) \<and> P body"
  obtains req where "parse_request lossy rd r = Some (Ok req)" and "reads_as lossy req method uri flds host"
    and "P (rq_body req)"
proof -
  obtain r' where r': "br_pending pending r' = rest"
    and run: "\<forall>body path host. get_body_reader rd r' (request_headers flds) = Some (Ok body) \<longrightarrow>
      request_target lossy uri (request_headers flds) = Ok (path, host) \<longrightarrow>
      parse_request lossy rd r = Some (Ok (request_new method path host (1, 1) (request_headers flds) body))"
    by (rule parse_head_ok [where lossy = lossy, OF assms(1-4)])
  from body [OF r'] obtain b where b: "get_body_reader rd r' (request_headers flds) = Some (Ok b)" "P b" by blast
  have "request_target lossy uri (request_headers flds) = Ok (uri, lossy host)"
    using assms(5) by (simp add: request_target_def request_headers_get)
  with run b(1) have "parse_request lossy rd r =
      Some (Ok (request_new method uri (lossy host) (1, 1) (request_headers flds) b))" by blast
  then show thesis
  proof (rule that)
    let ?req = "request_new method uri (lossy host) (1, 1) (request_headers flds) b"
    show "reads_as lossy ?req method uri flds host"
      by (simp add: reads_as_def request_new_def request_headers_values)
    show "P (rq_body ?req)" using b(2) by (simp add: request_new_def)
  qed
qed

text \<open>A body of the announced length, and a chunked body, read with any buffers.\<close>

lemma parse_with_length:
  assumes "pending r = request_head method uri flds @ xs @ rest"
    and "visible method" and "visible uri" and "list_all field_ok flds"
    and "field_values flds (ascii ''host'') = host # hosts"
    and "field_values flds (ascii ''transfer-encoding'') = []"
    and "field_values flds (ascii ''content-length'') = v # vs" and "is_ascii v"
    and "from_str_radix 10 v = Inr (length xs)"
    and "length xs < length ns" and "\<forall>n\<in>set ns. 0 < n"
  obtains req b where "parse_request lossy rd r = Some (Ok req)" and "reads_as lossy req method uri flds host"
    and "read_with (body_read rd) ns (rq_body req) = Some (Ok xs, b)" and "body_finished pending False rest b"
proof -
  have "\<exists>body. get_body_reader rd r' (request_headers flds) = Some (Ok body) \<and> length_holds pending xs rest body"
    if "br_pending pending r' = xs @ rest" for r'
  proof -
    have "hm_values (request_headers flds) (ascii ''transfer-encoding'') = []"
      "hm_get (request_headers flds) (ascii ''content-length'') = Some (v # vs)"
      using assms(6,7) by (simp_all add: request_headers_get request_headers_values)
    from get_body_length [OF this assms(8,9) that] show ?thesis by blast
  qed
  from parse_request_body [OF assms(1-5) this] obtain req where
    req: "parse_request lossy rd r = Some (Ok req)" "reads_as lossy req method uri flds host"
    "length_holds pending xs rest (rq_body req)" by blast
  from body_stream.read_with_all [OF length_stream req(3) assms(10,11)] req(1,2) that show thesis by blast
qed

lemma parse_chunked:
  assumes "pending r = request_head method uri flds @ l @ d @ chunks_after cs last_line @ rest"
    and "visible method" and "visible uri" and "list_all field_ok flds"
    and "field_values flds (ascii ''host'') = host # hosts"
    and "ascii ''chunked'' \<in> set (field_values flds (ascii ''transfer-encoding''))"
    and "list_all chunk_ok ((l, d) # cs)" and "size_line last_line 0"
    and "length (payload ((l, d) # cs)) < length ns" and "\<forall>n\<in>set ns. 0 < n"
  obtains req b where "parse_request lossy rd r = Some (Ok req)" and "reads_as lossy req method uri flds host"
    and "read_with (body_read rd) ns (rq_body req) = Some (Ok (payload ((l, d) # cs)), b)"
    and "body_finished pending True rest b"
proof -
  have "\<exists>body. get_body_reader rd r' (request_headers flds) = Some (Ok body) \<and>
      chunked_holds pending last_line (payload ((l, d) # cs)) rest body"
    if "br_pending pending r' = l @ d @ chunks_after cs last_line @ rest" for r'
  proof -
    have "hm_get (request_headers flds) (ascii ''transfer-encoding'') =
        Some (field_values flds (ascii ''transfer-encoding''))"
      using assms(6) by (auto simp: request_headers_get)
    from get_body_chunked [OF this assms(6-8) that] show ?thesis by blast
  qed
  from parse_request_body [OF assms(1-5) this] obtain req where
    req: "parse_request lossy rd r = Some (Ok req)" "reads_as lossy req method uri flds host"
    "chunked_holds pending last_line (payload ((l, d) # cs)) rest (rq_body req)" by blast
  from body_stream.read_with_all [OF chunked_stream req(3) assms(9,10)] req(1,2) that show thesis by blast
qed

end

text \<open>Without a \<open>Host\<close> header the target must be an \<open>https\<close> URI with a path; the exported function
  then gives the caller the URI back, byte for byte.\<close>

lemma request_uri_roundtrip:
  assumes "hm_get headers (ascii ''host'') = None"
    and "request_target lossy uri headers = Ok (path, host)"
    and "wf_buffer b" and "buffer_room b (length uri)"
  shows "\<exists>b'. http_get_uri (Some (request_new method path host (1, 1) headers body)) (Some b) = Some b' \<and>
    as_slice b' = uri"
proof -
  from assms(1,2) have uri: "uri = ascii ''https://'' @ host @ path"
    by (auto simp: request_target_def strip_prefix_iff ascii_def split: option.splits dest!: split_onceD)
  let ?req = "request_new method path host (1, 1) headers body"
  have "length uri = 8 + length (rq_host ?req) + length (rq_path ?req)"
    using uri by (simp add: request_new_def)
  then have "buffer_room b (8 + length (rq_host ?req) + length (rq_path ?req))"
    using assms(4) by simp
  from http_get_uri_ok [OF assms(3) this] uri show ?thesis by (auto simp: request_new_def)
qed

end
