(* ===== verification/Request_Type.thy ===== *)
theory Request_Type
  imports Http11_Request
begin

text \<open>
  What every request has that the parser of \<open>http/src/http11.rs\<close> returns, whatever was sent: its
  method, target and host are Rust strings, so valid UTF-8, the version is 1.1, and the headers
  are a map of names in lower case (\<open>parse_typed\<close>). Reading from its body keeps that, does not
  panic, and only takes bytes of the connection in their order (\<open>body_read_safe\<close>).
\<close>

section \<open>Parts of a valid string\<close>

lemma lead_cont: "lead_3 a b \<Longrightarrow> cont_byte b" "lead_4 a b \<Longrightarrow> cont_byte b"
  by (auto simp: lead_3_def lead_4_def cont_byte_def word_le_nat_alt)

lemma utf8_1: "a < 0x80 \<Longrightarrow> utf8_valid (a # xs) = utf8_valid xs" by simp

lemma utf8_2:
  "\<not> a < 0x80 \<Longrightarrow> 0xC2 \<le> a \<and> a \<le> 0xDF \<Longrightarrow> utf8_valid (a # b # xs) \<longleftrightarrow> cont_byte b \<and> utf8_valid xs"
  by simp

lemma utf8_3:
  assumes "\<not> a < 0x80" and "\<not> (0xC2 \<le> a \<and> a \<le> 0xDF)" and "lead_3 a b"
  shows "utf8_valid (a # b # c # xs) \<longleftrightarrow> cont_byte c \<and> utf8_valid xs"
  by (simp only: utf8_valid.simps list.case assms if_True if_False)

lemma utf8_4:
  assumes "\<not> a < 0x80" and "\<not> (0xC2 \<le> a \<and> a \<le> 0xDF)" and "\<not> lead_3 a b"
  shows "utf8_valid (a # b # c # d # xs) \<longleftrightarrow> lead_4 a b \<and> cont_byte c \<and> cont_byte d \<and> utf8_valid xs"
  by (simp only: utf8_valid.simps list.case assms if_True if_False)

text \<open>A valid string may be cut before any byte that starts a character.\<close>

lemma utf8_boundary:
  "utf8_valid (xs @ c # ys) \<Longrightarrow> \<not> cont_byte c \<Longrightarrow> utf8_valid xs \<and> utf8_valid (c # ys)"
proof (induction xs rule: length_induct)
  case (1 xs)
  note ih = "1.IH" [rule_format]
  show ?case
  proof (cases xs)
    case (Cons a as)
    show ?thesis
    proof (cases "a < 0x80")
      case True
      with 1 Cons ih [of as] show ?thesis by simp
    next
      case big: False
      then obtain b bs where as: "as = b # bs"
        using "1.prems" Cons lead_cont by (cases as) (auto split: list.splits if_splits)
      show ?thesis
      proof (cases "0xC2 \<le> a \<and> a \<le> 0xDF")
        case True
        note u = utf8_2 [OF big True, of b]
        from "1.prems" Cons as ih [of bs] show ?thesis by (simp add: u del: utf8_valid.simps)
      next
        case three: False
        then obtain d ds where bs: "bs = d # ds"
          using "1.prems" big Cons as by (cases bs) (auto split: list.splits if_splits)
        show ?thesis
        proof (cases "lead_3 a b")
          case True
          note u = utf8_3 [OF big three True, of d]
          from "1.prems" Cons as bs ih [of ds] show ?thesis by (simp add: u del: utf8_valid.simps)
        next
          case False
          then obtain e es where ds: "ds = e # es"
            using "1.prems" big three Cons as bs by (cases ds) (auto split: list.splits if_splits)
          note u = utf8_4 [OF big three False, of d e]
          from "1.prems" Cons as bs ds ih [of es] show ?thesis by (simp add: u del: utf8_valid.simps)
        qed
      qed
    qed
  qed (use "1.prems" in simp)
qed

lemma utf8_split:
  assumes "utf8_valid (xs @ c # ys)" and "c < 0x80"
  shows "utf8_valid xs" and "utf8_valid ys"
proof -
  have "\<not> cont_byte c" using assms(2) by (auto simp: cont_byte_def)
  from utf8_boundary [OF assms(1) this] assms(2) show "utf8_valid xs" and "utf8_valid ys" by simp_all
qed

lemma utf8_trim_end: "utf8_valid s \<Longrightarrow> utf8_valid (trim_end s)"
proof (induction s rule: trim_end.induct)
  case (1 s)
  show ?case
  proof (cases "List.find (\<lambda>w. strip_suffix w s \<noteq> None) WHITE_SPACE")
    case None
    then show ?thesis using "1.prems" by (simp add: trim_end.simps [of s])
  next
    case (Some w)
    then have w: "w \<in> set WHITE_SPACE" "strip_suffix w s \<noteq> None" by (auto simp: find_Some_iff)
    then obtain t where s: "s = t @ w" by (auto simp: strip_suffix_iff)
    obtain c cs where "w = c # cs" "\<not> cont_byte c"
      using w(1) by (cases w) (auto simp: WHITE_SPACE_def cont_byte_def)
    with "1.prems" s have "utf8_valid t" using utf8_boundary by blast
    with "1.IH" [OF Some] s have "utf8_valid (trim_end t)" by simp
    moreover have "trim_end s = trim_end (take (length s - length w) s)"
      by (subst trim_end.simps) (simp only: Some option.case)
    ultimately show ?thesis by (simp add: s)
  qed
qed

section \<open>Well-formed requests\<close>

definition body_ok :: "'r body \<Rightarrow> bool" where
  "body_ok b \<longleftrightarrow> bd_content_length b \<noteq> Some 0"

text \<open>A header as it is kept: a name in lower case, without a colon; a value without white space
  at its front; no line break in either.\<close>

definition header_ok :: "bytes \<times> bytes list \<Rightarrow> bool" where
  "header_ok e \<longleftrightarrow>
     to_ascii_lowercase (fst e) = fst e \<and> 0x3A \<notin> set (fst e) \<and> 0x0A \<notin> set (fst e) \<and>
     list_all (\<lambda>v. 0x0A \<notin> set v \<and> (v = [] \<or> \<not> ascii_space (hd v))) (snd e)"

definition wf_headers :: "header_map \<Rightarrow> bool" where
  "wf_headers h \<longleftrightarrow> hm_ok h \<and> list_all header_ok h"

definition wf_request :: "'r body request \<Rightarrow> bool" where
  "wf_request req \<longleftrightarrow>
     utf8_valid (rq_method req) \<and> rq_method req \<noteq> [] \<and> 0x20 \<notin> set (rq_method req) \<and>
     utf8_valid (rq_path req) \<and> 0x20 \<notin> set (rq_path req) \<and> utf8_valid (rq_host req) \<and>
     rq_version req = (1, 1) \<and> wf_headers (rq_headers req) \<and> body_ok (rq_body req)"

lemma request_line_typed:
  assumes "parse_request_line line = Ok (method, uri)" and "utf8_valid line"
  shows "utf8_valid method" and "utf8_valid uri" and "method \<noteq> []" and "0x20 \<notin> set method" and "0x20 \<notin> set uri"
proof -
  from assms(1) have line: "trim_end line = method @ 0x20 # uri @ 0x20 # ascii ''HTTP/1.1''"
    and "method \<noteq> []" "0x20 \<notin> set method" "0x20 \<notin> set uri" by (simp_all add: request_line_iff)
  then show "method \<noteq> []" "0x20 \<notin> set method" "0x20 \<notin> set uri" by simp_all
  have "utf8_valid (method @ 0x20 # uri @ 0x20 # ascii ''HTTP/1.1'')"
    using utf8_trim_end [OF assms(2)] by (simp add: line)
  note cut = utf8_split [OF this]
  show "utf8_valid method" by (rule cut) simp
  have "utf8_valid (uri @ 0x20 # ascii ''HTTP/1.1'')" by (rule cut) simp
  then show "utf8_valid uri" by (rule utf8_split) simp
qed

lemma request_target_typed:
  assumes "request_target lossy uri h = Ok (path, host)" and "utf8_valid uri" and "0x20 \<notin> set uri"
    and "\<And>x. utf8_valid (lossy x)"
  shows "utf8_valid path" and "0x20 \<notin> set path" and "utf8_valid host"
proof -
  have 1: "utf8_valid p \<and> 0x20 \<notin> set p \<and> utf8_valid t" if "uri = ascii ''https://'' @ t @ 0x2F # q" "p = 0x2F # q" for p q t
  proof -
    have "uri = ascii ''https:/'' @ 0x2F # t @ 0x2F # q" using that by (simp add: ascii_def)
    with assms(2) have "utf8_valid (ascii ''https:/'' @ 0x2F # t @ 0x2F # q)" by simp
    then have "utf8_valid (t @ 0x2F # q)" by (rule utf8_split) simp
    with assms(3) that utf8_split [OF this] show ?thesis by simp
  qed
  show "utf8_valid path" "0x20 \<notin> set path" "utf8_valid host"
    using assms 1 by (auto simp: request_target_def ascii_def strip_prefix_iff split: option.splits list.splits
        dest!: split_onceD)
qed

lemma header_ok_push: "header_ok (k, [v]) \<Longrightarrow> list_all header_ok h \<Longrightarrow> list_all header_ok (hm_push k v h)"
  by (induction k v h rule: hm_push.induct) (auto simp: header_ok_def)

lemma wf_headers_push: "header_ok (k, [v]) \<Longrightarrow> wf_headers h \<Longrightarrow> wf_headers (hm_push k v h)"
  by (simp add: wf_headers_def header_ok_push hm.push_inv)

lemma ascii_lower_keeps:
  "c \<in> {0x0A, 0x3A} \<Longrightarrow> c \<in> set (to_ascii_lowercase s) \<longleftrightarrow> c \<in> set s"
proof -
  assume "c \<in> {0x0A, 0x3A}"
  then have "lower_byte b = c \<longleftrightarrow> b = c" for b
    by (auto simp: lower_byte_def word_le_nat_alt word_unat_eq_iff unat_word_ariths split: if_splits)
  then have "(\<exists>b\<in>set s. c = lower_byte b) \<longleftrightarrow> (\<exists>b\<in>set s. c = b)" by metis
  then show ?thesis by (auto simp: to_ascii_lowercase_def image_iff)
qed

lemma trim_ascii_start_set:
  "set (trim_ascii_start xs) \<subseteq> set xs"
  "trim_ascii_start xs = [] \<or> \<not> ascii_space (hd (trim_ascii_start xs))"
  unfolding trim_ascii_start_def using hd_dropWhile [of ascii_space xs] by (auto dest: set_dropWhileD)

lemma header_line_ok:
  assumes "position 0x3A s = Some i" and "0x0A \<notin> set s"
  shows "header_ok (to_ascii_lowercase (take i s), [trim_ascii_start (drop 1 (drop i s))])"
proof -
  have i: "i = length (takeWhile (\<lambda>b. b \<noteq> 0x3A) s)" using assms(1) by (auto simp: position_def split: if_splits)
  have "take i s = takeWhile (\<lambda>b. b \<noteq> 0x3A) s" unfolding i by (rule takeWhile_eq_take [symmetric])
  then have "0x3A \<notin> set (take i s)" by (auto dest: set_takeWhileD)
  moreover have "0x0A \<notin> set (take i s)" using assms(2) in_set_takeD [of "0x0A" i s] by blast
  moreover have "0x0A \<notin> set (trim_ascii_start (drop 1 (drop i s)))"
    using assms(2) trim_ascii_start_set(1) [of "drop 1 (drop i s)"] in_set_dropD [of "0x0A" 1 "drop i s"] in_set_dropD [of "0x0A" i s] by blast
  moreover note trim_ascii_start_set(2) [of "drop 1 (drop i s)"]
  moreover have "c \<in> set (to_ascii_lowercase (take i s)) \<longleftrightarrow> c \<in> set (take i s)" if "c \<in> {0x0A, 0x3A}" for c
    using that by (rule ascii_lower_keeps)
  ultimately show ?thesis by (simp only: header_ok_def fst_conv snd_conv list.pred_inject lowercase_idem insert_iff simp_thms)
qed

lemma without_break: "0x0A \<notin> set (without_suffix [0x0D] (without_suffix [0x0A] (line_of 0x0A xs)))"
proof -
  have "0x0A \<notin> set (without_suffix [0x0A] (line_of 0x0A xs))"
  proof (cases "0x0A \<in> set xs")
    case True
    then have "without_suffix [0x0A] (line_of 0x0A xs) = takeWhile (\<lambda>b. b \<noteq> 0x0A) xs"
      by (simp add: line_of_def)
    then show ?thesis by (auto dest: set_takeWhileD)
  next
    case False
    then have "strip_suffix [0x0A] xs = None" by (intro strip_suffix_last) (auto dest: last_in_set)
    with False show ?thesis by (simp add: without_suffix_other)
  qed
  moreover have "set (without_suffix w ys) \<subseteq> set ys" for w ys
    by (auto simp: without_suffix_def strip_suffix_def split: if_splits option.splits dest: in_set_takeD)
  ultimately show ?thesis by blast
qed

text \<open>What a read from the body may return: a count of what it got, or a short message.\<close>

definition read_result :: "nat \<Rightarrow> (io_error, nat) rs \<Rightarrow> bytes \<Rightarrow> bool" where
  "read_result n x got \<longleftrightarrow>
     (case x of Ok k \<Rightarrow> k = length got | Err e \<Rightarrow> got = [] \<and> length (display_io e) \<le> 42 | Panic \<Rightarrow> False) \<and>
     length got \<le> n"

text \<open>The body after it: what was got comes from the connection, and nothing was skipped unless the
  body is in chunks.\<close>

definition body_after :: "('r \<Rightarrow> bytes) \<Rightarrow> 'r body \<Rightarrow> bytes \<Rightarrow> 'r body \<Rightarrow> bool" where
  "body_after pending b got b' \<longleftrightarrow>
     body_ok b' \<and> bd_chunked b' = bd_chunked b \<and>
     (\<exists>skip. br_pending pending (bd_reader b) = skip @ got @ br_pending pending (bd_reader b') \<and>
             (bd_chunked b \<or> skip = []))"

lemma body_ok_non_zero: "body_ok (b\<lparr>bd_reader := r, bd_content_length := non_zero n\<rparr>)"
  by (simp add: body_ok_def non_zero_def)

lemma display_int_error: "length (display_parse_int_error e) \<le> 42"
  by (cases e) simp_all

context byte_source
begin

section \<open>What the parser returns\<close>

text \<open>One round of the header loop, on the line that was read.\<close>

lemma parse_headers_step:
  assumes "read_until rd 0x0A r 0 [] = Some (Ok n, line, r1)"
  shows "parse_headers rd r h =
      (let s = without_suffix [0x0D] (without_suffix [0x0A] line) in
       if s = [] then Some (Ok h, r1)
       else (case position 0x3A s of
               None \<Rightarrow> Some (Err (ascii (''Failed to find '' @ [CHR 0x22] @ '':'' @ [CHR 0x22] @ '' in header'')), r1)
             | Some i \<Rightarrow> parse_headers rd r1 (hm_push (to_ascii_lowercase (take i s)) (trim_ascii_start (drop 1 (drop i s))) h)))"
  by (subst parse_headers.simps) (simp only: assms option.case prod.case rs.case Let_def)

lemma parse_headers_typed:
  "wf_headers h \<Longrightarrow> parse_headers rd r h = Some (Ok h', r') \<Longrightarrow> wf_headers h'"
proof (induction "length (br_pending pending r)" arbitrary: r h rule: less_induct)
  case less
  let ?line = "line_of 0x0A (br_pending pending r)"
  from read_until_line [of "0x0A" r 0 "[]"] obtain r1 where
    u: "read_until rd 0x0A r 0 [] = Some (Ok (length ?line), ?line, r1)"
    and p: "br_pending pending r1 = drop (length ?line) (br_pending pending r)" by auto
  define s where "s = without_suffix [0x0D] (without_suffix [0x0A] ?line)"
  note step = parse_headers_step [OF u, of h, unfolded Let_def, folded s_def]
  show ?case
  proof (cases "s = [] \<or> position 0x3A s = None")
    case True
    with less.prems show ?thesis by (auto simp: step split: if_splits)
  next
    case False
    then obtain i where i: "s \<noteq> []" "position 0x3A s = Some i" by blast
    have "?line \<noteq> []" using i(1) by (auto simp: s_def without_suffix_def strip_suffix_def)
    then have "br_pending pending r \<noteq> []" by (auto simp: line_of_def)
    with p \<open>?line \<noteq> []\<close> have "length (br_pending pending r1) < length (br_pending pending r)" by simp
    moreover have "header_ok (to_ascii_lowercase (take i s), [trim_ascii_start (drop 1 (drop i s))])"
      by (rule header_line_ok [OF i(2)]) (simp add: s_def without_break)
    then have "wf_headers (hm_push (to_ascii_lowercase (take i s)) (trim_ascii_start (drop 1 (drop i s))) h)"
      by (rule wf_headers_push [OF _ less.prems(1)])
    moreover have "parse_headers rd r1 (hm_push (to_ascii_lowercase (take i s)) (trim_ascii_start (drop 1 (drop i s))) h) = Some (Ok h', r')"
      using less.prems(2) i by (simp add: step)
    ultimately show ?thesis by (rule less.hyps)
  qed
qed

lemma get_body_typed:
  "get_body_reader rd r h = Some (Ok b) \<Longrightarrow> body_ok b"
  by (auto simp: get_body_reader_def body_ok_def non_zero_def Let_def
      split: option.splits rs.splits sum.splits if_splits list.splits)

lemma parse_typed:
  assumes "parse_request lossy rd r = Some (Ok req)" and "\<And>x. utf8_valid (lossy x)"
  shows "wf_request req"
proof -
  let ?l = "line_of 0x0A (pending r)"
  obtain r1 where line: "read_line rd (buf_reader_new r) =
      Some (if utf8_valid ?l then Ok ?l else Err InvalidUtf8, r1)"
    by (rule read_line_ok [of "buf_reader_new r", unfolded pending_new])
  with assms(1) have u: "utf8_valid ?l" by (auto simp: parse_request_def split: if_splits)
  with assms(1) line obtain meth uri h r2 body path host where
    1: "parse_request_line ?l = Ok (meth, uri)" and 2: "parse_headers rd r1 hm_new = Some (Ok h, r2)"
    and 3: "get_body_reader rd r2 h = Some (Ok body)" and 4: "request_target lossy uri h = Ok (path, host)"
    and req: "req = request_new meth path host (1, 1) h body"
    by (auto simp: parse_request_def split: rs.splits option.splits prod.splits)
  note m = request_line_typed [OF 1 u]
  note t = request_target_typed [OF 4 m(2,5) assms(2)]
  have "wf_headers h" by (rule parse_headers_typed [OF _ 2]) (simp add: wf_headers_def hm.fresh_inv, simp add: hm_new_def)
  with m t get_body_typed [OF 3] show ?thesis by (simp add: req request_new_def wf_request_def)
qed

section \<open>What the parser reports\<close>

lemma read_line_cases:
  obtains x r' skip where "read_line rd r = Some (x, r')" and "x \<noteq> Panic" and "\<forall>e. x = Err e \<longrightarrow> e = InvalidUtf8"
    and "br_pending pending r = skip @ br_pending pending r'"
proof -
  let ?l = "line_of 0x0A (br_pending pending r)"
  obtain r' where r: "read_line rd r = Some (if utf8_valid ?l then Ok ?l else Err InvalidUtf8, r')"
    and p: "br_pending pending r' = drop (length ?l) (br_pending pending r)" by (rule read_line_ok)
  have "br_pending pending r = take (length ?l) (br_pending pending r) @ br_pending pending r'" by (simp add: p)
  with r show thesis by (intro that [OF r]) (simp_all split: if_splits)
qed

text \<open>Every message is short, so that a result with room for 128 bytes can take it.\<close>

lemma parse_headers_message:
  "parse_headers rd r h = Some (Err e, r') \<Longrightarrow> length e \<le> 128"
proof (induction "length (br_pending pending r)" arbitrary: r h rule: less_induct)
  case less
  let ?line = "line_of 0x0A (br_pending pending r)"
  from read_until_line [of "0x0A" r 0 "[]"] obtain r1 where
    u: "read_until rd 0x0A r 0 [] = Some (Ok (length ?line), ?line, r1)"
    and p: "br_pending pending r1 = drop (length ?line) (br_pending pending r)" by auto
  define s where "s = without_suffix [0x0D] (without_suffix [0x0A] ?line)"
  note step = parse_headers_step [OF u, of h, unfolded Let_def, folded s_def]
  show ?case
  proof (cases "s = [] \<or> position 0x3A s = None")
    case True
    with less.prems show ?thesis by (auto simp: step split: if_splits)
  next
    case False
    then obtain i where i: "s \<noteq> []" "position 0x3A s = Some i" by blast
    have "?line \<noteq> []" using i(1) by (auto simp: s_def without_suffix_def strip_suffix_def)
    then have "br_pending pending r \<noteq> []" by (auto simp: line_of_def)
    with p \<open>?line \<noteq> []\<close> have "length (br_pending pending r1) < length (br_pending pending r)" by simp
    moreover from less.prems i have "parse_headers rd r1 (hm_push (to_ascii_lowercase (take i s)) (trim_ascii_start (drop 1 (drop i s))) h) = Some (Err e, r')"
      by (simp add: step)
    ultimately show ?thesis by (rule less.hyps)
  qed
qed

lemma get_body_message: "get_body_reader rd r h = Some (Err e) \<Longrightarrow> length e \<le> 105"
proof -
  assume err: "get_body_reader rd r h = Some (Err e)"
  obtain x r' skip where x: "read_line rd r = Some (x, r')" "\<forall>e. x = Err e \<longrightarrow> e = InvalidUtf8"
    by (rule read_line_cases [of r]) blast
  have int: "length (display_parse_int_error i) \<le> 60" "length (display_parse_int_error i) \<le> 73" for i
    using display_int_error [of i] by simp_all
  show ?thesis
    using err x
    by (auto simp: get_body_reader_def Let_def int
        split: option.splits rs.splits sum.splits if_splits list.splits)
qed

lemma request_target_message: "request_target lossy uri h = Err e \<Longrightarrow> length e \<le> 128"
  by (auto simp: request_target_def split: option.splits list.splits)

lemma parse_message:
  assumes "parse_request lossy rd r = Some (Err e)"
  shows "length e \<le> 128"
proof -
  let ?l = "line_of 0x0A (pending r)"
  obtain r1 where line: "read_line rd (buf_reader_new r) =
      Some (if utf8_valid ?l then Ok ?l else Err InvalidUtf8, r1)"
    by (rule read_line_ok [of "buf_reader_new r", unfolded pending_new])
  from assms line consider "e = ascii ''Failed to read status line: '' @ display_io InvalidUtf8"
    | "parse_request_line ?l = Err e"
    | r2 where "parse_headers rd r1 hm_new = Some (Err e, r2)"
    | r2 h e' where "get_body_reader rd r2 h = Some (Err e')" "e = ascii ''Failed to create body: '' @ e'"
    | uri h where "request_target lossy uri h = Err e"
    by (fastforce simp: parse_request_def split: rs.splits option.splits prod.splits if_splits)
  then show ?thesis
  proof cases
    case 1
    then show ?thesis by simp
  next
    case 2
    then show ?thesis by (auto simp: parse_request_line_def split: list.splits option.splits if_splits prod.splits)
  next
    case 3
    then show ?thesis by (rule parse_headers_message)
  next
    case 4
    then show ?thesis using get_body_message [of r2 h e'] by simp
  next
    case 5
    then show ?thesis by (rule request_target_message)
  qed
qed

lemma http_parse_reports:
  assumes "wf_result res" and "buffer_room (r_err res) 128"
  obtains q where "http_parse_http11_request lossy rd (Some r) (Some res) = Some q" and "wf_result q"
    and "case parse_request lossy rd r of
        Some (Ok req) \<Rightarrow> r_is_ok q \<and> r_ok q = Some req
      | Some (Err e) \<Rightarrow> \<not> r_is_ok q \<and> as_slice (r_err q) = e
      | _ \<Rightarrow> False"
proof -
  have sane: "is_sane (r_err res)" using assms(1) by (simp add: wf_result_def wf_sane)
  obtain x where x: "parse_request lossy rd r = Some x" "x \<noteq> Panic" using parse_total by blast
  show thesis
  proof (cases x)
    case (Ok req)
    obtain q where "set_ok res req = Some q" "wf_result q" "r_is_ok q" "r_ok q = Some req"
      by (rule set_ok_spec [OF assms(1)])
    with x Ok sane show thesis by (intro that [of q]) (simp_all add: http_parse_http11_request_def)
  next
    case (Err e)
    with x have "length e \<le> 128" by (simp add: parse_message)
    from buffer_room_mono [OF assms(2) this] obtain q where
      "set_err res e = Some q" "wf_result q" "\<not> r_is_ok q" "as_slice (r_err q) = e"
      by (rule set_err_spec [OF assms(1)])
    with x Err sane show thesis by (intro that [of q]) (simp_all add: http_parse_http11_request_def)
  qed (use x in simp)
qed

section \<open>Reading from the body\<close>

lemma br_read_cases:
  obtains k b' where "br_read rd b n = (Ok k, take k (br_pending pending b), b')"
    and "k \<le> n" and "k \<le> length (br_pending pending b)"
    and "br_pending pending b' = drop k (br_pending pending b)"
proof (cases "0 < n")
  case True
  show thesis
  proof (cases "br_pending pending b = []")
    case e: True
    from byte_source.exhausted [OF buffered_source e, of n] e that show thesis by auto
  next
    case False
    from byte_source.delivers [OF buffered_source True False] that show thesis by blast
  qed
next
  case False
  obtain b1 where b1: "fill_buf rd b = (Ok (buffered b1), b1)" "br_pending pending b1 = br_pending pending b"
    by (rule fill_buf_ok)
  from False b1(1) have "br_read rd b n = (Ok 0, take 0 (br_pending pending b), consume 0 b1)"
    by (simp add: br_read_def BUF_SIZE_def)
  moreover have "br_pending pending (consume 0 b1) = drop 0 (br_pending pending b)"
    by (simp add: pending_consume b1(2))
  ultimately show thesis by (intro that [of 0 "consume 0 b1"]) simp_all
qed


lemma body_take_safe:
  assumes "0 < len"
  shows "\<exists>x got b'. body_take rd b len n = (x, got, b') \<and> read_result n x got \<and> body_ok b' \<and>
    bd_chunked b' = bd_chunked b \<and> br_pending pending (bd_reader b) = got @ br_pending pending (bd_reader b')"
proof -
  let ?n = "if n > len then len else n"
  obtain k r where k: "br_read rd (bd_reader b) ?n = (Ok k, take k (br_pending pending (bd_reader b)), r)"
    "k \<le> ?n" "k \<le> length (br_pending pending (bd_reader b))"
    "br_pending pending r = drop k (br_pending pending (bd_reader b))" by (rule br_read_cases)
  then have "k \<le> len" "k \<le> n" by (simp_all split: if_splits)
  with k show ?thesis by (simp add: body_take_def read_result_def body_ok_non_zero)
qed

text \<open>Between two chunks: the read ends at the size line, or goes on with the chunk after it.\<close>

lemma chunk_size_cases:
  assumes "bd_content_length b = None" and "bd_chunked b"
  obtains (stop) x r skip where "body_read rd b n = Some (x, [], b\<lparr>bd_reader := r\<rparr>)" and "read_result n x []"
    and "br_pending pending (bd_reader b) = skip @ br_pending pending r"
  | (chunk) len r skip where "body_read rd b n = Some (body_take rd (b\<lparr>bd_reader := r\<rparr>) len n)" and "0 < len"
    and "br_pending pending (bd_reader b) = skip @ br_pending pending r"
proof -
  obtain x1 r1 s1 where 1: "read_line rd (bd_reader b) = Some (x1, r1)" "x1 \<noteq> Panic" "\<forall>e. x1 = Err e \<longrightarrow> e = InvalidUtf8"
    "br_pending pending (bd_reader b) = s1 @ br_pending pending r1" by (rule read_line_cases)
  obtain x2 r2 s2 where 2: "read_line rd r1 = Some (x2, r2)" "x2 \<noteq> Panic" "\<forall>e. x2 = Err e \<longrightarrow> e = InvalidUtf8"
    "br_pending pending r1 = s2 @ br_pending pending r2" by (rule read_line_cases)
  have skip: "br_pending pending (bd_reader b) = (s1 @ s2) @ br_pending pending r2" using 1(4) 2(4) by simp
  have msg: "read_result n (Err InvalidUtf8) []" "read_result n (Ok 0) []"
    "read_result n (Err (IoOther (display_parse_int_error e))) []" for e
    by (simp_all add: read_result_def display_int_error)
  show thesis
  proof (cases x1)
    case (Err e)
    then show thesis using 1 assms msg(1) by (intro stop [of "Err e" r1 s1]) (simp_all add: body_read_def)
  next
    case ok1: (Ok l1)
    show thesis
    proof (cases x2)
      case (Err e)
      then show thesis using 1(1) ok1 2 assms msg(1)
        by (intro stop [OF _ _ skip, of "Err e"]) (simp_all add: body_read_def)
    next
      case (Ok line)
      note step = assms 1(1) 2(1) ok1 Ok
      show thesis
      proof (cases "from_str_radix 16 (trim_end line)")
        case (Inl e)
        with step show thesis by (intro stop [OF _ msg(3) skip]) (simp add: body_read_def)
      next
        case (Inr len)
        show thesis
        proof (cases "len = 0")
          case True
          with step Inr show thesis by (intro stop [OF _ msg(2) skip]) (simp add: body_read_def)
        next
          case False
          with step Inr show thesis by (intro chunk [OF _ _ skip, of len]) (simp_all add: body_read_def)
        qed
      qed
    qed (use 2 in simp)
  qed (use 1 in simp)
qed

lemma body_read_safe:
  assumes "body_ok b"
  shows "\<exists>x got b'. body_read rd b n = Some (x, got, b') \<and> read_result n x got \<and> body_after pending b got b'"
proof (cases "bd_content_length b")
  case (Some len)
  with assms have "0 < len" by (simp add: body_ok_def)
  from body_take_safe [OF this, of b n] Some show ?thesis by (fastforce simp: body_read_def body_after_def)
next
  case None
  show ?thesis
  proof (cases "bd_chunked b")
    case False
    with None assms show ?thesis by (simp add: body_read_def read_result_def body_after_def)
  next
    case True
    with None show ?thesis
    proof (cases rule: chunk_size_cases [where n = n])
      case (stop x r skip)
      moreover from this have "body_after pending b [] (b\<lparr>bd_reader := r\<rparr>)"
        using assms True by (auto simp: body_after_def body_ok_def)
      ultimately show ?thesis by blast
    next
      case (chunk len r skip)
      obtain x got b' where b': "body_take rd (b\<lparr>bd_reader := r\<rparr>) len n = (x, got, b')" "read_result n x got"
        "body_ok b'" "bd_chunked b' = bd_chunked b" "br_pending pending r = got @ br_pending pending (bd_reader b')"
        using body_take_safe [OF chunk(2), of "b\<lparr>bd_reader := r\<rparr>" n] by auto
      have "body_after pending b got b'" using chunk(3) b'(3-5) True by (auto simp: body_after_def)
      with chunk(1) b'(1,2) show ?thesis by simp
    qed
  qed
qed

text \<open>The exported function, on a request that was parsed.\<close>

lemma http_read_body_safe:
  assumes "wf_request req" and "wf_result res" and "buffer_room (r_err res) 42"
  obtains got q b' where
    "http_read_body (request_body_cb rd) (Some req) (Some n) (Some res) = Some (got, q, req\<lparr>rq_body := b'\<rparr>)"
    and "wf_result q" and "length got \<le> n" and "body_after pending (rq_body req) got b'"
    and "if r_is_ok q then r_ok q = Some (length got) else got = []"
proof -
  have "body_ok (rq_body req)" using assms(1) by (simp add: wf_request_def)
  from body_read_safe [OF this, of n] obtain x got b' where
    x: "body_read rd (rq_body req) n = Some (x, got, b')" "read_result n x got" "body_after pending (rq_body req) got b'"
    by blast
  show thesis
  proof (cases x)
    case (Ok k)
    with x(2) have k: "k = length got" "length got \<le> n" by (simp_all add: read_result_def)
    obtain q where "set_ok res k = Some q" "wf_result q" "r_is_ok q" "r_ok q = Some k" by (rule set_ok_spec [OF assms(2)])
    with x Ok k show thesis
      by (intro that [of got q b'])
        (simp_all add: http_read_body_def http_bio_read_def request_body_cb_def reader_from_read_def body_reader_def)
  next
    case (Err e)
    with x(2) have e: "got = []" "length (display_io e) \<le> 42" by (simp_all add: read_result_def)
    from buffer_room_mono [OF assms(3) e(2)] obtain q where
      "set_err res (display_io e) = Some q" "wf_result q" "\<not> r_is_ok q" by (rule set_err_spec [OF assms(2)])
    with x Err e show thesis
      by (intro that [of got q b'])
        (simp_all add: http_read_body_def http_bio_read_def request_body_cb_def reader_from_read_def body_reader_def)
  qed (use x(2) in \<open>simp add: read_result_def\<close>)
qed

end

end
