(* ===== verification/Request_Spec.thy ===== *)
theory Request_Spec
  imports Request_Type
begin

text \<open>
  The request parser of \<open>http/src/http11.rs\<close> as a function on bytes: what a request is, without
  readers, buffers and reads of different sizes.

  \<open>request_of\<close> is the parser on the bytes of the connection; \<open>request_view\<close> forgets of a request
  how its body is read, and keeps the bytes that are left, the length and whether it is chunked.
  The lemmas: on every source of bytes the code's functions compute those of this theory
  (\<open>parse_headers_of\<close>, \<open>get_body_of\<close>, \<open>parse_request_of\<close>), so that what a request is does not
  depend on how the connection delivers it.
\<close>

section \<open>Requests as bytes\<close>

definition text_line :: "bytes \<Rightarrow> (io_error, bytes) rs" where
  "text_line xs = (if utf8_valid (line_of 0x0A xs) then Ok (line_of 0x0A xs) else Err InvalidUtf8)"

definition after_line :: "bytes \<Rightarrow> bytes" where
  "after_line xs = drop (length (line_of 0x0A xs)) xs"

text \<open>A header line without its line break.\<close>

definition header_line :: "bytes \<Rightarrow> bytes" where
  "header_line xs = without_suffix [0x0D] (without_suffix [0x0A] (line_of 0x0A xs))"

definition push_line :: "bytes \<Rightarrow> nat \<Rightarrow> header_map \<Rightarrow> header_map" where
  "push_line line i headers =
     hm_push (to_ascii_lowercase (take i line)) (trim_ascii_start (drop 1 (drop i line))) headers"

lemma after_header_line: "header_line xs \<noteq> [] \<Longrightarrow> length (after_line xs) < length xs"
proof -
  assume "header_line xs \<noteq> []"
  then have "line_of 0x0A xs \<noteq> []" by (auto simp: header_line_def without_suffix_def strip_suffix_def)
  moreover from this have "xs \<noteq> []" by (auto simp: line_of_def)
  ultimately show ?thesis by (simp add: after_line_def)
qed

function headers_of :: "bytes \<Rightarrow> header_map \<Rightarrow> (bytes, header_map) rs \<times> bytes" where
  "headers_of xs headers =
     (if header_line xs = [] then (Ok headers, after_line xs)
      else (case position 0x3A (header_line xs) of
              None \<Rightarrow> (Err (ascii (''Failed to find '' @ [CHR 0x22] @ '':'' @ [CHR 0x22] @ '' in header'')), after_line xs)
            | Some i \<Rightarrow> headers_of (after_line xs) (push_line (header_line xs) i headers)))"
  by pat_completeness auto

termination
  by (relation "measure (\<lambda>(xs, h). length xs)") (simp_all add: after_header_line)

declare headers_of.simps [simp del]

text \<open>The body: the bytes that it starts with, its length, and whether chunks follow.\<close>

type_synonym body_view = "bytes \<times> nat option \<times> bool"

definition body_of :: "bytes \<Rightarrow> header_map \<Rightarrow> (bytes, body_view) rs" where
  "body_of xs headers =
     (if ascii ''chunked'' \<in> set (hm_values headers (ascii ''transfer-encoding''))
      then (case text_line xs of
              Ok line \<Rightarrow>
                (case from_str_radix 16 (trim_end line) of
                   Inl e \<Rightarrow> Err (ascii ''Failed to get chunked encoding first length: '' @ display_parse_int_error e)
                 | Inr len \<Rightarrow> Ok (after_line xs, non_zero len, len \<noteq> 0))
            | _ \<Rightarrow> Err (ascii ''Failed to read chunked encoding line: '' @ display_io InvalidUtf8))
      else (case from_str_radix 10 (case hm_values headers (ascii ''content-length'') of
                [] \<Rightarrow> ascii ''0'' | v # vs \<Rightarrow> if utf8_valid v then v else ascii ''0'') of
              Inl e \<Rightarrow> Err (ascii ''Failed to parse content length: '' @ display_parse_int_error e)
            | Inr len \<Rightarrow> Ok (xs, non_zero len, False)))"

definition request_of :: "(bytes \<Rightarrow> bytes) \<Rightarrow> bytes \<Rightarrow> (bytes, body_view request) rs" where
  "request_of lossy xs =
     (case text_line xs of
        Ok line \<Rightarrow>
          (case parse_request_line line of
             Ok (method, uri) \<Rightarrow>
               (case headers_of (after_line xs) hm_new of
                  (Ok headers, ys) \<Rightarrow>
                    (case body_of ys headers of
                       Ok body \<Rightarrow>
                         (case request_target lossy uri headers of
                            Ok (path, host) \<Rightarrow> Ok (request_new method path host (1, 1) headers body)
                          | Err e \<Rightarrow> Err e
                          | Panic \<Rightarrow> Panic)
                     | Err e \<Rightarrow> Err (ascii ''Failed to create body: '' @ e)
                     | Panic \<Rightarrow> Panic)
                | (Err e, ys) \<Rightarrow> Err e
                | (Panic, ys) \<Rightarrow> Panic)
           | Err e \<Rightarrow> Err e
           | Panic \<Rightarrow> Panic)
      | _ \<Rightarrow> Err (ascii ''Failed to read status line: '' @ display_io InvalidUtf8))"

definition view_body :: "('r \<Rightarrow> bytes) \<Rightarrow> 'r body \<Rightarrow> body_view" where
  "view_body pending b = (br_pending pending (bd_reader b), bd_content_length b, bd_chunked b)"

definition request_view :: "('r \<Rightarrow> bytes) \<Rightarrow> 'r body request \<Rightarrow> body_view request" where
  "request_view pending req =
     request_new (rq_method req) (rq_path req) (rq_host req) (rq_version req) (rq_headers req)
       (view_body pending (rq_body req))"

section \<open>The code computes them\<close>

context byte_source
begin

lemma read_line_of:
  obtains r' where "read_line rd r = Some (text_line (br_pending pending r), r')"
    and "br_pending pending r' = after_line (br_pending pending r)"
  by (rule read_line_ok [of r]) (auto simp: text_line_def after_line_def)

lemma parse_headers_of:
  "\<exists>r'. parse_headers rd r h = Some (fst (headers_of (br_pending pending r) h), r') \<and>
    br_pending pending r' = snd (headers_of (br_pending pending r) h)"
proof (induction "length (br_pending pending r)" arbitrary: r h rule: less_induct)
  case less
  let ?xs = "br_pending pending r"
  from read_until_line [of "0x0A" r 0 "[]"] obtain r1 where
    u: "read_until rd 0x0A r 0 [] = Some (Ok (length (line_of 0x0A ?xs)), line_of 0x0A ?xs, r1)"
    and p: "br_pending pending r1 = after_line ?xs" by (auto simp: after_line_def)
  note step = parse_headers_step [OF u, of h, unfolded Let_def, folded header_line_def push_line_def]
  note spec = headers_of.simps [of ?xs h]
  show ?case
  proof (cases "header_line ?xs = [] \<or> position 0x3A (header_line ?xs) = None")
    case True
    with p show ?thesis by (auto simp: step spec)
  next
    case False
    then obtain i where i: "header_line ?xs \<noteq> []" "position 0x3A (header_line ?xs) = Some i" by blast
    have "length (br_pending pending r1) < length ?xs" using after_header_line [OF i(1)] by (simp add: p)
    from less.hyps [OF this, of "push_line (header_line ?xs) i h"] i show ?thesis by (simp add: step spec p)
  qed
qed

lemma headers_of_ok: "hm_ok h \<Longrightarrow> fst (headers_of xs h) \<noteq> Panic \<and> (\<forall>h'. fst (headers_of xs h) = Ok h' \<longrightarrow> hm_ok h')"
proof (induction xs h rule: headers_of.induct)
  case (1 xs h)
  have "hm_ok (push_line (header_line xs) i h)" for i
    unfolding push_line_def by (rule hm.push_inv [OF 1(2)])
  with 1 show ?case by (subst (1 2) headers_of.simps) (auto split: option.splits)
qed

lemma get_body_of:
  assumes "hm_ok h"
  shows "\<exists>x. get_body_reader rd r h = Some x \<and> map_rs id (view_body pending) x = body_of (br_pending pending r) h"
proof -
  obtain r' where line: "read_line rd r = Some (text_line (br_pending pending r), r')"
    and p: "br_pending pending r' = after_line (br_pending pending r)" by (rule read_line_of)
  have te: "(case hm_get h (ascii ''transfer-encoding'') of None \<Rightarrow> False | Some vs \<Rightarrow> ascii ''chunked'' \<in> set vs) \<longleftrightarrow>
      ascii ''chunked'' \<in> set (hm_values h (ascii ''transfer-encoding''))"
    by (simp add: hm_values_def split: option.split)
  have cl: "hm_get h (ascii ''content-length'') =
      (case hm_values h (ascii ''content-length'') of [] \<Rightarrow> None | vs \<Rightarrow> Some vs)"
    using assms by (auto simp: hm_values_def hm_ok_def hm_get_def dest: map_of_SomeD split: option.splits list.splits)
  show ?thesis
    using line p by (cases "ascii ''chunked'' \<in> set (hm_values h (ascii ''transfer-encoding''))")
      (auto simp: get_body_reader_def te cl body_of_def text_line_def view_body_def non_zero_def Let_def
        split: list.split sum.split)
qed

lemma parse_request_of:
  "\<exists>x. parse_request lossy rd r = Some x \<and> map_rs id (request_view pending) x = request_of lossy (pending r)"
proof -
  obtain r1 where line: "read_line rd (buf_reader_new r) = Some (text_line (pending r), r1)"
    and p1: "br_pending pending r1 = after_line (pending r)"
    by (rule read_line_of [of "buf_reader_new r", unfolded pending_new])
  obtain y ys where hs: "headers_of (after_line (pending r)) hm_new = (y, ys)" by force
  with parse_headers_of [of r1 hm_new] p1 obtain r2 where
    heads: "parse_headers rd r1 hm_new = Some (y, r2)" and p2: "br_pending pending r2 = ys" by auto
  note spec = request_of_def [of lossy "pending r"] parse_request_def [of lossy rd r] line hs heads
  show ?thesis
  proof (cases "text_line (pending r)")
    case l: (Ok l)
    show ?thesis
    proof (cases "parse_request_line l")
      case mu: (Ok mu)
      obtain meth uri where [simp]: "mu = (meth, uri)" by force
      show ?thesis
      proof (cases y)
        case h: (Ok h)
        have "hm_ok h" using headers_of_ok [OF hm.fresh_inv, of "after_line (pending r)"] hs h by simp
        then obtain x where x: "get_body_reader rd r2 h = Some x" "map_rs id (view_body pending) x = body_of ys h"
          using get_body_of [of h r2] p2 by blast
        then show ?thesis
        proof (cases x)
          case (Ok b)
          with x(2) have "body_of ys h = Ok (view_body pending b)" by simp
          with Ok x(1) l mu h show ?thesis
            by (cases "request_target lossy uri h") (auto simp: spec request_view_def request_new_def)
        next
          case (Err e)
          with x(2) have "body_of ys h = Err e" by simp
          with Err x(1) l mu h show ?thesis by (simp add: spec)
        next
          case Panic
          with x(2) have "body_of ys h = Panic" by simp
          with Panic x(1) l mu h show ?thesis by (simp add: spec)
        qed
      qed (use l mu in \<open>simp_all add: spec\<close>)
    qed (use l in \<open>simp_all add: spec\<close>)
  qed (auto simp: spec text_line_def split: if_splits)
qed

text \<open>Two sources with the same bytes give the same requests.\<close>

lemma parse_request_same:
  assumes "byte_source rd' pending'" and "pending' r' = pending r"
    and "parse_request lossy rd r = Some x" and "parse_request lossy rd' r' = Some x'"
  shows "map_rs id (request_view pending') x' = map_rs id (request_view pending) x"
  using parse_request_of [of lossy r] byte_source.parse_request_of [OF assms(1), of lossy r'] assms(2-4) by simp

end

end
