(* ===== verification/Objects.thy ===== *)
theory Objects
  imports Prelude "HOL-Library.Multiset"
begin

text \<open>
  The objects that the library hands out as pointers, and who frees them: readers and writers
  (\<open>http/src/bio.rs\<close>), requests (\<open>request.rs\<close>), response writers (\<open>response.rs\<close>), contexts
  (\<open>http2/context.rs\<close>), and the reader that \<open>http_parse_http11_request\<close> takes over (\<open>http11.rs\<close>).

  The heap has a cell for every box; a cell holds what the object owns, its pointers and its
  clear function, not its values (they are in the other theories). An operation that touches a
  box that is not there, or is of another type, or that asserts a pointer that is null, is
  \<open>None\<close>. The calls on clear functions that were passed in from C are recorded.

  The lemmas: an object that is freed takes with it exactly the boxes below it
  (\<open>destroy_reader_frees\<close>); a client that follows the contracts stated in the comments of the
  code keeps the invariant that every box is below exactly one of its pointers (\<open>run_inv\<close>).
\<close>

section \<open>The heap\<close>

type_synonym addr = nat

text \<open>A \<open>void\<close> pointer: null, a box of the library, or a pointer of the caller.\<close>

datatype data_ptr = Null | Boxed addr | Foreign nat

text \<open>The callbacks: those of the library, and those of the caller.\<close>

datatype io_fn = Null_Fn | Box_Fn | Foreign_Fn nat

datatype clear_fn = Null_Clear | Clear_Box | Clear_Foreign

text \<open>What a boxed Rust reader or writer owns; \<open>RAIIReader\<close> is inside a request's body.\<close>

datatype content = Plain | Raii_Reader addr

datatype cell =
    Reader_Cell data_ptr io_fn clear_fn
  | Writer_Cell data_ptr io_fn clear_fn
  | Data_Cell content
  | Request_Cell addr
  | Response_Cell addr
  | Context_Cell

record objects =
  boxes :: "addr \<rightharpoonup> cell"
  next_addr :: addr
  cleared :: "nat list"

text \<open>Address zero is the null pointer.\<close>

definition objects_new :: objects where
  "objects_new = \<lparr>boxes = Map.empty, next_addr = 1, cleared = []\<rparr>"

text \<open>\<open>Box::into_raw(Box::new(c))\<close>, and dropping a \<open>Box::from_raw(a)\<close> whose content is gone.\<close>

definition box_new :: "cell \<Rightarrow> objects \<Rightarrow> addr \<times> objects" where
  "box_new c m = (next_addr m, m\<lparr>boxes := (boxes m)(next_addr m \<mapsto> c), next_addr := next_addr m + 1\<rparr>)"

definition box_free :: "addr \<Rightarrow> objects \<Rightarrow> objects option" where
  "box_free a m = (if boxes m a = None then None else Some (m\<lparr>boxes := (boxes m)(a := None)\<rparr>))"

section \<open>Readers and writers\<close>

definition http_new_reader :: "data_ptr \<Rightarrow> io_fn \<Rightarrow> clear_fn \<Rightarrow> objects \<Rightarrow> addr \<times> objects" where
  "http_new_reader data read_fn clear_fn m = box_new (Reader_Cell data read_fn clear_fn) m"

definition http_new_empty_data_reader :: "io_fn \<Rightarrow> objects \<Rightarrow> addr \<times> objects" where
  "http_new_empty_data_reader read_fn m = http_new_reader Null read_fn Null_Clear m"

definition http_new_empty_reader :: "objects \<Rightarrow> addr \<times> objects" where
  "http_new_empty_reader m = http_new_reader Null Null_Fn Null_Clear m"

definition boxed_reader :: "content \<Rightarrow> objects \<Rightarrow> addr \<times> objects" where
  "boxed_reader c m =
     (let (b, m) = box_new (Data_Cell c) m in http_new_reader (Boxed b) Box_Fn Clear_Box m)"

text \<open>
  The clear function runs first, then the pair is freed. The clear function of a boxed value
  drops the value, which destroys the reader inside it, and frees its box.
\<close>

partial_function (option) http_destroy_reader :: "addr \<Rightarrow> objects \<Rightarrow> objects option" where
  "http_destroy_reader a m =
     (case boxes m a of
        Some (Reader_Cell data read_fn clear_fn) \<Rightarrow>
          (case clear_fn of
             Null_Clear \<Rightarrow> box_free a m
           | Clear_Foreign \<Rightarrow>
               (case data of
                  Foreign x \<Rightarrow> box_free a (m\<lparr>cleared := cleared m @ [x]\<rparr>)
                | _ \<Rightarrow> None)
           | Clear_Box \<Rightarrow>
               (case data of
                  Boxed b \<Rightarrow>
                    (case boxes m b of
                       Some (Data_Cell Plain) \<Rightarrow> Option.bind (box_free b m) (box_free a)
                     | Some (Data_Cell (Raii_Reader r)) \<Rightarrow>
                         Option.bind (http_destroy_reader r m) (\<lambda>m. Option.bind (box_free b m) (box_free a))
                     | _ \<Rightarrow> None)
                | _ \<Rightarrow> None))
      | _ \<Rightarrow> None)"

definition http_new_writer :: "data_ptr \<Rightarrow> io_fn \<Rightarrow> clear_fn \<Rightarrow> objects \<Rightarrow> addr \<times> objects" where
  "http_new_writer data write_fn clear_fn m = box_new (Writer_Cell data write_fn clear_fn) m"

definition http_new_empty_data_writer :: "io_fn \<Rightarrow> objects \<Rightarrow> addr \<times> objects" where
  "http_new_empty_data_writer write_fn m = http_new_writer Null write_fn Null_Clear m"

definition boxed_writer :: "objects \<Rightarrow> addr \<times> objects" where
  "boxed_writer m =
     (let (b, m) = box_new (Data_Cell Plain) m in http_new_writer (Boxed b) Box_Fn Clear_Box m)"

definition http_destroy_writer :: "addr \<Rightarrow> objects \<Rightarrow> objects option" where
  "http_destroy_writer a m =
     (case boxes m a of
        Some (Writer_Cell data write_fn clear_fn) \<Rightarrow>
          (case clear_fn of
             Null_Clear \<Rightarrow> box_free a m
           | Clear_Foreign \<Rightarrow>
               (case data of
                  Foreign x \<Rightarrow> box_free a (m\<lparr>cleared := cleared m @ [x]\<rparr>)
                | _ \<Rightarrow> None)
           | Clear_Box \<Rightarrow>
               (case data of
                  Boxed b \<Rightarrow>
                    (if boxes m b = Some (Data_Cell Plain)
                     then Option.bind (box_free b m) (box_free a) else None)
                | _ \<Rightarrow> None))
      | _ \<Rightarrow> None)"

section \<open>Requests, response writers, contexts\<close>

text \<open>
  The parser owns the reader from its first step on: it is dropped with the parser's state on an
  error, and moves into the body otherwise. The result is the pointer to the request, if any.
\<close>

definition parse_objects :: "('e, 'q) rs \<Rightarrow> addr \<Rightarrow> objects \<Rightarrow> (addr option \<times> objects) option" where
  "parse_objects x reader m =
     (if reader = 0 then None
      else (case x of
              Ok _ \<Rightarrow>
                let (body, m) = boxed_reader (Raii_Reader reader) m;
                    (req, m) = box_new (Request_Cell body) m
                in Some (Some req, m)
            | Err _ \<Rightarrow> map_option (\<lambda>m. (None, m)) (http_destroy_reader reader m)
            | Panic \<Rightarrow> None))"

definition http_destroy_request :: "addr \<Rightarrow> objects \<Rightarrow> objects option" where
  "http_destroy_request a m =
     (case boxes m a of
        Some (Request_Cell body) \<Rightarrow> Option.bind (http_destroy_reader body m) (box_free a)
      | _ \<Rightarrow> None)"

definition response_object :: "addr \<Rightarrow> objects \<Rightarrow> (addr \<times> objects) option" where
  "response_object writer m = (if writer = 0 then None else Some (box_new (Response_Cell writer) m))"

definition http_destroy_response_writer :: "addr \<Rightarrow> objects \<Rightarrow> objects option" where
  "http_destroy_response_writer a m =
     (case boxes m a of
        Some (Response_Cell writer) \<Rightarrow> Option.bind (http_destroy_writer writer m) (box_free a)
      | _ \<Rightarrow> None)"

definition http_new_context :: "objects \<Rightarrow> addr \<times> objects" where
  "http_new_context m = box_new Context_Cell m"

definition http_destroy_context :: "addr \<Rightarrow> objects \<Rightarrow> objects option" where
  "http_destroy_context a m = (if boxes m a = Some Context_Cell then box_free a m else None)"

text \<open>The start of an HTTP/2 connection makes a context when it succeeds; it only borrows the
  reader and the writer.\<close>

definition start_objects :: "('e, 'q) rs \<Rightarrow> objects \<Rightarrow> (addr option \<times> objects) option" where
  "start_objects x m =
     (case x of
        Ok _ \<Rightarrow> (let (c, m) = http_new_context m in Some (Some c, m))
      | Err _ \<Rightarrow> Some (None, m)
      | Panic \<Rightarrow> None)"

section \<open>A client\<close>

text \<open>The pointers that a client holds, and the calls that it makes.\<close>

datatype handle = Reader_H addr | Writer_H addr | Request_H addr | Response_H addr | Context_H addr

datatype call =
    New_Reader nat io_fn
  | New_Empty_Reader
  | New_Empty_Data_Reader io_fn
  | New_Boxed_Reader
  | New_Writer nat io_fn
  | New_Empty_Data_Writer io_fn
  | New_Boxed_Writer
  | Parse_Request addr bool
  | Response_Writer addr
  | New_Context
  | Start_Connection bool
  | Destroy handle

fun destroy :: "handle \<Rightarrow> objects \<Rightarrow> objects option" where
  "destroy (Reader_H a) = http_destroy_reader a"
| "destroy (Writer_H a) = http_destroy_writer a"
| "destroy (Request_H a) = http_destroy_request a"
| "destroy (Response_H a) = http_destroy_response_writer a"
| "destroy (Context_H a) = http_destroy_context a"

text \<open>The outcome of a call that may fail, without its message or value.\<close>

definition outcome :: "bool \<Rightarrow> (unit, unit) rs" where
  "outcome good = (if good then Ok () else Err ())"

fun held :: "(addr \<Rightarrow> handle) \<Rightarrow> addr option \<Rightarrow> handle list" where
  "held h None = []"
| "held h (Some a) = [h a]"

fun call_step :: "call \<Rightarrow> handle list \<times> objects \<Rightarrow> (handle list \<times> objects) option" where
  "call_step (New_Reader x f) (hs, m) =
     (let (a, m) = http_new_reader (Foreign x) f Clear_Foreign m in Some (Reader_H a # hs, m))"
| "call_step New_Empty_Reader (hs, m) =
     (let (a, m) = http_new_empty_reader m in Some (Reader_H a # hs, m))"
| "call_step (New_Empty_Data_Reader f) (hs, m) =
     (let (a, m) = http_new_empty_data_reader f m in Some (Reader_H a # hs, m))"
| "call_step New_Boxed_Reader (hs, m) =
     (let (a, m) = boxed_reader Plain m in Some (Reader_H a # hs, m))"
| "call_step (New_Writer x f) (hs, m) =
     (let (a, m) = http_new_writer (Foreign x) f Clear_Foreign m in Some (Writer_H a # hs, m))"
| "call_step (New_Empty_Data_Writer f) (hs, m) =
     (let (a, m) = http_new_empty_data_writer f m in Some (Writer_H a # hs, m))"
| "call_step New_Boxed_Writer (hs, m) =
     (let (a, m) = boxed_writer m in Some (Writer_H a # hs, m))"
| "call_step (Parse_Request a good) (hs, m) =
     map_option (\<lambda>(req, m). (held Request_H req @ remove1 (Reader_H a) hs, m))
       (parse_objects (outcome good) a m)"
| "call_step (Response_Writer a) (hs, m) =
     map_option (\<lambda>(b, m). (Response_H b # remove1 (Writer_H a) hs, m)) (response_object a m)"
| "call_step New_Context (hs, m) =
     (let (a, m) = http_new_context m in Some (Context_H a # hs, m))"
| "call_step (Start_Connection good) (hs, m) =
     map_option (\<lambda>(c, m). (held Context_H c @ hs, m)) (start_objects (outcome good) m)"
| "call_step (Destroy h) (hs, m) = map_option (\<lambda>m. (remove1 h hs, m)) (destroy h m)"

text \<open>The contracts: a pointer that a call takes over is one that the client holds.\<close>

fun allowed :: "handle list \<Rightarrow> call \<Rightarrow> bool" where
  "allowed hs (Parse_Request a good) \<longleftrightarrow> Reader_H a \<in> set hs"
| "allowed hs (Response_Writer a) \<longleftrightarrow> Writer_H a \<in> set hs"
| "allowed hs (Destroy h) \<longleftrightarrow> h \<in> set hs"
| "allowed hs c \<longleftrightarrow> True"

inductive client_run :: "call list \<Rightarrow> handle list \<Rightarrow> objects \<Rightarrow> bool" where
  start: "client_run [] [] objects_new"
| call: "client_run cs hs m \<Longrightarrow> allowed hs c \<Longrightarrow> call_step c (hs, m) = Some (hs', m') \<Longrightarrow>
    client_run (cs @ [c]) hs' m'"

text \<open>The pointers that the client passed in to be cleared.\<close>

fun given :: "call \<Rightarrow> nat list" where
  "given (New_Reader x f) = [x]"
| "given (New_Writer x f) = [x]"
| "given c = []"

fun destroy_all :: "handle list \<Rightarrow> objects \<Rightarrow> objects option" where
  "destroy_all [] m = Some m"
| "destroy_all (h # hs) m = Option.bind (destroy h m) (destroy_all hs)"

section \<open>What an object owns\<close>

text \<open>The boxes below a reader, and the caller's pointers that are cleared with it.\<close>

inductive reader_at :: "(addr \<rightharpoonup> cell) \<Rightarrow> addr \<Rightarrow> addr list \<Rightarrow> nat list \<Rightarrow> bool" for h where
  null: "h a = Some (Reader_Cell d f Null_Clear) \<Longrightarrow> reader_at h a [a] []"
| foreign: "h a = Some (Reader_Cell (Foreign x) f Clear_Foreign) \<Longrightarrow> reader_at h a [a] [x]"
| boxed: "h a = Some (Reader_Cell (Boxed b) f Clear_Box) \<Longrightarrow> h b = Some (Data_Cell Plain) \<Longrightarrow>
    reader_at h a [a, b] []"
| nested: "h a = Some (Reader_Cell (Boxed b) f Clear_Box) \<Longrightarrow> h b = Some (Data_Cell (Raii_Reader r)) \<Longrightarrow>
    reader_at h r as xs \<Longrightarrow> reader_at h a (a # b # as) xs"

inductive writer_at :: "(addr \<rightharpoonup> cell) \<Rightarrow> addr \<Rightarrow> addr list \<Rightarrow> nat list \<Rightarrow> bool" for h where
  null: "h a = Some (Writer_Cell d f Null_Clear) \<Longrightarrow> writer_at h a [a] []"
| foreign: "h a = Some (Writer_Cell (Foreign x) f Clear_Foreign) \<Longrightarrow> writer_at h a [a] [x]"
| boxed: "h a = Some (Writer_Cell (Boxed b) f Clear_Box) \<Longrightarrow> h b = Some (Data_Cell Plain) \<Longrightarrow>
    writer_at h a [a, b] []"

inductive handle_at :: "(addr \<rightharpoonup> cell) \<Rightarrow> handle \<Rightarrow> addr list \<Rightarrow> nat list \<Rightarrow> bool" for h where
  reader: "reader_at h a as xs \<Longrightarrow> handle_at h (Reader_H a) as xs"
| writer: "writer_at h a as xs \<Longrightarrow> handle_at h (Writer_H a) as xs"
| request: "h a = Some (Request_Cell r) \<Longrightarrow> reader_at h r as xs \<Longrightarrow> handle_at h (Request_H a) (a # as) xs"
| response: "h a = Some (Response_Cell w) \<Longrightarrow> writer_at h w as xs \<Longrightarrow> handle_at h (Response_H a) (a # as) xs"
| context_: "h a = Some Context_Cell \<Longrightarrow> handle_at h (Context_H a) [a] []"

inductive_cases handle_atE:
  "handle_at h (Reader_H a) as xs" "handle_at h (Writer_H a) as xs" "handle_at h (Request_H a) as xs"
  "handle_at h (Response_H a) as xs" "handle_at h (Context_H a) as xs"

lemma reader_at_frame: "reader_at h a as xs \<Longrightarrow> (\<And>x. x \<in> set as \<Longrightarrow> h' x = h x) \<Longrightarrow> reader_at h' a as xs"
  by (induction rule: reader_at.induct) (auto intro: reader_at.intros)

lemma writer_at_frame: "writer_at h a as xs \<Longrightarrow> (\<And>x. x \<in> set as \<Longrightarrow> h' x = h x) \<Longrightarrow> writer_at h' a as xs"
  by (induction rule: writer_at.induct) (auto intro: writer_at.intros)

lemma handle_at_frame:
  assumes "handle_at h t as xs" and "\<And>x. x \<in> set as \<Longrightarrow> h' x = h x"
  shows "handle_at h' t as xs"
  using assms by cases (auto intro!: handle_at.intros elim!: reader_at_frame writer_at_frame)

lemma reader_at_dom: "reader_at h a as xs \<Longrightarrow> a \<in> set as \<and> set as \<subseteq> dom h"
  by (induction rule: reader_at.induct) auto

lemma writer_at_dom: "writer_at h a as xs \<Longrightarrow> a \<in> set as \<and> set as \<subseteq> dom h"
  by (induction rule: writer_at.induct) auto

lemma handle_at_dom: "handle_at h t as xs \<Longrightarrow> set as \<subseteq> dom h"
  by (erule handle_at.cases) (auto dest: reader_at_dom writer_at_dom)

section \<open>Freeing takes what is owned\<close>

definition frees :: "addr list \<Rightarrow> nat list \<Rightarrow> objects \<Rightarrow> objects" where
  "frees as xs m = m\<lparr>boxes := boxes m |` (- set as), cleared := cleared m @ xs\<rparr>"

lemma frees_simps [simp]:
  "boxes (frees as xs m) = boxes m |` (- set as)" "cleared (frees as xs m) = cleared m @ xs"
  "next_addr (frees as xs m) = next_addr m"
  by (simp_all add: frees_def)

lemma box_free_frees: "a \<in> dom (boxes m) \<Longrightarrow> box_free a m = Some (frees [a] [] m)"
  by (auto simp: box_free_def frees_def restrict_map_def fun_eq_iff)

lemma box_free_after:
  assumes "a \<in> dom (boxes m)" and "a \<notin> set as"
  shows "box_free a (frees as xs m) = Some (frees (a # as) xs m)"
proof -
  have "boxes m |` (- insert a (set as)) = (boxes m |` (- set as))(a := None)"
    by (auto simp: restrict_map_def fun_eq_iff)
  with assms show ?thesis by (auto simp: box_free_def frees_def)
qed

lemma destroy_reader_frees:
  "reader_at (boxes m) a as xs \<Longrightarrow> distinct as \<Longrightarrow> http_destroy_reader a m = Some (frees as xs m)"
proof (induction rule: reader_at.induct)
  case (null a d f)
  then show ?case by (simp add: http_destroy_reader.simps [of a m] box_free_frees domIff)
next
  case (foreign a x f)
  then show ?case
    by (simp add: http_destroy_reader.simps [of a m] box_free_frees domIff frees_def)
next
  case (boxed a b f)
  then show ?case
    by (simp add: http_destroy_reader.simps [of a m] box_free_frees [of b] box_free_after domIff)
next
  case (nested a b f r as xs)
  then show ?case
    by (simp add: http_destroy_reader.simps [of a m] box_free_after domIff)
qed

lemma destroy_writer_frees:
  "writer_at (boxes m) a as xs \<Longrightarrow> distinct as \<Longrightarrow> http_destroy_writer a m = Some (frees as xs m)"
proof (induction rule: writer_at.induct)
  case (foreign a x f)
  then show ?case
    by (simp add: http_destroy_writer_def box_free_frees domIff frees_def)
next
  case (boxed a b f)
  then show ?case
    by (simp add: http_destroy_writer_def box_free_frees [of b] box_free_after domIff)
qed (simp add: http_destroy_writer_def box_free_frees domIff)

lemma destroy_frees:
  assumes "handle_at (boxes m) t as xs" and "distinct as"
  shows "destroy t m = Some (frees as xs m)"
  using assms
proof cases
  case (request a r bs)
  with assms(2) show ?thesis
    by (simp add: http_destroy_request_def destroy_reader_frees box_free_after domIff)
next
  case (response a w bs)
  with assms(2) show ?thesis
    by (simp add: http_destroy_response_writer_def destroy_writer_frees box_free_after domIff)
next
  case (context_ a)
  then show ?thesis by (simp add: http_destroy_context_def box_free_frees domIff)
qed (use assms(2) in \<open>simp_all add: destroy_reader_frees destroy_writer_frees\<close>)

section \<open>The invariant of a client\<close>

text \<open>
  The list has the client's pointers, each with the boxes and the caller's pointers below it.
  The boxes below different pointers are different, and together they are all boxes.
\<close>

definition all_boxes :: "(handle \<times> addr list \<times> nat list) list \<Rightarrow> addr list" where
  "all_boxes os = concat (map (\<lambda>e. fst (snd e)) os)"

definition all_given :: "(handle \<times> addr list \<times> nat list) list \<Rightarrow> nat list" where
  "all_given os = concat (map (\<lambda>e. snd (snd e)) os)"

lemma all_simps [simp]:
  "all_boxes ((t, as, xs) # os) = as @ all_boxes os" "all_given ((t, as, xs) # os) = xs @ all_given os"
  "all_boxes [] = []" "all_given [] = []"
  by (simp_all add: all_boxes_def all_given_def)

definition owned_by :: "(handle \<times> addr list \<times> nat list) list \<Rightarrow> objects \<Rightarrow> bool" where
  "owned_by os m \<longleftrightarrow>
     (\<forall>e\<in>set os. handle_at (boxes m) (fst e) (fst (snd e)) (snd (snd e))) \<and>
     distinct (all_boxes os) \<and> set (all_boxes os) = dom (boxes m) \<and>
     (\<forall>a\<in>dom (boxes m). 0 < a \<and> a < next_addr m)"

definition objects_inv :: "nat list \<Rightarrow> handle list \<Rightarrow> objects \<Rightarrow> bool" where
  "objects_inv xs hs m \<longleftrightarrow>
     (\<exists>os. mset (map fst os) = mset hs \<and> owned_by os m \<and> 0 < next_addr m \<and>
       mset xs = mset (cleared m) + mset (all_given os))"

lemma mset_concat_map: "mset (concat (map f os)) = (\<Sum>e\<in>#mset os. mset (f e))"
  by (induction os) simp_all

text \<open>The pointers may be listed in any order.\<close>

lemma owned_by_mset: "mset os = mset os' \<Longrightarrow> owned_by os m \<Longrightarrow> owned_by os' m"
proof -
  assume eq: "mset os = mset os'"
  have boxes: "mset (all_boxes os) = mset (all_boxes os')"
    using eq by (simp only: all_boxes_def mset_concat_map)
  then have "distinct (all_boxes os) = distinct (all_boxes os')" by (rule mset_eq_imp_distinct_iff)
  moreover have "set (all_boxes os) = set (all_boxes os')" using boxes by (rule mset_eq_setD)
  moreover have "set os = set os'" using eq by (rule mset_eq_setD)
  ultimately show "owned_by os m \<Longrightarrow> owned_by os' m" by (simp add: owned_by_def)
qed

text \<open>What a pointer of the client owns, with the rest.\<close>

lemma objects_inv_pick:
  assumes "objects_inv ys hs m" and "t \<in> set hs"
  obtains as xs os where "mset (map fst os) = mset (remove1 t hs)" and "owned_by ((t, as, xs) # os) m"
    and "mset ys = mset (cleared m) + mset xs + mset (all_given os)"
    and "handle_at (boxes m) t as xs" and "distinct as"
proof -
  from assms(1) obtain os where os: "mset (map fst os) = mset hs" "owned_by os m"
    "mset ys = mset (cleared m) + mset (all_given os)" by (auto simp: objects_inv_def)
  have "t \<in> set (map fst os)" using assms(2) mset_eq_setD [OF os(1)] by simp
  then obtain as xs where e: "(t, as, xs) \<in> set os" by auto
  let ?os = "remove1 (t, as, xs) os"
  have eq: "mset os = mset ((t, as, xs) # ?os)" using e by simp
  have "owned_by ((t, as, xs) # ?os) m" using os(2) by (rule owned_by_mset [OF eq])
  moreover have "add_mset t (mset (map fst ?os)) = mset hs"
    using arg_cong [OF eq, of "image_mset fst"] os(1) by simp
  then have "mset (map fst ?os) = mset (remove1 t hs)" by (metis add_mset_remove_trivial mset_remove1)
  moreover have "mset (all_given os) = mset xs + mset (all_given ?os)"
    unfolding all_given_def mset_concat_map eq by simp
  ultimately show thesis using os(3) by (intro that [of ?os as xs]) (auto simp: owned_by_def)
qed

text \<open>New boxes: nothing else changes, and their addresses are new.\<close>

definition adds :: "addr list \<Rightarrow> objects \<Rightarrow> objects \<Rightarrow> bool" where
  "adds new m m' \<longleftrightarrow>
     distinct new \<and> set new \<subseteq> {next_addr m ..< next_addr m'} \<and> next_addr m \<le> next_addr m' \<and>
     dom (boxes m') = dom (boxes m) \<union> set new \<and> (\<forall>x. x \<notin> set new \<longrightarrow> boxes m' x = boxes m x) \<and>
     cleared m' = cleared m"

lemma adds_frame:
  assumes "owned_by os m" and "adds new m m'" and "0 < next_addr m"
  shows "\<forall>e\<in>set os. handle_at (boxes m') (fst e) (fst (snd e)) (snd (snd e))" and "set new \<inter> dom (boxes m) = {}"
    and "\<forall>a\<in>dom (boxes m'). 0 < a \<and> a < next_addr m'"
proof -
  show new: "set new \<inter> dom (boxes m) = {}"
  proof (rule ccontr)
    assume "set new \<inter> dom (boxes m) \<noteq> {}"
    then obtain a where "a \<in> set new" "a \<in> dom (boxes m)" by blast
    then have "a \<in> {next_addr m ..< next_addr m'}" "a < next_addr m"
      using assms(1,2) by (auto simp: owned_by_def adds_def)
    then show False by simp
  qed
  show "\<forall>e\<in>set os. handle_at (boxes m') (fst e) (fst (snd e)) (snd (snd e))"
  proof
    fix e assume "e \<in> set os"
    with assms(1) have h: "handle_at (boxes m) (fst e) (fst (snd e)) (snd (snd e))" by (simp add: owned_by_def)
    have "boxes m' x = boxes m x" if "x \<in> set (fst (snd e))" for x
      using handle_at_dom [OF h] that new assms(2) by (auto simp: adds_def)
    then show "handle_at (boxes m') (fst e) (fst (snd e)) (snd (snd e))" by (rule handle_at_frame [OF h])
  qed
  show "\<forall>a\<in>dom (boxes m'). 0 < a \<and> a < next_addr m'"
  proof
    fix a assume "a \<in> dom (boxes m')"
    then consider "a \<in> dom (boxes m)" | "a \<in> set new" using assms(2) by (auto simp: adds_def)
    then show "0 < a \<and> a < next_addr m'"
    proof cases
      case 1
      then have "0 < a" "a < next_addr m" using assms(1) by (auto simp: owned_by_def)
      with assms(2) show ?thesis by (simp add: adds_def)
    next
      case 2
      then have "a \<in> {next_addr m ..< next_addr m'}" using assms(2) by (auto simp: adds_def)
      with assms(3) show ?thesis by simp
    qed
  qed
qed

lemma inv_add:
  assumes "objects_inv ys hs m" and "adds as m m'" and "handle_at (boxes m') t as xs"
  shows "objects_inv (ys @ xs) (t # hs) m'"
proof -
  from assms(1) obtain os where os: "mset (map fst os) = mset hs" "owned_by os m" "0 < next_addr m"
    "mset ys = mset (cleared m) + mset (all_given os)" by (auto simp: objects_inv_def)
  note frame = adds_frame [OF os(2) assms(2) os(3)]
  have "owned_by ((t, as, xs) # os) m'"
    using os(2) assms(2,3) frame by (auto simp: owned_by_def adds_def)
  moreover have "0 < next_addr m'" "cleared m' = cleared m" using os(3) assms(2) by (simp_all add: adds_def)
  ultimately show ?thesis
    using os by (auto simp: objects_inv_def intro!: exI [of _ "(t, as, xs) # os"])
qed

text \<open>A call that takes a pointer over and puts new boxes on top of what was below it.\<close>

lemma inv_grow:
  assumes "objects_inv ys hs m" and "t \<in> set hs"
    and "\<And>as xs. handle_at (boxes m) t as xs \<Longrightarrow> set as \<subseteq> dom (boxes m) - set new \<Longrightarrow> handle_at (boxes m') t' (new @ as) xs"
    and "adds new m m'"
  shows "objects_inv ys (t' # remove1 t hs) m'"
proof -
  obtain as xs os where os: "mset (map fst os) = mset (remove1 t hs)" "owned_by ((t, as, xs) # os) m"
    "mset ys = mset (cleared m) + mset xs + mset (all_given os)"
    "handle_at (boxes m) t as xs" "distinct as" by (rule objects_inv_pick [OF assms(1,2)])
  from assms(1) have pos: "0 < next_addr m" by (auto simp: objects_inv_def)
  note frame = adds_frame [OF os(2) assms(4) pos]
  have "handle_at (boxes m') t' (new @ as) xs"
    using frame(2) handle_at_dom [OF os(4)] by (intro assms(3) os(4)) blast
  then have "owned_by ((t', new @ as, xs) # os) m'"
    using os(2) assms(4) frame by (auto simp: owned_by_def adds_def)
  moreover have "0 < next_addr m'" "cleared m' = cleared m" using pos assms(4) by (simp_all add: adds_def)
  ultimately show ?thesis
    using os(1,3) by (auto simp: objects_inv_def intro!: exI [of _ "(t', new @ as, xs) # os"])
qed

lemma inv_free:
  assumes "objects_inv ys hs m" and "t \<in> set hs"
  shows "\<exists>m'. destroy t m = Some m' \<and> objects_inv ys (remove1 t hs) m'"
proof -
  obtain as xs os where os: "mset (map fst os) = mset (remove1 t hs)" "owned_by ((t, as, xs) # os) m"
    "mset ys = mset (cleared m) + mset xs + mset (all_given os)"
    "handle_at (boxes m) t as xs" "distinct as" by (rule objects_inv_pick [OF assms])
  let ?m = "frees as xs m"
  have "owned_by os ?m"
  proof -
    have "handle_at (boxes ?m) (fst e) (fst (snd e)) (snd (snd e))" if "e \<in> set os" for e
    proof -
      have h: "handle_at (boxes m) (fst e) (fst (snd e)) (snd (snd e))" using os(2) that by (simp add: owned_by_def)
      have "set (fst (snd e)) \<subseteq> set (all_boxes os)" using that by (auto simp: all_boxes_def)
      moreover have "set as \<inter> set (all_boxes os) = {}" using os(2) by (simp add: owned_by_def)
      ultimately have "boxes ?m x = boxes m x" if "x \<in> set (fst (snd e))" for x
        using that by (auto simp: restrict_map_def)
      then show ?thesis by (rule handle_at_frame [OF h])
    qed
    then show ?thesis using os(2) by (auto simp: owned_by_def)
  qed
  moreover have "0 < next_addr ?m" using assms(1) by (auto simp: objects_inv_def)
  ultimately have "objects_inv ys (remove1 t hs) ?m" using os(1,3) by (auto simp: objects_inv_def)
  with destroy_frees [OF os(4,5)] show ?thesis by blast
qed

section \<open>Every call keeps it\<close>

lemmas object_defs = http_new_reader_def http_new_empty_data_reader_def http_new_empty_reader_def
  http_new_writer_def http_new_empty_data_writer_def boxed_reader_def boxed_writer_def
  http_new_context_def response_object_def parse_objects_def start_objects_def box_new_def Let_def

lemma adds_box:
  "adds [next_addr m] m (m\<lparr>boxes := (boxes m)(next_addr m \<mapsto> c), next_addr := Suc (next_addr m)\<rparr>)"
  by (auto simp: adds_def)

lemma adds_trans:
  assumes "adds new m m1" and "adds new1 m1 m2"
  shows "adds (new1 @ new) m m2"
proof -
  have "set new \<subseteq> {next_addr m ..< next_addr m1}" "set new1 \<subseteq> {next_addr m1 ..< next_addr m2}"
    "next_addr m \<le> next_addr m1" "next_addr m1 \<le> next_addr m2"
    using assms by (simp_all add: adds_def)
  then have "set new1 \<inter> set new = {}" "set (new1 @ new) \<subseteq> {next_addr m ..< next_addr m2}"
    "next_addr m \<le> next_addr m2" by fastforce+
  with assms show ?thesis by (auto simp: adds_def)
qed

text \<open>The calls that make an object of their own.\<close>

lemma new_object_inv:
  assumes "objects_inv ys hs m" and "handle_at ((boxes m)(next_addr m \<mapsto> c)) (t (next_addr m)) [next_addr m] xs"
    and "box_new c m = (a, m')"
  shows "objects_inv (ys @ xs) (t a # hs) m'"
proof -
  from assms(3) have "a = next_addr m" and m': "m' = m\<lparr>boxes := (boxes m)(next_addr m \<mapsto> c), next_addr := Suc (next_addr m)\<rparr>"
    by (auto simp: box_new_def)
  with inv_add [OF assms(1) adds_box [of m c], of "t a" xs] assms(2) show ?thesis by simp
qed

lemma new_reader_inv:
  assumes "objects_inv ys hs m" and "c = Null_Clear \<and> xs = [] \<or> (\<exists>x. c = Clear_Foreign \<and> d = Foreign x \<and> xs = [x])"
    and "http_new_reader d f c m = (a, m')"
  shows "objects_inv (ys @ xs) (Reader_H a # hs) m'"
  by (rule new_object_inv [where t = Reader_H, OF assms(1) _ assms(3) [unfolded http_new_reader_def]])
    (use assms(2) in \<open>auto intro!: handle_at.reader intro: reader_at.intros\<close>)

lemma new_writer_inv:
  assumes "objects_inv ys hs m" and "c = Null_Clear \<and> xs = [] \<or> (\<exists>x. c = Clear_Foreign \<and> d = Foreign x \<and> xs = [x])"
    and "http_new_writer d f c m = (a, m')"
  shows "objects_inv (ys @ xs) (Writer_H a # hs) m'"
  by (rule new_object_inv [where t = Writer_H, OF assms(1) _ assms(3) [unfolded http_new_writer_def]])
    (use assms(2) in \<open>auto intro!: handle_at.writer intro: writer_at.intros\<close>)

lemma new_context_inv:
  assumes "objects_inv ys hs m" and "http_new_context m = (a, m')"
  shows "objects_inv ys (Context_H a # hs) m'"
proof -
  have "handle_at ((boxes m)(next_addr m \<mapsto> Context_Cell)) (Context_H (next_addr m)) [next_addr m] []"
    by (simp add: handle_at.context_)
  from new_object_inv [where t = Context_H, OF assms(1) this assms(2) [unfolded http_new_context_def]] show ?thesis by simp
qed

lemma boxed_inv:
  assumes "objects_inv ys hs m"
  shows "\<exists>a m'. boxed_reader Plain m = (a, m') \<and> objects_inv ys (Reader_H a # hs) m'"
    and "\<exists>a m'. boxed_writer m = (a, m') \<and> objects_inv ys (Writer_H a # hs) m'"
proof -
  let ?m1 = "\<lambda>d. m\<lparr>boxes := (boxes m)(next_addr m \<mapsto> Data_Cell d), next_addr := Suc (next_addr m)\<rparr>"
  let ?m2 = "\<lambda>c. (?m1 Plain)\<lparr>boxes := (boxes (?m1 Plain))(Suc (next_addr m) \<mapsto> c), next_addr := Suc (Suc (next_addr m))\<rparr>"
  have adds: "adds [Suc (next_addr m), next_addr m] m (?m2 c)" for c
    using adds_trans [OF adds_box adds_box, of m "Data_Cell Plain" c] by simp
  let ?r = "?m2 (Reader_Cell (Boxed (next_addr m)) Box_Fn Clear_Box)"
  have "handle_at (boxes ?r) (Reader_H (Suc (next_addr m))) [Suc (next_addr m), next_addr m] []"
    by (intro handle_at.reader reader_at.boxed [where f = Box_Fn]) simp_all
  from inv_add [OF assms adds this]
  show "\<exists>a m'. boxed_reader Plain m = (a, m') \<and> objects_inv ys (Reader_H a # hs) m'" by (simp add: object_defs)
  let ?w = "?m2 (Writer_Cell (Boxed (next_addr m)) Box_Fn Clear_Box)"
  have "handle_at (boxes ?w) (Writer_H (Suc (next_addr m))) [Suc (next_addr m), next_addr m] []"
    by (intro handle_at.writer writer_at.boxed [where f = Box_Fn]) simp_all
  from inv_add [OF assms adds this]
  show "\<exists>a m'. boxed_writer m = (a, m') \<and> objects_inv ys (Writer_H a # hs) m'" by (simp add: object_defs)
qed

lemma inv_live: "objects_inv ys hs m \<Longrightarrow> t \<in> set hs \<Longrightarrow> t = Reader_H a \<or> t = Writer_H a \<Longrightarrow> 0 < a"
proof -
  assume inv: "objects_inv ys hs m" "t \<in> set hs" and t: "t = Reader_H a \<or> t = Writer_H a"
  obtain as xs os where o: "owned_by ((t, as, xs) # os) m" "handle_at (boxes m) t as xs"
    by (rule objects_inv_pick [OF inv])
  from o(2) t have "a \<in> set as" by (auto elim!: handle_atE dest: reader_at_dom writer_at_dom)
  with handle_at_dom [OF o(2)] have "a \<in> dom (boxes m)" by blast
  moreover have "\<forall>a\<in>dom (boxes m). 0 < a \<and> a < next_addr m" using o(1) by (simp add: owned_by_def)
  ultimately show "0 < a" by blast
qed

lemma parse_inv:
  assumes "objects_inv ys hs m" and "Reader_H a \<in> set hs" and "x \<noteq> Panic"
  shows "\<exists>req m'. parse_objects x a m = Some (req, m') \<and> objects_inv ys (held Request_H req @ remove1 (Reader_H a) hs) m'"
proof (cases x)
  case (Err e)
  from inv_free [OF assms(1,2)] obtain m' where "http_destroy_reader a m = Some m'"
    "objects_inv ys (remove1 (Reader_H a) hs) m'" by auto
  with Err inv_live [OF assms(1,2)] show ?thesis by (simp add: parse_objects_def)
next
  case (Ok v)
  let ?b = "next_addr m"
  let ?m1 = "m\<lparr>boxes := (boxes m)(?b \<mapsto> Data_Cell (Raii_Reader a)), next_addr := Suc ?b\<rparr>"
  let ?m2 = "?m1\<lparr>boxes := (boxes ?m1)(Suc ?b \<mapsto> Reader_Cell (Boxed ?b) Box_Fn Clear_Box), next_addr := Suc (Suc ?b)\<rparr>"
  let ?m3 = "?m2\<lparr>boxes := (boxes ?m2)(Suc (Suc ?b) \<mapsto> Request_Cell (Suc ?b)), next_addr := Suc (Suc (Suc ?b))\<rparr>"
  let ?new = "[Suc (Suc ?b), Suc ?b, ?b]"
  have adds: "adds ?new m ?m3"
    using adds_trans [OF adds_trans [OF adds_box adds_box] adds_box, of m "Data_Cell (Raii_Reader a)"
        "Reader_Cell (Boxed ?b) Box_Fn Clear_Box" "Request_Cell (Suc ?b)"] by simp
  have "objects_inv ys (Request_H (Suc (Suc ?b)) # remove1 (Reader_H a) hs) ?m3"
  proof (rule inv_grow [OF assms(1,2) _ adds])
    fix as xs assume h: "handle_at (boxes m) (Reader_H a) as xs" and new: "set as \<subseteq> dom (boxes m) - set ?new"
    from h have "reader_at (boxes m) a as xs" by (auto elim: handle_atE)
    then have r: "reader_at (boxes ?m3) a as xs" by (rule reader_at_frame) (use new in auto)
    have "reader_at (boxes ?m3) (Suc ?b) (Suc ?b # ?b # as) xs"
      by (rule reader_at.nested [OF _ _ r, where f = Box_Fn]) simp_all
    then have "handle_at (boxes ?m3) (Request_H (Suc (Suc ?b))) (Suc (Suc ?b) # Suc ?b # ?b # as) xs"
      by (intro handle_at.request) simp_all
    then show "handle_at (boxes ?m3) (Request_H (Suc (Suc ?b))) (?new @ as) xs" by simp
  qed
  with Ok inv_live [OF assms(1,2)] show ?thesis by (simp add: object_defs)
qed (use assms(3) in simp)

lemma response_inv:
  assumes "objects_inv ys hs m" and "Writer_H a \<in> set hs"
  shows "\<exists>b m'. response_object a m = Some (b, m') \<and> objects_inv ys (Response_H b # remove1 (Writer_H a) hs) m'"
proof -
  let ?b = "next_addr m"
  let ?m1 = "m\<lparr>boxes := (boxes m)(?b \<mapsto> Response_Cell a), next_addr := Suc ?b\<rparr>"
  have "objects_inv ys (Response_H ?b # remove1 (Writer_H a) hs) ?m1"
  proof (rule inv_grow [OF assms _ adds_box])
    fix as xs assume h: "handle_at (boxes m) (Writer_H a) as xs" and new: "set as \<subseteq> dom (boxes m) - set [?b]"
    from h have "writer_at (boxes m) a as xs" by (auto elim: handle_atE)
    then have "writer_at (boxes ?m1) a as xs" by (rule writer_at_frame) (use new in auto)
    then have "handle_at (boxes ?m1) (Response_H ?b) (?b # as) xs" by (intro handle_at.response) simp_all
    then show "handle_at (boxes ?m1) (Response_H ?b) ([?b] @ as) xs" by simp
  qed
  with inv_live [OF assms] show ?thesis by (simp add: object_defs)
qed

lemma call_step_inv:
  assumes "objects_inv ys hs m" and "allowed hs c"
  shows "\<exists>hs' m'. call_step c (hs, m) = Some (hs', m') \<and> objects_inv (ys @ given c) hs' m'"
proof (cases c)
  case (New_Reader x f)
  with new_reader_inv [OF assms(1), of Clear_Foreign "[x]"] show ?thesis
    by (simp split: prod.split)
next
  case New_Empty_Reader
  with new_reader_inv [OF assms(1), of Null_Clear "[]"] show ?thesis
    by (simp add: http_new_empty_reader_def split: prod.split)
next
  case (New_Empty_Data_Reader f)
  with new_reader_inv [OF assms(1), of Null_Clear "[]"] show ?thesis
    by (simp add: http_new_empty_data_reader_def split: prod.split)
next
  case (New_Writer x f)
  with new_writer_inv [OF assms(1), of Clear_Foreign "[x]"] show ?thesis
    by (simp split: prod.split)
next
  case (New_Empty_Data_Writer f)
  with new_writer_inv [OF assms(1), of Null_Clear "[]"] show ?thesis
    by (simp add: http_new_empty_data_writer_def split: prod.split)
next
  case New_Boxed_Reader
  with boxed_inv(1) [OF assms(1)] show ?thesis by auto
next
  case New_Boxed_Writer
  with boxed_inv(2) [OF assms(1)] show ?thesis by auto
next
  case (Parse_Request a good)
  with parse_inv [OF assms(1), of a "outcome good"] assms(2) show ?thesis
    by (auto simp: outcome_def split: if_splits)
next
  case (Response_Writer a)
  with response_inv [OF assms(1), of a] assms(2) show ?thesis by auto
next
  case New_Context
  with new_context_inv [OF assms(1)] show ?thesis
    by (simp split: prod.split)
next
  case (Start_Connection good)
  with new_context_inv [OF assms(1)] assms(1) show ?thesis
    by (simp add: start_objects_def outcome_def split: prod.split)
next
  case (Destroy t)
  with inv_free [OF assms(1), of t] assms(2) show ?thesis by auto
qed

lemma run_inv: "client_run cs hs m \<Longrightarrow> objects_inv (concat (map given cs)) hs m"
proof (induction rule: client_run.induct)
  case start
  show ?case by (simp add: objects_inv_def owned_by_def objects_new_def)
next
  case (call cs hs m c hs' m')
  from call_step_inv [OF call.IH call.hyps(2)] call.hyps(3) show ?case by auto
qed

text \<open>Freeing everything, in the order of the list, and then nothing is left.\<close>

lemma destroy_all_inv:
  "objects_inv ys hs m \<Longrightarrow> \<exists>m'. destroy_all hs m = Some m' \<and> objects_inv ys [] m'"
proof (induction hs arbitrary: m)
  case (Cons t hs)
  from inv_free [OF Cons.prems, of t] obtain m1 where "destroy t m = Some m1" "objects_inv ys hs m1" by auto
  with Cons.IH show ?case by auto
qed simp

lemma objects_inv_Nil: "objects_inv ys [] m \<longleftrightarrow> boxes m = Map.empty \<and> 0 < next_addr m \<and> mset ys = mset (cleared m)"
  by (auto simp: objects_inv_def owned_by_def)

end
