(* ===== verification/Tls.thy ===== *)
theory Tls
  imports Std_Text "HOL-Library.Multiset"
begin

text \<open>
  The server's side of the repository: TLS streams over OpenSSL (\<open>src/tls/stream.rs\<close>,
  \<open>src/tls/listener.rs\<close>, \<open>src/tls/mod.rs\<close>), the plugin (\<open>src/plugin.rs\<close>) and the loop that serves connections
  (\<open>src/main.rs\<close>).

  OpenSSL, the sockets, \<open>dlopen\<close> and the parser behind the C interface are not in the
  repository: what their calls return is an argument of the definitions, in the order in which
  the code makes the calls. What is modelled is what the code does with it: the errors, and the
  objects of OpenSSL, file descriptors and library handles that it acquires and releases, which
  every function returns as a list of effects.

  The lemmas account for them: what comes in or is acquired is released, or belongs to the
  result, or is lost (\<open>stream_new_accounts\<close>, \<open>split_accounts\<close>, \<open>serve_loop_accounts\<close>,
  \<open>serve_main_started\<close>).
\<close>

section \<open>Resources\<close>

text \<open>A reference to an \<open>SSL\<close> object, a file descriptor, a context, a loaded library.\<close>

datatype resource = Ssl nat | Fd nat | Ssl_Ctx nat | Library nat

datatype shut_how = Shut_Read | Shut_Write | Shut_Both

datatype effect =
    Acquire resource
  | Release resource
  | Shutdown nat shut_how

fun acquired :: "effect list \<Rightarrow> resource multiset" where
  "acquired [] = {#}"
| "acquired (Acquire r # es) = add_mset r (acquired es)"
| "acquired (e # es) = acquired es"

fun released :: "effect list \<Rightarrow> resource multiset" where
  "released [] = {#}"
| "released (Release r # es) = add_mset r (released es)"
| "released (e # es) = released es"

lemma acquired_append [simp]: "acquired (es @ fs) = acquired es + acquired fs"
  by (induction es rule: acquired.induct) simp_all

lemma released_append [simp]: "released (es @ fs) = released es + released fs"
  by (induction es rule: released.induct) simp_all

text \<open>An error is a code of OpenSSL; \<open>error_string\<close> is what \<open>ERR_error_string\<close> gives for it.\<close>

definition display_tls_error :: "(nat \<Rightarrow> bytes) \<Rightarrow> nat \<Rightarrow> bytes" where
  "display_tls_error error_string code = error_string code"

definition debug_tls_error :: "(nat \<Rightarrow> bytes) \<Rightarrow> nat \<Rightarrow> bytes" where
  "debug_tls_error error_string code =
     ascii ''OpenSSL Error ('' @ digits 10 code @ ascii ''): '' @ error_string code"

section \<open>Streams\<close>

text \<open>\<open>TlsStream\<close>, \<open>TlsReadStream\<close> and \<open>TlsWriteStream\<close> all have an \<open>SSL\<close> object and a descriptor.\<close>

record tls_stream =
  ts_ssl :: nat
  ts_stream :: nat

text \<open>
  \<open>TlsStream::new\<close>: \<open>SSL_new\<close>, \<open>SSL_set_fd\<close>, \<open>SSL_accept\<close>; an error is the code that
  \<open>ERR_get_error\<close> returns. The socket is closed when it is dropped, and kept by \<open>mem::forget\<close>.
\<close>

definition tls_stream_new ::
  "nat option \<Rightarrow> int \<Rightarrow> int \<Rightarrow> nat \<Rightarrow> nat \<Rightarrow> (nat + tls_stream) \<times> effect list" where
  "tls_stream_new ssl_new set_fd accept next_error stream =
     (case ssl_new of
        None \<Rightarrow> (Inl next_error, [Release (Fd stream)])
      | Some ssl \<Rightarrow>
          if set_fd = 0
          then (Inl next_error, [Acquire (Ssl ssl), Release (Ssl ssl), Release (Fd stream)])
          else if accept \<le> 0
          then (Inl next_error, [Acquire (Ssl ssl), Release (Fd stream)])
          else (Inr \<lparr>ts_ssl = ssl, ts_stream = stream\<rparr>, [Acquire (Ssl ssl)]))"

definition get_selected_alpn :: "bytes option \<Rightarrow> bytes" where
  "get_selected_alpn data = (case data of None \<Rightarrow> ascii ''No negotiated protocol'' | Some d \<Rightarrow> d)"

text \<open>The three \<open>Drop\<close> implementations.\<close>

definition drop_stream :: "tls_stream \<Rightarrow> effect list" where
  "drop_stream s = [Release (Ssl (ts_ssl s)), Shutdown (ts_stream s) Shut_Both, Release (Fd (ts_stream s))]"

definition drop_read_stream :: "tls_stream \<Rightarrow> effect list" where
  "drop_read_stream s = [Release (Ssl (ts_ssl s)), Shutdown (ts_stream s) Shut_Read, Release (Fd (ts_stream s))]"

definition drop_write_stream :: "tls_stream \<Rightarrow> effect list" where
  "drop_write_stream s = [Release (Ssl (ts_ssl s)), Shutdown (ts_stream s) Shut_Write, Release (Fd (ts_stream s))]"

text \<open>
  \<open>TlsStream::split\<close>: \<open>SSL_dup\<close>, the copy of the descriptor, \<open>SSL_set_fd\<close>. Before the first
  \<open>ManuallyDrop\<close> an error drops the stream; after it, it does not.
\<close>

definition tls_split ::
  "nat option \<Rightarrow> 'e + nat \<Rightarrow> int \<Rightarrow> (nat \<Rightarrow> 'e) \<Rightarrow> nat \<Rightarrow> tls_stream
    \<Rightarrow> ('e + tls_stream \<times> tls_stream) \<times> effect list" where
  "tls_split ssl_dup clone set_fd other next_error self =
     (case ssl_dup of
        None \<Rightarrow> (Inl (other next_error), drop_stream self)
      | Some write_ssl \<Rightarrow>
          (case clone of
             Inl e \<Rightarrow> (Inl e, [Acquire (Ssl write_ssl), Release (Ssl write_ssl)])
           | Inr write_fd \<Rightarrow>
               if set_fd = 0
               then (Inl (other next_error),
                     [Acquire (Ssl write_ssl), Acquire (Fd write_fd), Release (Ssl write_ssl)])
               else (Inr (\<lparr>ts_ssl = ts_ssl self, ts_stream = ts_stream self\<rparr>,
                         \<lparr>ts_ssl = write_ssl, ts_stream = write_fd\<rparr>),
                     [Acquire (Ssl write_ssl), Acquire (Fd write_fd)])))"

text \<open>
  \<open>Read\<close> and \<open>Write\<close> on the streams: what \<open>SSL_read_ex\<close> and \<open>SSL_write_ex\<close> do to the
  connection is the parameter; they return a success code and the count, which the code
  ignores on a failure.
\<close>

definition tls_read ::
  "('c \<Rightarrow> nat \<Rightarrow> int \<times> nat \<times> bytes \<times> 'c) \<Rightarrow> ('c \<Rightarrow> 'e) \<Rightarrow> 'c \<Rightarrow> nat \<Rightarrow> ('e, nat) rs \<times> bytes \<times> 'c" where
  "tls_read ssl_read_ex next_error c len =
     (case ssl_read_ex c len of
        (success, read_bytes, got, c') \<Rightarrow>
          if success = 0 then (Err (next_error c'), got, c') else (Ok read_bytes, got, c'))"

definition tls_write ::
  "('c \<Rightarrow> bytes \<Rightarrow> int \<times> nat \<times> 'c) \<Rightarrow> ('c \<Rightarrow> 'e) \<Rightarrow> 'c \<Rightarrow> bytes \<Rightarrow> ('e, nat) rs \<times> 'c" where
  "tls_write ssl_write_ex next_error c buf =
     (case ssl_write_ex c buf of
        (success, written_bytes, c') \<Rightarrow>
          if success = 0 then (Err (next_error c'), c') else (Ok written_bytes, c'))"

text \<open>The same code for the stream before it is split.\<close>

definition tls_stream_read ::
  "('c \<Rightarrow> nat \<Rightarrow> int \<times> nat \<times> bytes \<times> 'c) \<Rightarrow> ('c \<Rightarrow> 'e) \<Rightarrow> 'c \<Rightarrow> nat \<Rightarrow> ('e, nat) rs \<times> bytes \<times> 'c" where
  "tls_stream_read ssl_read_ex next_error c len =
     (case ssl_read_ex c len of
        (success, read_bytes, got, c') \<Rightarrow>
          if success = 0 then (Err (next_error c'), got, c') else (Ok read_bytes, got, c'))"

definition tls_stream_write ::
  "('c \<Rightarrow> bytes \<Rightarrow> int \<times> nat \<times> 'c) \<Rightarrow> ('c \<Rightarrow> 'e) \<Rightarrow> 'c \<Rightarrow> bytes \<Rightarrow> ('e, nat) rs \<times> 'c" where
  "tls_stream_write ssl_write_ex next_error c buf =
     (case ssl_write_ex c buf of
        (success, written_bytes, c') \<Rightarrow>
          if success = 0 then (Err (next_error c'), c') else (Ok written_bytes, c'))"

section \<open>The listener\<close>

definition PROTOS :: bytes where
  "PROTOS = 0x08 # ascii ''http/1.1''"

text \<open>
  The callback for the protocol: \<open>SSL_select_next_proto\<close> gets the two lists of protocols. The
  result is the callback's return value and the protocol, when it is set.
\<close>

definition NPN_NO_OVERLAP :: int where "NPN_NO_OVERLAP = 2"

definition select_alpn :: "(bytes \<Rightarrow> bytes \<Rightarrow> int \<times> bytes) \<Rightarrow> bytes \<Rightarrow> int \<times> bytes option" where
  "select_alpn ssl_select_next_proto client =
     (case ssl_select_next_proto PROTOS client of
        (ret, output) \<Rightarrow> if ret = NPN_NO_OVERLAP then (2, None) else (0, Some output))"

text \<open>\<open>SSLContext::new\<close> and its \<open>Drop\<close>; \<open>set_key_pair\<close> with what is said of a failure.\<close>

definition ssl_context_new :: "nat option \<Rightarrow> nat \<Rightarrow> (nat + nat) \<times> effect list" where
  "ssl_context_new ssl_ctx_new next_error =
     (case ssl_ctx_new of
        None \<Rightarrow> (Inl next_error, [])
      | Some ctx \<Rightarrow> (Inr ctx, [Acquire (Ssl_Ctx ctx)]))"

definition ssl_context_drop :: "nat \<Rightarrow> effect list" where
  "ssl_context_drop ctx = [Release (Ssl_Ctx ctx)]"

definition set_key_pair :: "int \<Rightarrow> int \<Rightarrow> nat \<Rightarrow> bytes \<times> nat + unit" where
  "set_key_pair use_certificate use_private_key next_error =
     (if use_certificate \<le> 0 then Inl (ascii ''Failed to set certificate'', next_error)
      else if use_private_key \<le> 0 then Inl (ascii ''Failed to set key'', next_error)
      else Inr ())"

text \<open>\<open>TlsListener\<close>: the listening socket and the context; the socket is closed when the context
  cannot be made.\<close>

datatype listen_error = Bind_Failed | Context_Failed nat | Accept_Failed | Stream_Failed nat

definition tls_bind :: "nat option \<Rightarrow> nat option \<Rightarrow> nat \<Rightarrow> (listen_error + nat \<times> nat) \<times> effect list" where
  "tls_bind bind ssl_ctx_new next_error =
     (case bind of
        None \<Rightarrow> (Inl Bind_Failed, [])
      | Some l \<Rightarrow>
          (case ssl_context_new ssl_ctx_new next_error of
             (Inr ctx, es) \<Rightarrow> (Inr (l, ctx), Acquire (Fd l) # es)
           | (Inl e, es) \<Rightarrow> (Inl (Context_Failed e), Acquire (Fd l) # es @ [Release (Fd l)])))"

definition tls_accept ::
  "nat option \<Rightarrow> nat option \<Rightarrow> int \<Rightarrow> int \<Rightarrow> nat \<Rightarrow> (listen_error + tls_stream) \<times> effect list" where
  "tls_accept accept ssl_new set_fd ssl_accept next_error =
     (case accept of
        None \<Rightarrow> (Inl Accept_Failed, [])
      | Some stream \<Rightarrow>
          (case tls_stream_new ssl_new set_fd ssl_accept next_error stream of
             (Inr s, es) \<Rightarrow> (Inr s, Acquire (Fd stream) # es)
           | (Inl e, es) \<Rightarrow> (Inl (Stream_Failed e), Acquire (Fd stream) # es)))"

section \<open>The plugin\<close>

record plugin =
  pl_data :: nat
  pl_handle :: nat
  pl_handle_request :: nat
  pl_close :: nat

definition get_dlerror :: "bytes option \<Rightarrow> (bytes \<Rightarrow> bytes) \<Rightarrow> bytes \<Rightarrow> bytes" where
  "get_dlerror dlerror lossy message =
     (case dlerror of None \<Rightarrow> message | Some msg \<Rightarrow> message @ ascii '': '' @ lossy msg)"

text \<open>\<open>Plugin::load_plugin\<close>; a null pointer is zero. \<open>init\<close> is the function at an address.\<close>

definition load_plugin ::
  "nat \<Rightarrow> (bytes \<Rightarrow> nat) \<Rightarrow> bytes option \<Rightarrow> (bytes \<Rightarrow> bytes) \<Rightarrow> (nat \<Rightarrow> nat)
    \<Rightarrow> (bytes + plugin) \<times> effect list" where
  "load_plugin dlopen dlsym dlerror lossy init =
     (let fail = (\<lambda>message. Inl (get_dlerror dlerror lossy message)) in
      if dlopen = 0 then (fail (ascii ''Failed to load plugin''), [])
      else
        let es = [Acquire (Library dlopen)];
            req_fn = dlsym (ascii ''handle_request'') in
        if req_fn = 0 then (fail (ascii ''Failed to load request handler''), es)
        else
          let close_fn = dlsym (ascii ''close'') in
          if close_fn = 0 then (fail (ascii ''Failed to load close function''), es)
          else
            let init_fn = dlsym (ascii ''init'') in
            if init_fn = 0 then (fail (ascii ''Failed to load initialize function''), es)
            else
              (Inr \<lparr>pl_data = init init_fn, pl_handle = dlopen, pl_handle_request = req_fn, pl_close = close_fn\<rparr>, es))"

text \<open>\<open>Drop for Plugin\<close>: the close function runs on the data, then the library is closed.\<close>

definition drop_plugin :: "plugin \<Rightarrow> (nat \<times> nat) \<times> effect list" where
  "drop_plugin p = ((pl_close p, pl_data p), [Release (Library (pl_handle p))])"

section \<open>Serving connections\<close>

text \<open>
  What the calls return on one connection, in the order of the code: the socket, the three calls
  of the handshake, the protocol, the three calls that split the stream, and the request or the
  message of the parser.
\<close>

record ('e, 'q) connection =
  cn_socket :: "nat option"
  cn_ssl_new :: "nat option"
  cn_set_fd :: int
  cn_ssl_accept :: int
  cn_alpn :: "bytes option"
  cn_ssl_dup :: "nat option"
  cn_clone :: "'e + nat"
  cn_set_fd_write :: int
  cn_next_error :: nat
  cn_request :: "bytes + 'q"

datatype 'e served = Served | No_Connection listen_error | No_Split 'e | Unsupported bytes | Aborted

text \<open>
  The body of the loop. Both halves of the stream are dropped at its end: by the request and the
  response writer when \<open>handle_request\<close> returns, by the loop for another protocol. A request
  that cannot be parsed is an \<open>expect\<close> that fails: the parser has destroyed its reader by then,
  and the writer is dropped by unwinding.
\<close>

definition serve_connection ::
  "(bytes \<Rightarrow> bytes) \<Rightarrow> (nat \<Rightarrow> 'e) \<Rightarrow> ('e, 'q) connection \<Rightarrow> 'e served \<times> effect list" where
  "serve_connection lossy other c =
     (case tls_accept (cn_socket c) (cn_ssl_new c) (cn_set_fd c) (cn_ssl_accept c) (cn_next_error c) of
        (Inl e, es) \<Rightarrow> (No_Connection e, es)
      | (Inr stream, es) \<Rightarrow>
          let alpn = get_selected_alpn (cn_alpn c) in
          (case tls_split (cn_ssl_dup c) (cn_clone c) (cn_set_fd_write c) other (cn_next_error c) stream of
             (Inl e, fs) \<Rightarrow> (No_Split e, es @ fs)
           | (Inr (read, write), fs) \<Rightarrow>
               if lossy alpn = ascii ''http/1.1''
               then (case cn_request c of
                       Inl e \<Rightarrow> (Aborted, es @ fs @ drop_read_stream read @ drop_write_stream write)
                     | Inr req \<Rightarrow> (Served, es @ fs @ drop_write_stream write @ drop_read_stream read))
               else (Unsupported (lossy alpn), es @ fs @ drop_write_stream write @ drop_read_stream read)))"

fun serve_loop ::
  "(bytes \<Rightarrow> bytes) \<Rightarrow> (nat \<Rightarrow> 'e) \<Rightarrow> ('e, 'q) connection list \<Rightarrow> 'e served list \<times> effect list" where
  "serve_loop lossy other [] = ([], [])"
| "serve_loop lossy other (c # cs) =
     (case serve_connection lossy other c of
        (Aborted, es) \<Rightarrow> ([Aborted], es)
      | (r, es) \<Rightarrow> (case serve_loop lossy other cs of (rs, fs) \<Rightarrow> (r # rs, es @ fs)))"

text \<open>
  \<open>main\<close>, on the connections that come in while it runs: the message of the step before the loop
  that fails, or the rounds of the loop. An \<open>expect\<close> that fails unwinds \<open>main\<close>, which drops the
  plugin and the listener, its socket first.
\<close>

definition drop_listener :: "nat \<times> nat \<Rightarrow> effect list" where
  "drop_listener l = Release (Fd (fst l)) # ssl_context_drop (snd l)"

definition serve_main ::
  "nat option \<Rightarrow> nat option \<Rightarrow> int \<Rightarrow> int \<Rightarrow> nat \<Rightarrow> nat \<Rightarrow> (bytes \<Rightarrow> nat) \<Rightarrow> bytes option
    \<Rightarrow> (bytes \<Rightarrow> bytes) \<Rightarrow> (nat \<Rightarrow> nat) \<Rightarrow> (nat \<Rightarrow> 'e) \<Rightarrow> ('e, 'q) connection list
    \<Rightarrow> (bytes + 'e served list) \<times> effect list" where
  "serve_main bind ssl_ctx_new use_certificate use_private_key next_error dlopen dlsym dlerror lossy init other conns =
     (case tls_bind bind ssl_ctx_new next_error of
        (Inl e, es) \<Rightarrow> (Inl (ascii ''Failed to set up TLS listener''), es)
      | (Inr listener, es) \<Rightarrow>
          (case set_key_pair use_certificate use_private_key next_error of
             Inl e \<Rightarrow> (Inl (ascii ''Failed to set up key pair''), es @ drop_listener listener)
           | Inr u \<Rightarrow>
               (case load_plugin dlopen dlsym dlerror lossy init of
                  (Inl e, fs) \<Rightarrow> (Inl (ascii ''Failed to load test plugin''), es @ fs @ drop_listener listener)
                | (Inr plugin, fs) \<Rightarrow>
                    (case serve_loop lossy other conns of
                       (served, gs) \<Rightarrow>
                         (Inr served, es @ fs @ gs @
                            (if Aborted \<in> set served then snd (drop_plugin plugin) @ drop_listener listener
                             else []))))))"

section \<open>What is lost\<close>

text \<open>The descriptors and \<open>SSL\<close> objects that nobody releases: after a failed handshake, and when
  the copy of the descriptor or its use fails.\<close>

definition handshake_lost :: "nat option \<Rightarrow> int \<Rightarrow> int \<Rightarrow> resource multiset" where
  "handshake_lost ssl_new set_fd accept =
     (case ssl_new of None \<Rightarrow> {#} | Some ssl \<Rightarrow> if set_fd \<noteq> 0 \<and> accept \<le> 0 then {#Ssl ssl#} else {#})"

definition owned :: "tls_stream \<Rightarrow> resource multiset" where
  "owned s = {#Ssl (ts_ssl s), Fd (ts_stream s)#}"

definition split_lost :: "nat option \<Rightarrow> 'e + nat \<Rightarrow> int \<Rightarrow> tls_stream \<Rightarrow> resource multiset" where
  "split_lost ssl_dup clone set_fd s =
     (case ssl_dup of
        None \<Rightarrow> {#}
      | Some d \<Rightarrow>
          (case clone of
             Inl e \<Rightarrow> owned s
           | Inr fd \<Rightarrow> if set_fd = 0 then owned s + {#Fd fd#} else {#}))"

lemma stream_new_accounts:
  assumes "tls_stream_new ssl_new set_fd accept next_error fd = (x, es)"
  shows "add_mset (Fd fd) (acquired es) =
    released es + (case x of Inl e \<Rightarrow> handshake_lost ssl_new set_fd accept | Inr s \<Rightarrow> owned s)"
  using assms by (auto simp: tls_stream_new_def handshake_lost_def owned_def split: option.splits if_splits)

lemma split_accounts:
  assumes "tls_split ssl_dup clone set_fd other next_error s = (x, es)"
  shows "owned s + acquired es =
    released es + (case x of Inl e \<Rightarrow> split_lost ssl_dup clone set_fd s | Inr (r, w) \<Rightarrow> owned r + owned w)"
  using assms
  by (auto simp: tls_split_def split_lost_def owned_def drop_stream_def split: option.splits sum.splits if_splits)

lemma drop_accounts [simp]:
  "acquired (drop_stream s) = {#}" "released (drop_stream s) = owned s"
  "acquired (drop_read_stream s) = {#}" "released (drop_read_stream s) = owned s"
  "acquired (drop_write_stream s) = {#}" "released (drop_write_stream s) = owned s"
  by (simp_all add: drop_stream_def drop_read_stream_def drop_write_stream_def owned_def)

definition connection_lost :: "('e, 'q) connection \<Rightarrow> resource multiset" where
  "connection_lost c =
     (case (cn_socket c, cn_ssl_new c) of
        (Some fd, Some ssl) \<Rightarrow>
          if cn_set_fd c = 0 then {#}
          else if cn_ssl_accept c \<le> 0 then {#Ssl ssl#}
          else split_lost (cn_ssl_dup c) (cn_clone c) (cn_set_fd_write c) \<lparr>ts_ssl = ssl, ts_stream = fd\<rparr>
      | _ \<Rightarrow> {#})"

text \<open>A connection whose handshake and split succeed, for HTTP/1.1.\<close>

definition connected :: "('e, 'q) connection \<Rightarrow> bool" where
  "connected c \<longleftrightarrow>
     cn_socket c \<noteq> None \<and> cn_ssl_new c \<noteq> None \<and> cn_set_fd c \<noteq> 0 \<and> 0 < cn_ssl_accept c \<and>
     cn_ssl_dup c \<noteq> None \<and> \<not> isl (cn_clone c) \<and> cn_set_fd_write c \<noteq> 0"

definition speaks_http11 :: "(bytes \<Rightarrow> bytes) \<Rightarrow> ('e, 'q) connection \<Rightarrow> bool" where
  "speaks_http11 lossy c \<longleftrightarrow> connected c \<and> lossy (get_selected_alpn (cn_alpn c)) = ascii ''http/1.1''"

definition stops :: "(bytes \<Rightarrow> bytes) \<Rightarrow> ('e, 'q) connection \<Rightarrow> bool" where
  "stops lossy c \<longleftrightarrow> speaks_http11 lossy c \<and> isl (cn_request c)"

lemma serve_connection_aborts: "fst (serve_connection lossy other c) = Aborted \<longleftrightarrow> stops lossy c"
  by (auto simp: serve_connection_def tls_accept_def tls_stream_new_def tls_split_def stops_def speaks_http11_def
      connected_def Let_def split: option.split sum.split)

lemma serve_connection_accounts:
  assumes "serve_connection lossy other c = (r, es)"
  shows "acquired es = released es + connection_lost c"
  using assms
  by (auto simp: serve_connection_def tls_accept_def tls_stream_new_def tls_split_def connection_lost_def
      split_lost_def owned_def Let_def split: option.splits sum.splits if_splits)

text \<open>The connections that the loop gets to: up to the first one that stops it.\<close>

fun reached :: "(bytes \<Rightarrow> bytes) \<Rightarrow> ('e, 'q) connection list \<Rightarrow> ('e, 'q) connection list" where
  "reached lossy [] = []"
| "reached lossy (c # cs) = c # (if stops lossy c then [] else reached lossy cs)"

lemma serve_loop_step:
  "serve_loop lossy other (c # cs) =
     (if stops lossy c then ([Aborted], snd (serve_connection lossy other c))
      else (fst (serve_connection lossy other c) # fst (serve_loop lossy other cs),
            snd (serve_connection lossy other c) @ snd (serve_loop lossy other cs)))"
  using serve_connection_aborts [of lossy other c]
  by (cases "serve_connection lossy other c"; cases "fst (serve_connection lossy other c)")
    (auto split: prod.split)

lemma serve_loop_rounds:
  "fst (serve_loop lossy other cs) = map (\<lambda>c. fst (serve_connection lossy other c)) (reached lossy cs)"
proof (induction cs)
  case (Cons c cs)
  with serve_connection_aborts [of lossy other c] show ?case
    by (auto simp: serve_loop_step simp del: serve_loop.simps(2))
qed simp

lemma serve_loop_aborts: "Aborted \<in> set (fst (serve_loop lossy other cs)) \<longleftrightarrow> (\<exists>c\<in>set cs. stops lossy c)"
proof -
  have "(\<exists>c\<in>set (reached lossy cs). stops lossy c) \<longleftrightarrow> (\<exists>c\<in>set cs. stops lossy c)"
    by (induction cs) simp_all
  then show ?thesis
    by (simp add: serve_loop_rounds image_iff eq_commute [of Aborted] serve_connection_aborts)
qed

lemma serve_loop_accounts:
  "acquired (snd (serve_loop lossy other cs)) =
   released (snd (serve_loop lossy other cs)) + (\<Sum>c\<leftarrow>reached lossy cs. connection_lost c)"
proof (induction cs)
  case (Cons c cs)
  have "acquired (snd (serve_connection lossy other c)) =
      released (snd (serve_connection lossy other c)) + connection_lost c"
    by (rule serve_connection_accounts [of lossy other c "fst (serve_connection lossy other c)"]) simp
  with Cons show ?case by (simp add: serve_loop_step del: serve_loop.simps(2))
qed simp

text \<open>The server starts exactly when it has a socket, a context with its key pair, and a plugin with its
  three functions. A library without one of them is not closed.\<close>

definition started :: "nat option \<Rightarrow> nat option \<Rightarrow> int \<Rightarrow> int \<Rightarrow> nat \<Rightarrow> (bytes \<Rightarrow> nat) \<Rightarrow> bool" where
  "started bind ssl_ctx_new use_certificate use_private_key dlopen dlsym \<longleftrightarrow>
     bind \<noteq> None \<and> ssl_ctx_new \<noteq> None \<and> 0 < use_certificate \<and> 0 < use_private_key \<and> dlopen \<noteq> 0 \<and>
     dlsym (ascii ''handle_request'') \<noteq> 0 \<and> dlsym (ascii ''close'') \<noteq> 0 \<and> dlsym (ascii ''init'') \<noteq> 0"

definition library_lost ::
  "nat option \<Rightarrow> nat option \<Rightarrow> int \<Rightarrow> int \<Rightarrow> nat \<Rightarrow> resource multiset" where
  "library_lost bind ssl_ctx_new use_certificate use_private_key dlopen =
     (if bind \<noteq> None \<and> ssl_ctx_new \<noteq> None \<and> 0 < use_certificate \<and> 0 < use_private_key \<and> dlopen \<noteq> 0
      then {#Library dlopen#} else {#})"

lemma serve_main_started:
  assumes "started bind ssl_ctx_new use_certificate use_private_key dlopen dlsym"
    and "serve_main bind ssl_ctx_new use_certificate use_private_key next_error dlopen dlsym dlerror lossy init other conns
      = (x, effects)"
  shows "x = Inr (fst (serve_loop lossy other conns))"
    and "acquired effects = released effects + (\<Sum>c\<leftarrow>reached lossy conns. connection_lost c) +
      (if \<exists>c\<in>set conns. stops lossy c then {#}
       else {#Fd (the bind), Ssl_Ctx (the ssl_ctx_new), Library dlopen#})"
  using assms serve_loop_accounts [of lossy other conns] serve_loop_aborts [of lossy other conns]
  by (auto simp: started_def serve_main_def tls_bind_def ssl_context_new_def set_key_pair_def load_plugin_def
      drop_plugin_def drop_listener_def ssl_context_drop_def Let_def split: prod.splits if_splits)

lemma serve_main_fails:
  assumes "\<not> started bind ssl_ctx_new use_certificate use_private_key dlopen dlsym"
    and "serve_main bind ssl_ctx_new use_certificate use_private_key next_error dlopen dlsym dlerror lossy init other conns
      = (x, effects)"
  shows "isl x" and "acquired effects =
    released effects + library_lost bind ssl_ctx_new use_certificate use_private_key dlopen"
  using assms
  by (auto simp: started_def library_lost_def serve_main_def tls_bind_def ssl_context_new_def set_key_pair_def
      load_plugin_def drop_listener_def ssl_context_drop_def Let_def split: option.splits if_splits)

end
