(* ===== verification/Bindings.thy ===== *)
theory Bindings
  imports Bio Status_Codes
begin

text \<open>
  The Rust side of the C interface, the crate \<open>http_rs/\<close>: the buffers it passes, its results,
  the readers and writers that it wraps for C and calls through C, the request and the
  response writer, and its status codes.

  The C functions that it calls have other signatures than those that the crate \<open>http/\<close>
  exports, so they are arguments here. What the code relies on is said by predicates:
  \<open>copies_out\<close> (called with a null pointer, a function that copies bytes out reports how many
  there are; called with room for them, it copies them) and \<open>res_api_ok\<close> (the result functions
  give back what a result was made of).

  The lemmas: a value that is fetched in the two calls is the value (\<open>fetch_copies\<close>); a result
  goes through C and comes back (\<open>into_from_io\<close>), and with it a reader or writer
  (\<open>rs_read_ok\<close>, \<open>rs_write_ok\<close>); the status codes are those of \<open>http/\<close> (\<open>status_code_phrase\<close>).
\<close>

section \<open>Buffers\<close>

text \<open>\<open>Buffer\<close> and \<open>ConstBuffer\<close>; the bytes that a pointer points to are its content.\<close>

record rs_buffer =
  rb_len :: nat
  rb_data :: "bytes option"

definition rs_buffer_from :: "bytes \<Rightarrow> rs_buffer" where
  "rs_buffer_from buf = \<lparr>rb_len = length buf, rb_data = Some buf\<rparr>"

definition rs_buffer_empty :: rs_buffer where
  "rs_buffer_empty = \<lparr>rb_len = 0, rb_data = None\<rparr>"

definition rs_buffer_as_slice :: "rs_buffer \<Rightarrow> bytes option" where
  "rs_buffer_as_slice b = map_option (take (rb_len b)) (rb_data b)"

definition rs_const_buffer :: "bytes \<Rightarrow> rs_buffer" where
  "rs_const_buffer buf = \<lparr>rb_len = length buf, rb_data = Some buf\<rparr>"

text \<open>The two calls: one for the length, one with a vector of that length.\<close>

definition fetch :: "(rs_buffer \<Rightarrow> rs_buffer) \<Rightarrow> bytes" where
  "fetch get =
     (let b = get rs_buffer_empty;
          v = replicate (rb_len b) 0
      in (case rb_data (get (b\<lparr>rb_data := Some v\<rparr>)) of None \<Rightarrow> v | Some v' \<Rightarrow> v'))"

definition copies_out :: "(rs_buffer \<Rightarrow> rs_buffer) \<Rightarrow> bytes \<Rightarrow> bool" where
  "copies_out get xs \<longleftrightarrow>
     get rs_buffer_empty = \<lparr>rb_len = length xs, rb_data = None\<rparr> \<and>
     (\<forall>v. length v = length xs \<longrightarrow> get (rs_buffer_from v) = rs_buffer_from xs)"

lemma fetch_copies: "copies_out get xs \<Longrightarrow> fetch get = xs"
  by (simp add: copies_out_def fetch_def rs_buffer_from_def)

section \<open>Results\<close>

text \<open>The C functions on results, and the conversion of a message to a string.\<close>

record 'r res_api =
  http_res_new_ok :: "nat \<Rightarrow> 'r"
  http_res_new_err_buf :: "rs_buffer \<Rightarrow> 'r"
  http_res_is_ok :: "'r \<Rightarrow> bool"
  http_res_get_count :: "'r \<Rightarrow> nat"
  http_res_get_err :: "'r \<Rightarrow> rs_buffer \<Rightarrow> rs_buffer"

definition result_ok :: "'r res_api \<Rightarrow> nat \<Rightarrow> 'r" where
  "result_ok api cnt = http_res_new_ok api cnt"

definition result_err :: "'r res_api \<Rightarrow> bytes \<Rightarrow> 'r" where
  "result_err api str = http_res_new_err_buf api (rs_const_buffer str)"

text \<open>\<open>into_io_result\<close>; the result that is destroyed when it goes out of scope is the second part.\<close>

definition into_io_result :: "'r res_api \<Rightarrow> (bytes \<Rightarrow> bytes) \<Rightarrow> 'r \<Rightarrow> (io_error, nat) rs \<times> 'r list" where
  "into_io_result api lossy r =
     (if http_res_is_ok api r then (Ok (http_res_get_count api r), [r])
      else (Err (IoOther (lossy (fetch (http_res_get_err api r)))), [r]))"

text \<open>\<open>into_ffi\<close> puts a new result in place of its own, so that nothing is destroyed.\<close>

definition into_ffi :: "'r \<Rightarrow> 'r \<times> 'r list" where
  "into_ffi r = (r, [])"

definition from_io_result :: "'r res_api \<Rightarrow> (io_error, nat) rs \<Rightarrow> 'r option" where
  "from_io_result api res =
     (case res of
        Ok v \<Rightarrow> Some (result_ok api v)
      | Err e \<Rightarrow> Some (result_err api (display_io e))
      | Panic \<Rightarrow> None)"

definition res_api_ok :: "'r res_api \<Rightarrow> bool" where
  "res_api_ok api \<longleftrightarrow>
     (\<forall>n. http_res_is_ok api (http_res_new_ok api n) \<and> http_res_get_count api (http_res_new_ok api n) = n) \<and>
     (\<forall>msg. \<not> http_res_is_ok api (http_res_new_err_buf api (rs_const_buffer msg)) \<and>
            copies_out (http_res_get_err api (http_res_new_err_buf api (rs_const_buffer msg))) msg)"

lemma into_from_io:
  assumes "res_api_ok api" and "from_io_result api x = Some r"
  shows "into_io_result api lossy r =
    (case x of Ok n \<Rightarrow> Ok n | Err e \<Rightarrow> Err (IoOther (lossy (display_io e))) | Panic \<Rightarrow> Panic, [r])"
proof -
  have "fetch (http_res_get_err api (http_res_new_err_buf api (rs_const_buffer msg))) = msg" for msg
    using assms(1) by (intro fetch_copies) (simp add: res_api_ok_def)
  then show ?thesis
    using assms by (cases x) (auto simp: from_io_result_def into_io_result_def result_ok_def result_err_def res_api_ok_def)
qed

section \<open>Readers and writers\<close>

text \<open>
  The callbacks that are passed to C for a Rust reader or writer; they overwrite the caller's
  result. \<open>None\<close> is a panic.
\<close>

definition rs_read_cb :: "'r res_api \<Rightarrow> 'd reader_fn \<Rightarrow> 'd \<Rightarrow> nat \<Rightarrow> 'r \<Rightarrow> (bytes \<times> 'r \<times> 'd) option" where
  "rs_read_cb api rd arg len res =
     (case rd arg len of
        (x, got, arg') \<Rightarrow> map_option (\<lambda>r. (got, fst (into_ffi r), arg')) (from_io_result api x))"

definition rs_write_cb :: "'r res_api \<Rightarrow> 'd writer_fn \<Rightarrow> 'd \<Rightarrow> bytes \<Rightarrow> 'r \<Rightarrow> ('r \<times> 'd) option" where
  "rs_write_cb api wr arg data res =
     (case wr arg data of
        (x, arg') \<Rightarrow> map_option (\<lambda>r. (fst (into_ffi r), arg')) (from_io_result api x))"

text \<open>Reading and writing through C, where \<open>http_bio_read\<close> and \<open>http_bio_write\<close> run a callback.\<close>

definition rs_read ::
  "'r res_api \<Rightarrow> (bytes \<Rightarrow> bytes) \<Rightarrow> ('d \<Rightarrow> nat \<Rightarrow> 'r \<Rightarrow> (bytes \<times> 'r \<times> 'd) option) \<Rightarrow> 'd reader_fn" where
  "rs_read api lossy http_bio_read self len =
     (let r = fst (into_ffi (result_ok api 0)) in
      case http_bio_read self len r of
        None \<Rightarrow> (Panic, [], self)
      | Some (got, r', self') \<Rightarrow> (fst (into_io_result api lossy r'), got, self'))"

definition rs_write ::
  "'r res_api \<Rightarrow> (bytes \<Rightarrow> bytes) \<Rightarrow> ('d \<Rightarrow> bytes \<Rightarrow> 'r \<Rightarrow> ('r \<times> 'd) option) \<Rightarrow> 'd writer_fn" where
  "rs_write api lossy http_bio_write self buf =
     (let r = fst (into_ffi (result_ok api 0)) in
      case http_bio_write self buf r of
        None \<Rightarrow> (Panic, self)
      | Some (r', self') \<Rightarrow> (fst (into_io_result api lossy r'), self'))"

lemma rs_read_ok:
  assumes "res_api_ok api" and "rd r n = (Ok k, got, r')"
  shows "rs_read api lossy (rs_read_cb api rd) r n = (Ok k, got, r')"
proof -
  have "from_io_result api (Ok k) = Some (result_ok api k)" by (simp add: from_io_result_def)
  from into_from_io [OF assms(1) this, of lossy] assms(2) show ?thesis
    by (simp add: rs_read_def rs_read_cb_def into_ffi_def from_io_result_def)
qed

lemma rs_write_ok:
  assumes "res_api_ok api" and "wr w buf = (Ok k, w')"
  shows "rs_write api lossy (rs_write_cb api wr) w buf = (Ok k, w')"
proof -
  have "from_io_result api (Ok k) = Some (result_ok api k)" by (simp add: from_io_result_def)
  from into_from_io [OF assms(1) this, of lossy] assms(2) show ?thesis
    by (simp add: rs_write_def rs_write_cb_def into_ffi_def from_io_result_def)
qed

lemma rs_read_err:
  assumes "res_api_ok api" and "rd r n = (Err e, got, r')"
  shows "rs_read api lossy (rs_read_cb api rd) r n = (Err (IoOther (lossy (display_io e))), got, r')"
proof -
  have "from_io_result api (Err e) = Some (result_err api (display_io e))" by (simp add: from_io_result_def)
  from into_from_io [OF assms(1) this, of lossy] assms(2) show ?thesis
    by (simp add: rs_read_def rs_read_cb_def into_ffi_def from_io_result_def)
qed

context byte_source
begin

lemma bindings_source:
  assumes "res_api_ok api"
  shows "byte_source (rs_read api lossy (rs_read_cb api rd)) pending"
proof unfold_locales
  fix n :: nat and r assume "0 < n" and "pending r \<noteq> []"
  then show "\<exists>k r'. rs_read api lossy (rs_read_cb api rd) r n = (Ok k, take k (pending r), r') \<and>
      0 < k \<and> k \<le> n \<and> k \<le> length (pending r) \<and> pending r' = drop k (pending r)"
    using delivers [of n r] by (blast intro: rs_read_ok [OF assms])
next
  fix n :: nat and r assume "pending r = []"
  then show "\<exists>r'. rs_read api lossy (rs_read_cb api rd) r n = (Ok 0, [], r') \<and> pending r' = []"
    using exhausted [of r n] by (blast intro: rs_read_ok [OF assms])
qed

end

context byte_sink
begin

lemma bindings_sink:
  assumes "res_api_ok api"
  shows "byte_sink (rs_write api lossy (rs_write_cb api wr)) sent"
proof unfold_locales
  fix buf :: bytes and w assume "buf \<noteq> []"
  then show "\<exists>k w'. rs_write api lossy (rs_write_cb api wr) w buf = (Ok k, w') \<and>
      0 < k \<and> k \<le> length buf \<and> sent w' = sent w @ take k buf"
    using takes [of buf w] by (blast intro: rs_write_ok [OF assms])
qed

end

section \<open>Requests\<close>

definition rs_get_method :: "('q \<Rightarrow> rs_buffer \<Rightarrow> rs_buffer) \<Rightarrow> 'q \<Rightarrow> bytes" where
  "rs_get_method http_get_method req = fetch (http_get_method req)"

definition rs_get_uri :: "('q \<Rightarrow> rs_buffer \<Rightarrow> rs_buffer) \<Rightarrow> 'q \<Rightarrow> bytes" where
  "rs_get_uri http_get_uri req = fetch (http_get_uri req)"

definition rs_get_version :: "('q \<Rightarrow> u32 \<Rightarrow> u32 \<Rightarrow> u32 \<times> u32) \<Rightarrow> 'q \<Rightarrow> u32 \<times> u32" where
  "rs_get_version http_get_version req = http_get_version req 0 0"

definition rs_get_headers ::
  "('q \<Rightarrow> rs_buffer \<Rightarrow> nat) \<Rightarrow> ('q \<Rightarrow> rs_buffer \<Rightarrow> nat \<Rightarrow> rs_buffer \<Rightarrow> rs_buffer) \<Rightarrow> 'q \<Rightarrow> bytes \<Rightarrow> bytes list" where
  "rs_get_headers http_get_header_count http_get_header req header_name =
     (let header_name = rs_const_buffer header_name;
          cnt = http_get_header_count req header_name
      in map (\<lambda>i. fetch (http_get_header req header_name i)) [0..<cnt])"

text \<open>
  \<open>parse_request\<close>: the C function gets a buffer of 512 bytes for its message, and returns the
  request, or a null pointer.
\<close>

definition rs_parse_request ::
  "('d \<Rightarrow> rs_buffer \<Rightarrow> 'q option \<times> rs_buffer) \<Rightarrow> (bytes \<Rightarrow> bytes) \<Rightarrow> 'd \<Rightarrow> (io_error, 'q) rs" where
  "rs_parse_request http_parse_http11_request lossy reader =
     (case http_parse_http11_request reader (rs_buffer_from (replicate 512 0)) of
        (None, err) \<Rightarrow>
          (case rs_buffer_as_slice err of None \<Rightarrow> Panic | Some msg \<Rightarrow> Err (IoOther (lossy msg)))
      | (Some req, err) \<Rightarrow> Ok req)"

lemma rs_get_headers_values:
  assumes "http_get_header_count req (rs_const_buffer name) = length vs"
    and "\<And>i. i < length vs \<Longrightarrow> copies_out (http_get_header req (rs_const_buffer name) i) (vs ! i)"
  shows "rs_get_headers http_get_header_count http_get_header req name = vs"
proof -
  have "map (\<lambda>i. fetch (http_get_header req (rs_const_buffer name) i)) [0..<length vs] = map ((!) vs) [0..<length vs]"
    using fetch_copies [OF assms(2)] by (intro map_cong) simp_all
  then show ?thesis by (simp add: rs_get_headers_def Let_def assms(1) map_nth)
qed

section \<open>Status codes\<close>

datatype status_code =
    Continue | SwitchingProtocols | Processing | EarlyHints | Status_OK | Created
  | Accepted | NonAuthoritativeInformation | NoContent | ResetContent | PartialContent | MultipleChoices
  | MovedPermanently | Found | SeeOther | NotModified | TemporaryRedirect | PermanentRedirect
  | BadRequest | Unauthorized | PaymentRequired | Forbidden | NotFound | MethodNotAllowed
  | NotAcceptable | ProxyAuthenticationRequired | RequestTimeout | Conflict | Gone | LengthRequired
  | PreconditionFailed | ContentTooLarge | URITooLong | UnsupportedMediaType | RangeNotSatisfiable | ExpectationFailed
  | ImATeapot | MisdirectedRequest | UpgradeRequired | PreconditionRequired | TooManyRequests | RequestHeaderFieldsTooLarge
  | UnavailableForLegalReasons | InternalServerError | NotImplemented | BadGateway | ServiceUnavailable | GatewayTimeout
  | HTTPVersionNotSupported | VariantAlsoNegotiates | NotExtended | NetworkAuthenticationRequired

fun status_num :: "status_code \<Rightarrow> u16" where
  "status_num Continue = 100"
| "status_num SwitchingProtocols = 101"
| "status_num Processing = 102"
| "status_num EarlyHints = 103"
| "status_num Status_OK = 200"
| "status_num Created = 201"
| "status_num Accepted = 202"
| "status_num NonAuthoritativeInformation = 203"
| "status_num NoContent = 204"
| "status_num ResetContent = 205"
| "status_num PartialContent = 206"
| "status_num MultipleChoices = 300"
| "status_num MovedPermanently = 301"
| "status_num Found = 302"
| "status_num SeeOther = 303"
| "status_num NotModified = 304"
| "status_num TemporaryRedirect = 307"
| "status_num PermanentRedirect = 308"
| "status_num BadRequest = 400"
| "status_num Unauthorized = 401"
| "status_num PaymentRequired = 402"
| "status_num Forbidden = 403"
| "status_num NotFound = 404"
| "status_num MethodNotAllowed = 405"
| "status_num NotAcceptable = 406"
| "status_num ProxyAuthenticationRequired = 407"
| "status_num RequestTimeout = 408"
| "status_num Conflict = 409"
| "status_num Gone = 410"
| "status_num LengthRequired = 411"
| "status_num PreconditionFailed = 412"
| "status_num ContentTooLarge = 413"
| "status_num URITooLong = 414"
| "status_num UnsupportedMediaType = 415"
| "status_num RangeNotSatisfiable = 416"
| "status_num ExpectationFailed = 417"
| "status_num ImATeapot = 418"
| "status_num MisdirectedRequest = 421"
| "status_num UpgradeRequired = 426"
| "status_num PreconditionRequired = 428"
| "status_num TooManyRequests = 429"
| "status_num RequestHeaderFieldsTooLarge = 431"
| "status_num UnavailableForLegalReasons = 451"
| "status_num InternalServerError = 500"
| "status_num NotImplemented = 501"
| "status_num BadGateway = 502"
| "status_num ServiceUnavailable = 503"
| "status_num GatewayTimeout = 504"
| "status_num HTTPVersionNotSupported = 505"
| "status_num VariantAlsoNegotiates = 506"
| "status_num NotExtended = 510"
| "status_num NetworkAuthenticationRequired = 511"

definition ALL_CODES :: "status_code list" where
  "ALL_CODES =
     [Continue, SwitchingProtocols, Processing, EarlyHints, Status_OK, Created,
      Accepted, NonAuthoritativeInformation, NoContent, ResetContent, PartialContent, MultipleChoices,
      MovedPermanently, Found, SeeOther, NotModified, TemporaryRedirect, PermanentRedirect,
      BadRequest, Unauthorized, PaymentRequired, Forbidden, NotFound, MethodNotAllowed,
      NotAcceptable, ProxyAuthenticationRequired, RequestTimeout, Conflict, Gone, LengthRequired,
      PreconditionFailed, ContentTooLarge, URITooLong, UnsupportedMediaType, RangeNotSatisfiable, ExpectationFailed,
      ImATeapot, MisdirectedRequest, UpgradeRequired, PreconditionRequired, TooManyRequests, RequestHeaderFieldsTooLarge,
      UnavailableForLegalReasons, InternalServerError, NotImplemented, BadGateway, ServiceUnavailable, GatewayTimeout,
      HTTPVersionNotSupported, VariantAlsoNegotiates, NotExtended, NetworkAuthenticationRequired]"

lemma in_ALL_CODES: "c \<in> set ALL_CODES"
  by (cases c) (simp_all add: ALL_CODES_def)

lemma ALL_CODES_num: "map status_num ALL_CODES = map fst REASON_PHRASES"
  by (simp add: ALL_CODES_def REASON_PHRASES_def status_code_defs)

lemma status_num_inject: "status_num c = status_num d \<longleftrightarrow> c = d"
proof -
  have "distinct (map status_num ALL_CODES)" by (simp add: ALL_CODES_num distinct_status)
  then have "inj_on status_num (set ALL_CODES)" by (simp add: distinct_map)
  with in_ALL_CODES show ?thesis by (auto dest: inj_onD)
qed

lemma status_num_range: "range status_num = fst ` set REASON_PHRASES"
proof -
  have "range status_num = set (map status_num ALL_CODES)" using in_ALL_CODES by auto
  then show ?thesis by (simp add: ALL_CODES_num)
qed

text \<open>Status codes are ordered by their numbers; \<open>ALL_CODES\<close> lists all of them in this order.\<close>

instantiation status_code :: linorder
begin

definition less_eq_status_code :: "status_code \<Rightarrow> status_code \<Rightarrow> bool" where
  "less_eq_status_code c d \<longleftrightarrow> status_num c \<le> status_num d"

definition less_status_code :: "status_code \<Rightarrow> status_code \<Rightarrow> bool" where
  "less_status_code c d \<longleftrightarrow> status_num c < status_num d"

instance
  by standard (auto simp: less_eq_status_code_def less_status_code_def status_num_inject intro: le_neq_trans)

end

lemma ALL_CODES_enumerates: "sorted_list_of_set UNIV = ALL_CODES"
proof -
  have "(<) = (\<lambda>c d. status_num c < status_num d)" by (intro ext) (rule less_status_code_def)
  moreover have "sorted_wrt (<) (map fst REASON_PHRASES)"
    by (simp add: REASON_PHRASES_def status_code_defs)
  then have "sorted_wrt (\<lambda>c d. status_num c < status_num d) ALL_CODES"
    by (simp only: ALL_CODES_num [symmetric] sorted_wrt_map)
  ultimately have "sorted_wrt (<) ALL_CODES" by simp
  then have "sorted ALL_CODES" "distinct ALL_CODES" by (simp_all add: strict_sorted_iff)
  then have "sorted_list_of_set (set ALL_CODES) = ALL_CODES"
    by (rule sorted_list_of_set.idem_if_sorted_distinct)
  moreover have "set ALL_CODES = UNIV" using in_ALL_CODES by blast
  ultimately show ?thesis by simp
qed

section \<open>Response writers\<close>

definition rs_add_header :: "('w \<Rightarrow> rs_buffer \<Rightarrow> rs_buffer \<Rightarrow> 'w) \<Rightarrow> 'w \<Rightarrow> bytes \<Rightarrow> bytes \<Rightarrow> 'w" where
  "rs_add_header c_add_header self name val = c_add_header self (rs_const_buffer name) (rs_const_buffer val)"

definition rs_remove_headers :: "('w \<Rightarrow> rs_buffer \<Rightarrow> 'w) \<Rightarrow> 'w \<Rightarrow> bytes \<Rightarrow> 'w" where
  "rs_remove_headers c_remove_headers self name = c_remove_headers self (rs_const_buffer name)"

definition rs_write_status ::
  "'r res_api \<Rightarrow> (bytes \<Rightarrow> bytes) \<Rightarrow> ('w \<Rightarrow> u16 \<Rightarrow> 'r \<Rightarrow> ('r \<times> 'w) option) \<Rightarrow> 'w \<Rightarrow> status_code
    \<Rightarrow> (io_error, nat) rs \<times> 'w" where
  "rs_write_status api lossy c_write_status self code =
     (case c_write_status self (status_num code) (fst (into_ffi (result_ok api 0))) of
        None \<Rightarrow> (Panic, self)
      | Some (r, self') \<Rightarrow> (fst (into_io_result api lossy r), self'))"

text \<open>Writing the body, and reading the body of a request, are as for writers and readers.\<close>

definition rs_response_write ::
  "'r res_api \<Rightarrow> (bytes \<Rightarrow> bytes) \<Rightarrow> ('w \<Rightarrow> bytes \<Rightarrow> 'r \<Rightarrow> ('r \<times> 'w) option) \<Rightarrow> 'w writer_fn" where
  "rs_response_write api lossy c_write self buf =
     (case c_write self buf (fst (into_ffi (result_ok api 0))) of
        None \<Rightarrow> (Panic, self)
      | Some (r, self') \<Rightarrow> (fst (into_io_result api lossy r), self'))"

definition rs_request_read ::
  "'r res_api \<Rightarrow> (bytes \<Rightarrow> bytes) \<Rightarrow> ('q \<Rightarrow> nat \<Rightarrow> 'r \<Rightarrow> (bytes \<times> 'r \<times> 'q) option) \<Rightarrow> 'q reader_fn" where
  "rs_request_read api lossy c_read_body self len =
     (case c_read_body self len (fst (into_ffi (result_ok api 0))) of
        None \<Rightarrow> (Panic, [], self)
      | Some (got, r, self') \<Rightarrow> (fst (into_io_result api lossy r), got, self'))"

end
