(* ===== verification/Server_Round.thy ===== *)
theory Server_Round
  imports Objects Tls
begin

text \<open>
  One request of the server, across the layers: the two halves of a TLS stream
  (\<open>src/tls/stream.rs\<close>), which \<open>Reader::new\<close> and \<open>Writer::new\<close> of \<open>http_rs/src/bio.rs\<close> hand to the C
  interface as boxes with callbacks, the objects that the library builds on them (\<open>Objects\<close>), the
  plugin (\<open>src/plugin.rs\<close>), and the \<open>Drop\<close>s of the wrappers.

  A wrapper is the pointer it holds. The box of a half is a pointer of the caller for the
  library; its clear function, \<open>clear_read\<close> or \<open>clear_write\<close>, drops the half. The wrappers of the
  request and the response writer hold what the functions of \<open>http11.rs\<close> return.

  The lemmas: whatever the parser and the plugin do, a round takes all its boxes with it and drops
  each half once (\<open>serve_request_frees\<close>), in the order of the effects of \<open>serve_connection\<close>.
\<close>

section \<open>The wrappers\<close>

definition rs_reader_new :: "nat \<Rightarrow> nat \<Rightarrow> objects \<Rightarrow> addr \<times> objects" where
  "rs_reader_new read_fn reader m = http_new_reader (Foreign reader) (Foreign_Fn read_fn) Clear_Foreign m"

definition rs_writer_new :: "nat \<Rightarrow> nat \<Rightarrow> objects \<Rightarrow> addr \<times> objects" where
  "rs_writer_new write_fn writer m = http_new_writer (Foreign writer) (Foreign_Fn write_fn) Clear_Foreign m"

text \<open>\<open>ManuallyDrop::new(self).0\<close>: the pointer, and no call.\<close>

definition rs_into_ffi :: "addr \<Rightarrow> objects \<Rightarrow> addr \<times> objects" where
  "rs_into_ffi self m = (self, m)"

definition rs_reader_drop :: "addr \<Rightarrow> objects \<Rightarrow> objects option" where
  "rs_reader_drop self m = http_destroy_reader self m"

definition rs_writer_drop :: "addr \<Rightarrow> objects \<Rightarrow> objects option" where
  "rs_writer_drop self m = http_destroy_writer self m"

definition rs_request_drop :: "addr \<Rightarrow> objects \<Rightarrow> objects option" where
  "rs_request_drop self m = http_destroy_request self m"

definition rs_response_drop :: "addr \<Rightarrow> objects \<Rightarrow> objects option" where
  "rs_response_drop self m = http_destroy_response_writer self m"

text \<open>\<open>http11::parse_request\<close> and \<open>http11::new_response_writer\<close>, which take the wrappers over.\<close>

definition rs_parse_objects :: "('e, 'q) rs \<Rightarrow> addr \<Rightarrow> objects \<Rightarrow> (addr option \<times> objects) option" where
  "rs_parse_objects x reader m =
     (let (reader, m) = rs_into_ffi reader m in parse_objects x reader m)"

definition rs_response_new :: "addr \<Rightarrow> objects \<Rightarrow> (addr \<times> objects) option" where
  "rs_response_new writer m =
     (let (writer, m) = rs_into_ffi writer m in response_object writer m)"

section \<open>A request\<close>

text \<open>\<open>Plugin::handle_request\<close>: the function of the plugin gets the two pointers; when it returns, the
  arguments are dropped, the last one first.\<close>

definition handle_request ::
  "(addr \<Rightarrow> addr \<Rightarrow> objects \<Rightarrow> objects option) \<Rightarrow> addr \<Rightarrow> addr \<Rightarrow> objects \<Rightarrow> objects option" where
  "handle_request plugin req res m =
     Option.bind (plugin req res m) (\<lambda>m. Option.bind (rs_response_drop res m) (rs_request_drop req))"

text \<open>
  The arm for \<open>http/1.1\<close> of the loop in \<open>main\<close> and the call of the plugin after it, on the halves
  \<open>read\<close> and \<open>write\<close>; the first part of the result is whether the \<open>expect\<close> on the request holds.
  When it does not, the response writer is not made yet, and unwinding drops the writer.
\<close>

definition serve_request ::
  "('e, 'q) rs \<Rightarrow> nat \<Rightarrow> nat \<Rightarrow> (addr \<Rightarrow> addr \<Rightarrow> objects \<Rightarrow> objects option) \<Rightarrow> nat \<Rightarrow> nat \<Rightarrow> objects
    \<Rightarrow> (bool \<times> objects) option" where
  "serve_request x read_fn write_fn plugin read write m =
     (let (reader, m) = rs_reader_new read_fn read m;
          (writer, m) = rs_writer_new write_fn write m
      in (case rs_parse_objects x reader m of
            None \<Rightarrow> None
          | Some (None, m) \<Rightarrow> map_option (Pair False) (rs_writer_drop writer m)
          | Some (Some req, m) \<Rightarrow>
              (case rs_response_new writer m of
                 None \<Rightarrow> None
               | Some (res, m) \<Rightarrow> map_option (Pair True) (handle_request plugin req res m))))"

section \<open>Nothing is left\<close>

text \<open>Addresses of the heap are below the next one; a plugin that keeps its contract only uses the
  objects, so that the boxes are as before when it returns.\<close>

definition heap_ok :: "objects \<Rightarrow> bool" where
  "heap_ok m \<longleftrightarrow> 0 < next_addr m \<and> dom (boxes m) \<subseteq> {..< next_addr m}"

definition only_uses :: "(addr \<Rightarrow> addr \<Rightarrow> objects \<Rightarrow> objects option) \<Rightarrow> bool" where
  "only_uses plugin \<longleftrightarrow>
     (\<forall>req res m. \<exists>m'. plugin req res m = Some m' \<and> boxes m' = boxes m \<and> cleared m' = cleared m)"

lemma only_usesE:
  assumes "only_uses plugin"
  obtains m' where "plugin req res m = Some m'" and "boxes m' = boxes m" and "cleared m' = cleared m"
  using assms unfolding only_uses_def by blast

lemma heap_ok_new: "heap_ok m \<Longrightarrow> next_addr m \<le> a \<Longrightarrow> boxes m a = None"
  by (auto simp: heap_ok_def domIff subset_iff not_less dest: leD)

lemma client_heap_ok: "client_run cs hs m \<Longrightarrow> heap_ok m"
  using run_inv [of cs hs m] by (auto simp: objects_inv_def owned_by_def heap_ok_def)

lemmas round_defs = rs_reader_new_def rs_writer_new_def rs_parse_objects_def rs_response_new_def
  rs_into_ffi_def http_new_reader_def http_new_writer_def box_new_def parse_objects_def boxed_reader_def
  response_object_def handle_request_def rs_response_drop_def rs_writer_drop_def
  rs_request_drop_def [abs_def]

lemma restrict_updates: "(\<And>a. a \<in> set as \<Longrightarrow> h a = None) \<Longrightarrow> (\<And>a. a \<notin> set as \<Longrightarrow> h' a = h a) \<Longrightarrow> h' |` (- set as) = h"
  by (auto simp: restrict_map_def fun_eq_iff)

lemma serve_request_ok:
  assumes "heap_ok m" and "only_uses plugin"
  obtains m' where "serve_request (Ok q) read_fn write_fn plugin read write m = Some (True, m')"
    and "boxes m' = boxes m" and "cleared m' = cleared m @ [write, read]"
proof -
  let ?n = "next_addr m"
  let ?h = "(boxes m)(?n \<mapsto> Reader_Cell (Foreign read) (Foreign_Fn read_fn) Clear_Foreign,
    ?n + 1 \<mapsto> Writer_Cell (Foreign write) (Foreign_Fn write_fn) Clear_Foreign,
    ?n + 2 \<mapsto> Data_Cell (Raii_Reader ?n), ?n + 3 \<mapsto> Reader_Cell (Boxed (?n + 2)) Box_Fn Clear_Box,
    ?n + 4 \<mapsto> Request_Cell (?n + 3), ?n + 5 \<mapsto> Response_Cell (?n + 1))"
  let ?m = "m\<lparr>boxes := ?h, next_addr := ?n + 6\<rparr>"
  obtain m1 where m1: "plugin (?n + 4) (?n + 5) ?m = Some m1" "boxes m1 = ?h" "cleared m1 = cleared m"
    using only_usesE [OF assms(2), of "?n + 4" "?n + 5" ?m] by auto
  have "handle_at (boxes m1) (Response_H (?n + 5)) [?n + 5, ?n + 1] [write]"
    by (rule handle_at.response [of _ _ "?n + 1"]) (auto simp: m1 intro: writer_at.foreign)
  then have res: "http_destroy_response_writer (?n + 5) m1 = Some (frees [?n + 5, ?n + 1] [write] m1)"
    using destroy_frees [of m1 "Response_H (?n + 5)"] by simp
  let ?m2 = "frees [?n + 5, ?n + 1] [write] m1"
  have "handle_at (boxes ?m2) (Request_H (?n + 4)) [?n + 4, ?n + 3, ?n + 2, ?n] [read]"
    by (rule handle_at.request [of _ _ "?n + 3"])
      (auto simp: m1 intro!: reader_at.nested reader_at.foreign)
  then have req: "http_destroy_request (?n + 4) ?m2 = Some (frees [?n + 4, ?n + 3, ?n + 2, ?n] [read] ?m2)"
    using destroy_frees [of ?m2 "Request_H (?n + 4)"] by simp
  let ?m3 = "frees [?n + 4, ?n + 3, ?n + 2, ?n] [read] ?m2"
  have "0 < ?n" using assms(1) by (simp add: heap_ok_def)
  then have "serve_request (Ok q) read_fn write_fn plugin read write m = Some (True, ?m3)"
    using m1(1) res req by (simp add: serve_request_def round_defs Let_def numeral_eq_Suc)
  moreover have "boxes ?m3 = boxes m"
    using heap_ok_new [OF assms(1)] by (auto simp: m1 restrict_map_def fun_eq_iff)
  moreover have "cleared ?m3 = cleared m @ [write, read]" by (simp add: m1)
  ultimately show thesis by (rule that)
qed

lemma serve_request_err:
  assumes "heap_ok m"
  obtains m' where "serve_request (Err e) read_fn write_fn plugin read write m = Some (False, m')"
    and "boxes m' = boxes m" and "cleared m' = cleared m @ [read, write]"
proof -
  let ?n = "next_addr m"
  let ?h = "(boxes m)(?n \<mapsto> Reader_Cell (Foreign read) (Foreign_Fn read_fn) Clear_Foreign,
    ?n + 1 \<mapsto> Writer_Cell (Foreign write) (Foreign_Fn write_fn) Clear_Foreign)"
  let ?m = "m\<lparr>boxes := ?h, next_addr := ?n + 2\<rparr>"
  have "reader_at (boxes ?m) ?n [?n] [read]" by (rule reader_at.foreign) simp
  then have rd: "http_destroy_reader ?n ?m = Some (frees [?n] [read] ?m)"
    by (rule destroy_reader_frees) simp
  have "writer_at (boxes (frees [?n] [read] ?m)) (?n + 1) [?n + 1] [write]"
    by (rule writer_at.foreign) simp
  then have wr: "http_destroy_writer (?n + 1) (frees [?n] [read] ?m) =
      Some (frees [?n + 1] [write] (frees [?n] [read] ?m))"
    by (rule destroy_writer_frees) simp
  let ?m2 = "frees [?n + 1] [write] (frees [?n] [read] ?m)"
  have "0 < ?n" using assms(1) by (simp add: heap_ok_def)
  with rd wr have "serve_request (Err e) read_fn write_fn plugin read write m = Some (False, ?m2)"
    by (simp add: serve_request_def round_defs Let_def numeral_eq_Suc)
  moreover have "boxes ?m2 = boxes m"
    using heap_ok_new [OF assms(1)] by (auto simp: restrict_map_def fun_eq_iff)
  moreover have "cleared ?m2 = cleared m @ [read, write]" by simp
  ultimately show thesis by (rule that)
qed

text \<open>The same for either outcome of the parser.\<close>

lemma serve_request_frees:
  fixes x :: "'e + 'q"
  assumes "heap_ok m" and "only_uses plugin"
  obtains m' where
    "serve_request (case x of Inl e \<Rightarrow> Err e | Inr q \<Rightarrow> Ok q) read_fn write_fn plugin read write m = Some (\<not> isl x, m')"
    and "boxes m' = boxes m" and "cleared m' = cleared m @ (if isl x then [read, write] else [write, read])"
proof (cases x)
  case (Inl e)
  obtain m' where "serve_request (Err e :: ('e, 'q) rs) read_fn write_fn plugin read write m = Some (False, m')"
    "boxes m' = boxes m" "cleared m' = cleared m @ [read, write]"
    by (rule serve_request_err [OF assms(1)])
  with Inl show thesis by (intro that [of m']) simp_all
next
  case (Inr q)
  obtain m' where "serve_request (Ok q :: ('e, 'q) rs) read_fn write_fn plugin read write m = Some (True, m')"
    "boxes m' = boxes m" "cleared m' = cleared m @ [write, read]"
    by (rule serve_request_ok [OF assms])
  with Inr show thesis by (intro that [of m']) simp_all
qed

end
