(* ===== verification/Spec2Isabelle.thy ===== *)
theory Spec2Isabelle
  imports Prelude Buffer Bio Callback H2_Error Settings Frame Frames_Fixed Frames_Data
    Frame_Settings Huffman_Tables Huffman Literal Hpack_Table Header_Block Hpack_Stream
    Siphash Static_Index Connection Frame_Trips Header_List
    Std_Text Buf_Io Header_Map Status_Codes Response Http11_Body Request Http11_Request Request_Type
    Request_Spec Objects Tls Bindings Server_Round
begin

text \<open>
  A proxy server and its HTTP library: the crate \<open>http/\<close> of the repository, HTTP/2 and HTTP/1.1, with a
  C interface; the Rust bindings to it, \<open>http_rs/\<close>; and the server over TLS, \<open>src/\<close>.
  This theory states the properties; the model and its lemmas are in the theories it imports,
  one per part of the crate, each named here with the source it models.

  \<^item> \<open>Prelude\<close>: bytes and words, results with a third outcome for a panic, the \<open>?\<close> operator.
  \<^item> \<open>Buffer\<close> (\<open>buffer.rs\<close>, \<open>lib.rs\<close>): growable buffers over a caller's allocator. The memory of
    a buffer is a list of cells; the calls it made on its allocator are recorded.
  \<^item> \<open>Bio\<close>, \<open>Callback\<close> (\<open>result.rs\<close>, \<open>bio.rs\<close>): the result record of C callers, readers and writers
    made of callbacks, with the parts of \<open>std::io\<close> the crate uses. A reader is a function on an
    explicit state, so short reads, errors and blocking on a callback are all visible. The
    interfaces \<open>byte_source\<close> and \<open>byte_sink\<close> say what a correct transport does; every codec
    below is proved for any such transport.
  \<^item> \<open>H2_Error\<close>, \<open>Settings\<close>, \<open>Frame\<close>, \<open>Frames_Fixed\<close>, \<open>Frames_Data\<close>, \<open>Frame_Settings\<close>
    (\<open>http2/error.rs\<close>, \<open>http2/context.rs\<close>, \<open>http2/frame/\<close>): the error codes, the settings, the
    frame header and the nine types of frames, each with its reader, its writer and the
    exported functions around them.
  \<^item> \<open>Huffman_Tables\<close>, \<open>Huffman\<close>, \<open>Literal\<close>, \<open>Hpack_Table\<close>, \<open>Header_Block\<close>, \<open>Hpack_Stream\<close>
    (\<open>http2/hpack/\<close>, \<open>http2/frame/header.rs\<close>): header compression: the Huffman code and its
    decoding tree, integers and strings, the static table and the ring buffer of the dynamic
    table, one field, and a whole block as a sequence of decoding calls, with the abstract
    tables of RFC 7541 that they refine.
  \<^item> \<open>Siphash\<close>, \<open>Static_Index\<close> (\<open>http2/context.rs\<close>): the hash and the lookup of a static index.
  \<^item> \<open>Connection\<close> (\<open>http2/mod.rs\<close>): the context and the opening of a connection.
  \<^item> \<open>Frame_Trips\<close>, \<open>Header_List\<close>: what the statements about whole frames share, and a header list on its
    way: cut into frames, sent, collected by a step relation over the readers, and decoded.
  \<^item> \<open>Std_Text\<close>, \<open>Buf_Io\<close>: what the HTTP/1.1 half uses of Rust's strings (UTF-8, trimming, splitting,
    numbers) and of \<open>std::io\<close> (\<open>BufReader\<close>, \<open>BufWriter\<close> with its buffer of 8 KiB and its flush on drop).
  \<^item> \<open>Header_Map\<close>, \<open>Request\<close> (\<open>request.rs\<close>): the map of the headers, behind the interface \<open>multimap\<close>, and
    the request object with the functions that copy its parts to the caller.
  \<^item> \<open>Http11_Body\<close>, \<open>Http11_Request\<close> (\<open>http11.rs\<close>): the body of a request, of a given length or in
    chunks, behind the interface \<open>body_stream\<close>, and the request parser.
  \<^item> \<open>Request_Type\<close>: what every parsed request has, that reading from its body keeps it, and what the
    exported parser reports.
  \<^item> \<open>Request_Spec\<close>: the parser as a function on bytes, without readers and buffers, which the code's
    parser computes on every source of bytes.
  \<^item> \<open>Status_Codes\<close>, \<open>Response\<close> (\<open>response.rs\<close>, \<open>http11.rs\<close>): the status codes and their phrases, the
    response writer, the head of an HTTP/1.1 response, and runs of calls on a response, with
    what they should send.
  \<^item> \<open>Objects\<close> (\<open>bio.rs\<close>, \<open>request.rs\<close>, \<open>response.rs\<close>, \<open>http11.rs\<close>, \<open>http2/context.rs\<close>): the boxes that the
    C interface hands out as pointers, what each owns, and a client as a sequence of calls.
  \<^item> \<open>Tls\<close> (\<open>src/tls/\<close>, \<open>src/plugin.rs\<close>, \<open>src/main.rs\<close>): streams, listener, plugin, the start of the server
    and its loop over connections; descriptors and objects of OpenSSL are acquired and released as effects.
  \<^item> \<open>Bindings\<close> (\<open>http_rs/\<close>): buffers, results, readers, writers, requests and responses over C.
  \<^item> \<open>Server_Round\<close> (\<open>src/main.rs\<close>, \<open>src/plugin.rs\<close>, \<open>http_rs/\<close>): one request through the layers: what the
    wrappers and the plugin own, and that all of it is dropped.

  The parts meet at bytes: the server's streams are readers and writers that the bindings pass to
  the C interface, the parser and the response writer read and write through it. Every codec is
  proved for any transport that keeps the two interfaces of \<open>Bio\<close>, and \<open>wrapped_reader\<close> and
  \<open>bindings_transparent\<close> say that the layers between keep them.

  Calls into C are functions of the model's arguments, and pointers that the code only
  checks are options: \<open>None\<close> is the assertion that fails. The crate \<open>http/\<close> aborts on a panic, so
  \<open>Panic\<close> has no state to speak of; the server unwinds. Sizes are those of a 64-bit target; \<open>usize\<close> values are
  naturals under the written-out limit, wire integers are words.

  Loops are recursive functions with measures; there is no fuel. The loops of the HTTP/1.1 half
  that end only because the input does (\<open>read_until\<close>, \<open>parse_headers\<close>) are partial functions, and
  that they end on every \<open>byte_source\<close> is proved (\<open>request_parser_total\<close>). The bounds in the statements
  (\<open>2 ^ 24\<close> for lengths, \<open>2 ^ 31\<close> for stream identifiers, \<open>2 ^ 63\<close> for memory) are those of the wire
  format and of Rust's allocations.

  Not modelled: the debug prints and the messages of the server; OpenSSL, sockets and \<open>dlopen\<close>, whose
  results are arguments; that two threads may use the halves of a stream; the declarations of C
  functions in the bindings (\<open>http_rs/src/ffi.rs\<close>); the tests.
\<close>





text \<open>C3: a request with a well-formed head and a \<open>Content-Length\<close> is parsed to its parts: method,
  target, host, version, the values of every header in their order; and reading its body, with
  buffers of any sizes, gives exactly the announced bytes and leaves the rest of the connection.\<close>

theorem request_with_length:
  assumes "byte_source rd pending"
    and "pending r = request_head method uri flds @ xs @ rest"
    and "visible method" and "visible uri" and "list_all field_ok flds"
    and "field_values flds (ascii ''host'') = host # hosts"
    and "field_values flds (ascii ''transfer-encoding'') = []"
    and "field_values flds (ascii ''content-length'') = v # vs" and "is_ascii v"
    and "from_str_radix 10 v = Inr (length xs)"
    and "length xs < length ns" and "list_all (\<lambda>n. 0 < n) ns"
  shows "\<exists>req b. parse_request lossy rd r = Some (Ok req) \<and> reads_as lossy req method uri flds host \<and>
    read_with (body_read rd) ns (rq_body req) = Some (Ok xs, b) \<and> br_pending pending (bd_reader b) = rest"
proof -
  have "\<forall>n\<in>set ns. 0 < n" using assms(12) by (simp add: list_all_iff)
  then obtain req b where "parse_request lossy rd r = Some (Ok req)" "reads_as lossy req method uri flds host"
    "read_with (body_read rd) ns (rq_body req) = Some (Ok xs, b)" "body_finished pending False rest b"
    by (rule byte_source.parse_with_length [where lossy = lossy, OF assms(1-11)])
  then show ?thesis by (intro exI [of _ req] exI [of _ b]) (simp add: body_finished_def)
qed

theorem request_with_length_witness:
  "\<exists>req b. parse_request id slice_read
      (request_head (ascii ''GET'') (ascii ''/a'') [(ascii ''Host'', ascii ''h''), (ascii ''Content-Length'', ascii ''2'')] @ [8, 9] @ [1])
      = Some (Ok req) \<and>
    reads_as id req (ascii ''GET'') (ascii ''/a'') [(ascii ''Host'', ascii ''h''), (ascii ''Content-Length'', ascii ''2'')] (ascii ''h'') \<and>
    read_with (body_read slice_read) [1, 5, 5] (rq_body req) = Some (Ok [8, 9], b) \<and> br_pending id (bd_reader b) = [1]"
  by (rule request_with_length [OF slice_vec(1), where hosts = "[]" and v = "ascii ''2''" and vs = "[]"])
    (simp_all add: visible_def field_ok_def field_values_def ascii_def to_ascii_lowercase_def lower_byte_def
      ascii_space_def from_str_radix_def to_digit_def Let_def usize_lim_def)

text \<open>C4: a request with a chunked body, its chunks with any size lines that the reader takes, is
  parsed to its parts, and reading its body gives the data of the chunks, one after the other.\<close>

theorem request_chunked:
  assumes "byte_source rd pending"
    and "pending r = request_head method uri flds @ l @ d @ chunks_after cs last_line @ rest"
    and "visible method" and "visible uri" and "list_all field_ok flds"
    and "field_values flds (ascii ''host'') = host # hosts"
    and "ascii ''chunked'' \<in> set (field_values flds (ascii ''transfer-encoding''))"
    and "list_all chunk_ok ((l, d) # cs)" and "size_line last_line 0"
    and "length (payload ((l, d) # cs)) < length ns" and "list_all (\<lambda>n. 0 < n) ns"
  shows "\<exists>req b. parse_request lossy rd r = Some (Ok req) \<and> reads_as lossy req method uri flds host \<and>
    read_with (body_read rd) ns (rq_body req) = Some (Ok (payload ((l, d) # cs)), b) \<and>
    br_pending pending (bd_reader b) = rest"
proof -
  have "\<forall>n\<in>set ns. 0 < n" using assms(11) by (simp add: list_all_iff)
  then obtain req b where "parse_request lossy rd r = Some (Ok req)" "reads_as lossy req method uri flds host"
    "read_with (body_read rd) ns (rq_body req) = Some (Ok (payload ((l, d) # cs)), b)"
    "body_finished pending True rest b"
    by (rule byte_source.parse_chunked [where lossy = lossy, OF assms(1-10)])
  then show ?thesis by (intro exI [of _ req] exI [of _ b]) (simp add: body_finished_def)
qed

theorem request_chunked_witness:
  "let flds = [(ascii ''Host'', ascii ''h''), (ascii ''Transfer-Encoding'', ascii ''chunked'')];
       size = (\<lambda>n. digits 16 n @ CRLF)
   in \<exists>req b. parse_request id slice_read
      (request_head (ascii ''GET'') (ascii ''/'') flds @ size 2 @ [8, 9] @ chunks_after [(size 1, [7])] (size 0) @ CRLF)
      = Some (Ok req) \<and> reads_as id req (ascii ''GET'') (ascii ''/'') flds (ascii ''h'') \<and>
    read_with (body_read slice_read) [1, 5, 5, 5] (rq_body req) = Some (Ok (payload [(size 2, [8, 9]), (size 1, [7])]), b) \<and>
    br_pending id (bd_reader b) = CRLF"
  unfolding Let_def
proof (rule request_chunked [OF slice_vec(1), where hosts = "[]"])
  have s: "size_line (digits 16 n @ CRLF) n" if "n < 3" for n
    using that by (intro size_line_digits) (simp add: usize_lim_def)
  show "list_all chunk_ok [(digits 16 2 @ CRLF, [8, 9]), (digits 16 1 @ CRLF, [7])]"
    using s [of 1] s [of 2] by (simp add: chunk_ok_def numeral_2_eq_2)
  show "size_line (digits 16 0 @ CRLF) 0" by (rule s) simp
qed (simp_all add: visible_def field_ok_def field_values_def ascii_def to_ascii_lowercase_def lower_byte_def
      ascii_space_def payload_def)



text \<open>C6: every request that the parser returns, whatever was sent, is well-formed: its method, target
  and host are valid UTF-8 as Rust's strings must be, method and target have no space, the
  version is 1.1, and the headers are a map of names in lower case without colons to non-empty
  lists of values without line breaks. The conversion of the host (\<open>BString::to_string\<close>) gives
  valid UTF-8.\<close>

theorem request_typed:
  assumes "byte_source rd pending" and "parse_request lossy rd r = Some (Ok req)"
    and "\<forall>x. utf8_valid (lossy x)"
  shows "wf_request req"
  using byte_source.parse_typed [OF assms(1,2)] assms(3) by blast

theorem request_typed_witness:
  "\<exists>req. parse_request (\<lambda>x. if utf8_valid x then x else []) slice_read
      (request_head (ascii ''GET'') (ascii ''/a'') [(ascii ''Host'', ascii ''h''), (ascii ''Content-Length'', ascii ''2'')] @ [8, 9])
      = Some (Ok req) \<and> wf_request req"
proof -
  let ?flds = "[(ascii ''Host'', ascii ''h''), (ascii ''Content-Length'', ascii ''2'')]"
  let ?lossy = "\<lambda>x. if utf8_valid x then x else []"
  note [simp] = ascii_def field_values_def to_ascii_lowercase_def lower_byte_def
  have visible: "visible (ascii ''GET'')" "visible (ascii ''/a'')" by (simp_all add: visible_def)
  have flds: "list_all field_ok ?flds" by (simp add: field_ok_def ascii_space_def)
  have vals: "field_values ?flds (ascii ''host'') = ascii ''h'' # []" "field_values ?flds (ascii ''transfer-encoding'') = []"
    "field_values ?flds (ascii ''content-length'') = ascii ''2'' # []" by simp_all
  have num: "is_ascii (ascii ''2'')" "from_str_radix 10 (ascii ''2'') = Inr (length [8, 9 :: u8])"
    by (simp_all add: from_str_radix_def to_digit_def usize_lim_def)
  have sizes: "length [8, 9 :: u8] < length [1, 1, 1 :: nat]" "\<forall>n\<in>set [1, 1, 1 :: nat]. 0 < n" by simp_all
  have "id (request_head (ascii ''GET'') (ascii ''/a'') ?flds @ [8, 9]) = request_head (ascii ''GET'') (ascii ''/a'') ?flds @ [8, 9] @ []"
    by (simp del: ascii_def)
  from slice.parse_with_length [where lossy = ?lossy, OF this visible flds vals num sizes]
  obtain req where "parse_request ?lossy slice_read (request_head (ascii ''GET'') (ascii ''/a'') ?flds @ [8, 9]) = Some (Ok req)"
    by blast
  with request_typed [OF slice_vec(1) this] show ?thesis by auto
qed

text \<open>C7: what a request is does not depend on how the connection delivers it: two readers with the same
  bytes, however they cut them into reads, give requests that agree in all parts and in the bytes left for
  the body, and these are the request that the bytes denote, or the error.\<close>

theorem request_parser_refines:
  assumes "byte_source rd pending" and "byte_source rd' pending'" and "pending' r' = pending r"
  shows "\<exists>x x'. parse_request lossy rd r = Some x \<and> parse_request lossy rd' r' = Some x' \<and>
    map_rs id (request_view pending) x = request_of lossy (pending r) \<and>
    map_rs id (request_view pending') x' = request_of lossy (pending r)"
  using byte_source.parse_request_of [OF assms(1), of lossy r] byte_source.parse_request_of [OF assms(2), of lossy r'] assms(3)
  by auto


theorem request_parser_refines_witness:
  "let xs = ascii ''GET / HTTP/1.1'' @ [0x0A] @ ascii ''Host: b'' @ [0x0A, 0x0A, 7];
       req = request_new (ascii ''GET'') (ascii ''/'') (ascii ''b'') (1, 1) [(ascii ''host'', [ascii ''b''])] ([7], None, False)
   in \<exists>x x'. parse_request id slice_read xs = Some x \<and>
    parse_request id (reader_read id roomy_os (reader_from_read slice_read)) xs = Some x' \<and>
    map_rs id (request_view id) x = Ok req \<and> map_rs id (request_view id) x' = Ok req"
proof -
  let ?line = "[71, 69, 84, 32, 47, 32, 72, 84, 84, 80, 47, 49, 46, 49]"
  have t: "trim_end (?line @ [10]) = ?line"
    by (simp add: trim_end.simps [of "?line @ [10]", simplified] trim_end.simps [of ?line] WHITE_SPACE_def strip_suffix_def)
  have "request_of id (ascii ''GET / HTTP/1.1'' @ [0x0A] @ ascii ''Host: b'' @ [0x0A, 0x0A, 7]) =
      Ok (request_new (ascii ''GET'') (ascii ''/'') (ascii ''b'') (1, 1) [(ascii ''host'', [ascii ''b''])] ([7], None, False))"
    using t by (simp add: request_of_def text_line_def after_line_def header_line_def line_of_def parse_request_line_def
        ascii_def utf8_valid.simps headers_of.simps numeral_3_eq_3 split_once_def strip_prefix_def without_suffix_def
        strip_suffix_def position_def push_line_def to_ascii_lowercase_def lower_byte_def trim_ascii_start_def
        ascii_space_def hm_new_def body_of_def hm_values_def hm_get_def from_str_radix_def to_digit_def
        usize_lim_def request_target_def non_zero_def)
  then show ?thesis unfolding Let_def
    by (metis request_parser_refines [OF slice_vec(1) byte_source.wrapped [OF slice_vec(1)] refl] id_apply)
qed

text \<open>C8: reading from the body of a well-formed request never panics, whatever the connection holds,
  and keeps the request well-formed; the count that it reports is that of the bytes it stored, at
  most as many as there is room for, and they are bytes of the connection in their order, with
  nothing skipped unless the body is in chunks.\<close>

theorem request_body_safe:
  assumes "byte_source rd pending" and "wf_request req" and "wf_result res" and "buffer_room (r_err res) 42"
  shows "\<exists>got q b' skip.
    http_read_body (request_body_cb rd) (Some req) (Some n) (Some res) = Some (got, q, req\<lparr>rq_body := b'\<rparr>) \<and>
    wf_request (req\<lparr>rq_body := b'\<rparr>) \<and> wf_result q \<and> length got \<le> n \<and>
    (if r_is_ok q then r_ok q = Some (length got) else got = []) \<and>
    br_pending pending (bd_reader (rq_body req)) = skip @ got @ br_pending pending (bd_reader b') \<and>
    (if bd_chunked (rq_body req) then True else skip = [])"
proof -
  obtain got q b' where
    1: "http_read_body (request_body_cb rd) (Some req) (Some n) (Some res) = Some (got, q, req\<lparr>rq_body := b'\<rparr>)"
      "wf_result q" "length got \<le> n" "if r_is_ok q then r_ok q = Some (length got) else got = []"
    and 2: "body_after pending (rq_body req) got b'"
    by (rule byte_source.http_read_body_safe [OF assms])
  obtain skip where "br_pending pending (bd_reader (rq_body req)) = skip @ got @ br_pending pending (bd_reader b')"
    "if bd_chunked (rq_body req) then True else skip = []" using 2 by (auto simp: body_after_def)
  moreover have "wf_request (req\<lparr>rq_body := b'\<rparr>)" using 2 assms(2) by (simp add: body_after_def wf_request_def)
  ultimately show ?thesis using 1 by (intro exI conjI) assumption+
qed

theorem request_body_safe_witness:
  "let req = \<lparr>rq_method = ascii ''GET'', rq_path = ascii ''/'', rq_host = ascii ''h'', rq_version = (1, 1), rq_headers = [],
             rq_body = \<lparr>bd_reader = buf_reader_new [1, 2, 3 :: u8], bd_content_length = Some 2, bd_chunked = False\<rparr>\<rparr>;
       res = \<lparr>r_is_ok = True, r_ok = Some 0, r_err = empty_buffer roomy_os\<rparr>
   in \<exists>got q b' skip.
    http_read_body (request_body_cb slice_read) (Some req) (Some 7) (Some res) = Some (got, q, req\<lparr>rq_body := b'\<rparr>) \<and>
    wf_request (req\<lparr>rq_body := b'\<rparr>) \<and> wf_result q \<and> length got \<le> 7 \<and>
    (if r_is_ok q then r_ok q = Some (length got) else got = []) \<and>
    br_pending id (bd_reader (rq_body req)) = skip @ got @ br_pending id (bd_reader b') \<and>
    (if bd_chunked (rq_body req) then True else skip = [])"
  unfolding Let_def
  by (rule request_body_safe [OF slice_vec(1)])
    (simp_all add: wf_request_def wf_headers_def hm_ok_def body_ok_def ascii_def wf_result_def roomy_buffer)

text \<open>C9: nothing leaks: when the client destroys what it holds, in any order, no box of the library is
  left, and every pointer that it passed in with a clear function was cleared exactly once,
  also those that requests, failed parses and response writers took over.\<close>

theorem objects_all_freed:
  assumes "client_run calls hs m" and "mset order = mset hs"
  shows "\<exists>m'. destroy_all order m = Some m' \<and> boxes m' = Map.empty \<and>
    mset (cleared m') = mset (concat (map given calls))"
proof -
  have "objects_inv (concat (map given calls)) order m"
    using run_inv [OF assms(1)] by (simp add: objects_inv_def assms(2))
  from destroy_all_inv [OF this] show ?thesis by (auto simp: objects_inv_Nil)
qed

theorem objects_all_freed_witness:
  "\<exists>m m'. client_run [New_Writer 7 Box_Fn, New_Context] [Context_H 2, Writer_H 1] m \<and>
    destroy_all [Writer_H 1, Context_H 2] m = Some m' \<and> boxes m' = Map.empty \<and> mset (cleared m') = {#7#}"
proof -
  obtain m where run1: "client_run ([] @ [New_Writer 7 Box_Fn]) [Writer_H 1] m" and m: "next_addr m = 2"
    using client_run.call [OF client_run.start, of "New_Writer 7 Box_Fn"]
    by (auto simp: object_defs objects_new_def)
  have step: "call_step New_Context ([Writer_H 1], m) =
      Some ([Context_H 2, Writer_H 1], snd (the (call_step New_Context ([Writer_H 1], m))))"
    by (simp add: object_defs m)
  have run: "client_run (([] @ [New_Writer 7 Box_Fn]) @ [New_Context]) [Context_H 2, Writer_H 1]
      (snd (the (call_step New_Context ([Writer_H 1], m))))"
    by (rule client_run.call [OF run1 _ step]) simp
  from objects_all_freed [OF this, of "[Writer_H 1, Context_H 2]"] run show ?thesis by auto
qed

text \<open>C10: decoding a block, one call after the other, gives the fields of RFC 7541 and leaves the
  bytes after it and the RFC's table.\<close>

theorem hpack_block:
  assumes "models t st" and "list_all wf_rep reps" and "spec_block st reps = Some (st', hdrs)"
  shows "\<exists>t'. decodes (t, block_wire reps @ rest) hdrs (t', rest) \<and> models t' st'"
  using block_decodes [OF assms] .

theorem hpack_block_witness:
  "\<exists>t'. decodes (header_table_new 100, block_wire [Indexed 2, Incremental (Name_Index 4) False [47, 98]] @ [9])
     [(ascii '':method'', ascii ''GET''), (ascii '':path'', [47, 98])] (t', [9]) \<and>
   models t' \<lparr>sp_entries = [(ascii '':path'', [47, 98])], sp_max = 100, sp_limit = 100\<rparr>"
proof (rule hpack_block)
  show "models (header_table_new 100) \<lparr>sp_entries = [], sp_max = 100, sp_limit = 100\<rparr>"
    by (rule models_new) (simp add: usize_lim_def)
qed (simp_all add: table_lookup_def STATIC_TABLE_def STATIC_TEXT_def static_entry_def string_value_def
    spec_insert_def entry_size_def trim_id)

text \<open>C11: a header list that one peer encodes, cuts into any fragments and sends as a HEADERS frame and
  CONTINUATION frames is what the other peer collects and decodes: the frames that the writers
  send are read back into one buffer, in which the decoding calls find the fields of RFC 7541,
  and both the connection and the table are as the next header list needs them.\<close>

theorem header_list_travels:
  assumes "byte_source rd pending" and "byte_sink wr sent"
    and "headers_frame_len pad prio xs = Some n" and "n < 0x1000000" and "length xs < 2 ^ 32"
    and "0 < sid" and "sid < 0x80000000" and "\<not> n > setting_value (settings_get s MaxFrameSize)"
    and "(case prio of None \<Rightarrow> 0 | Some (d, _, _) \<Rightarrow> d AND 0x7FFFFFFF) \<noteq> sid" and "list_all (fits s) xss"
    and "usable A (hf_data f)" and "buffer_room (hf_data f) (b_len (hf_data f) + length (concat (xs # xss)) + unat n)"
    and "concat (xs # xss) = block_wire reps" and "list_all wf_rep reps"
    and "models t st" and "spec_block st reps = Some (st', hdrs)"
    and "pending r = block_frames sid pad prio e n xs xss @ rest"
  shows "emits sent (write_block wr sid pad prio e xs xss) (block_frames sid pad prio e n xs xss)
      (length (block_frames sid pad prio e n xs xss)) \<and>
    (\<exists>h r1 f1 r2 f2 r3 t'. read_header s rd r = (Ok h, r1) \<and> h_frame_type h = HEADERS_TYPE \<and> h_stream_id h = sid \<and>
       headers_read_frame rd h f r1 = (Ok (), (f1, r2)) \<and> (hf_end f1 AND FLAGS_END_STREAM \<noteq> 0 \<longleftrightarrow> e) \<and>
       collects s rd (block_start f1, r2) (f2, r3) \<and> pending r3 = rest \<and>
       decodes (t, as_slice (c_data f2)) hdrs (t', []) \<and> models t' st')"
proof (rule conjI [OF byte_sink.write_block_emits [OF assms(2,3)]])
  obtain h r1 f1 r2 f2 r3 where read: "read_header s rd r = (Ok h, r1)" "h_frame_type h = HEADERS_TYPE"
    "h_stream_id h = sid" "headers_read_frame rd h f r1 = (Ok (), (f1, r2))"
    "hf_end f1 AND FLAGS_END_STREAM \<noteq> 0 \<longleftrightarrow> e" "collects s rd (block_start f1, r2) (f2, r3)"
    "as_slice (c_data f2) = concat (xs # xss)" "pending r3 = rest"
    by (rule byte_source.block_collected [OF assms(1,3-12,17)])
  obtain t' where "decodes (t, block_wire reps @ []) hdrs (t', [])" and m: "models t' st'"
    using block_decodes [OF assms(15,14,16), of "[]"] by blast
  then have dec: "decodes (t, as_slice (c_data f2)) hdrs (t', [])" using read(7) assms(13) by simp
  show "\<exists>h r1 f1 r2 f2 r3 t'. read_header s rd r = (Ok h, r1) \<and> h_frame_type h = HEADERS_TYPE \<and> h_stream_id h = sid \<and>
       headers_read_frame rd h f r1 = (Ok (), (f1, r2)) \<and> (hf_end f1 AND FLAGS_END_STREAM \<noteq> 0 \<longleftrightarrow> e) \<and>
       collects s rd (block_start f1, r2) (f2, r3) \<and> pending r3 = rest \<and>
       decodes (t, as_slice (c_data f2)) hdrs (t', []) \<and> models t' st'"
    by (intro exI conjI) (rule read(1-6) read(8) dec m)+
qed

theorem header_list_travels_witness:
  "let f = \<lparr>hf_data = empty_buffer roomy_os, hf_stream_dep = 0, hf_exclusive = False, hf_weight = 0, hf_end = 0\<rparr>;
       reps = [Indexed 2, Incremental (Name_Index 4) False [47, 98]];
       frames = block_frames 5 None None True 1 [0x82] [[0x44, 0x02], [47, 98]]
   in emits id (write_block vec_write 5 None None True [0x82] [[0x44, 0x02], [47, 98]]) frames (length frames) \<and>
     (\<exists>h r1 f1 r2 f2 r3 t'. read_header settings_default slice_read (frames @ [7]) = (Ok h, r1) \<and>
       h_frame_type h = HEADERS_TYPE \<and> h_stream_id h = 5 \<and>
       headers_read_frame slice_read h f r1 = (Ok (), (f1, r2)) \<and> (hf_end f1 AND FLAGS_END_STREAM \<noteq> 0 \<longleftrightarrow> True) \<and>
       collects settings_default slice_read (block_start f1, r2) (f2, r3) \<and> id r3 = [7] \<and>
       decodes (header_table_new 100, as_slice (c_data f2))
         [(ascii '':method'', ascii ''GET''), (ascii '':path'', [47, 98])] (t', []) \<and>
       models t' \<lparr>sp_entries = [(ascii '':path'', [47, 98])], sp_max = 100, sp_limit = 100\<rparr>)"
proof -
  let ?reps = "[Indexed 2, Incremental (Name_Index 4) False [47, 98]]"
  have wire: "concat ([0x82] # [[0x44, 0x02], [47, 98]]) = block_wire ?reps"
    by (simp add: block_wire_def int_wire_def string_wire_def int_mask_eq)
  have m: "models (header_table_new 100) \<lparr>sp_entries = [], sp_max = 100, sp_limit = 100\<rparr>"
    by (rule models_new) (simp add: usize_lim_def)
  have spec: "spec_block \<lparr>sp_entries = [], sp_max = 100, sp_limit = 100\<rparr> ?reps =
      Some (\<lparr>sp_entries = [(ascii '':path'', [47, 98])], sp_max = 100, sp_limit = 100\<rparr>,
        [(ascii '':method'', ascii ''GET''), (ascii '':path'', [47, 98])])"
    by (simp add: table_lookup_def STATIC_TABLE_def STATIC_TEXT_def static_entry_def string_value_def
        spec_insert_def entry_size_def trim_id)
  have A: "usable (http_internal_allocator roomy_os) (empty_buffer roomy_os)"
    by (simp add: usable_def roomy_buffer) (simp add: empty_buffer_def)
  show ?thesis unfolding Let_def
    by (rule header_list_travels [OF slice_vec, of None None "[0x82]" 1 5 settings_default "[[0x44, 0x02], [47, 98]]"
          "http_internal_allocator roomy_os", OF _ _ _ _ _ _ _ _ _ _ wire _ m spec])
      (simp_all add: headers_frame_len_def default_checks fits_def A empty_buffer_def [of roomy_os, THEN arg_cong [of _ _ b_len]]
        roomy_buffer)
qed




text \<open>C14: Huffman decoding what was encoded gives the bytes back.\<close>

theorem huffman_roundtrip:
  assumes "encode_bytes data = Some out"
  shows "decode_bytes out = (Ok (), data)"
  using decode_encode [OF assms] .

theorem huffman_roundtrip_witness: "\<exists>out. decode_bytes out = (Ok (), [48, 255])"
proof -
  obtain out where "encode_bytes [48, 255] = Some out" by (rule encode_bytes_spec)
  from huffman_roundtrip [OF this] show ?thesis by blast
qed

text \<open>C15: exactly the padded codes are accepted: the decoder returns \<open>out\<close> if and only if the input is
  the code of \<open>out\<close> followed by fewer than 30 ones (RFC 7541 allows seven).\<close>

theorem huffman_accepts:
  "decode_bytes data = (Ok (), out) \<longleftrightarrow> (\<exists>k<30. bytes_bits data = encoding out @ replicate k True)"
  using decode_bytes_iff .

text \<open>C16: inserting refines the RFC's insertion: room is made by evicting the oldest entries, an entry
  larger than the table empties it, and no range of the ring is out of bounds.\<close>

theorem hpack_insert:
  assumes "represents t es"
  shows "\<exists>t'. dyn_insert t name val = Some t' \<and>
    represents t' (spec_insert (dt_max_size t) es (name, val)) \<and>
    dt_max_size t' = dt_max_size t \<and> dt_permitted_size t' = dt_permitted_size t"
  using dyn_insert_represents [OF assms] .

theorem hpack_insert_witness:
  "\<exists>t'. dyn_insert (dyn_new 40) [1] [2] = Some t' \<and>
    represents t' (spec_insert (dt_max_size (dyn_new 40)) [] ([1], [2])) \<and>
    dt_max_size t' = dt_max_size (dyn_new 40) \<and> dt_permitted_size t' = dt_permitted_size (dyn_new 40)"
  by (rule hpack_insert [OF dyn_new_represents]) (simp add: usize_lim_def)

text \<open>C17: looking an index up, in the static table, then in the dynamic one, appends exactly the name
  (and the value, when it is asked for) that RFC 7541 gives it.\<close>

theorem hpack_lookup:
  assumes "represents t es"
  shows "header_table_get t i name val =
    (case table_lookup es i of
       None \<Rightarrow> (Err (), (name, val))
     | Some (n, v) \<Rightarrow>
         (Ok (), (name @ n, (case (val, v) of (Some w, Some e) \<Rightarrow> Some (w @ e) | _ \<Rightarrow> val))))"
  using header_table_get_spec [OF assms] .

theorem hpack_lookup_witness:
  "header_table_get (dyn_new 40) 62 [] None =
    (case table_lookup [] 62 of
       None \<Rightarrow> (Err (), ([], None))
     | Some (n, v) \<Rightarrow>
         (Ok (), ([] @ n, (case (None, v) of (Some w, Some e) \<Rightarrow> Some (w @ e) | _ \<Rightarrow> None))))"
  by (rule hpack_lookup [OF dyn_new_represents]) (simp add: usize_lim_def)

text \<open>C18: a client of the C interface that passes the library only pointers it holds never makes it touch
  freed memory: after any such calls, every call that is allowed succeeds.\<close>

theorem objects_safe:
  assumes "client_run calls hs m" and "allowed hs c"
  shows "call_step c (hs, m) \<noteq> None"
  using call_step_inv [OF run_inv [OF assms(1)] assms(2)] by auto

theorem objects_safe_witness:
  "\<exists>hs m. client_run [New_Reader 7 Box_Fn, Parse_Request 1 True] hs m \<and> call_step (Destroy (Request_H 4)) (hs, m) \<noteq> None"
proof -
  obtain m where run1: "client_run ([] @ [New_Reader 7 Box_Fn]) [Reader_H 1] m"
    and m: "boxes m = [1 \<mapsto> Reader_Cell (Foreign 7) Box_Fn Clear_Foreign]" "next_addr m = 2"
    using client_run.call [OF client_run.start, of "New_Reader 7 Box_Fn"]
    by (auto simp: object_defs objects_new_def)
  have step: "call_step (Parse_Request 1 True) ([Reader_H 1], m) =
      Some ([Request_H 4], snd (the (call_step (Parse_Request 1 True) ([Reader_H 1], m))))"
    by (simp add: object_defs outcome_def m)
  have "client_run (([] @ [New_Reader 7 Box_Fn]) @ [Parse_Request 1 True]) [Request_H 4]
      (snd (the (call_step (Parse_Request 1 True) ([Reader_H 1], m))))"
    by (rule client_run.call [OF run1 _ step]) simp
  with objects_safe [OF this, of "Destroy (Request_H 4)"] show ?thesis by auto
qed

text \<open>C19: the server starts when it has its socket, its context with the key pair and its plugin; it then
  serves the connections one after the other, and stops at the first one that speaks HTTP/1.1 and
  sends a request that the parser rejects, and only there. Whenever it stops, all descriptors,
  \<open>SSL\<close> objects, the context and the library are released, except the object of every failed
  handshake, what a failed split leaves, and a library without the three functions.\<close>

theorem server_loop:
  assumes "serve_main bind ssl_ctx_new use_certificate use_private_key next_error dlopen dlsym dlerror lossy init other conns
    = (x, effects)"
  shows "if started bind ssl_ctx_new use_certificate use_private_key dlopen dlsym
    then x = Inr (map (\<lambda>c. fst (serve_connection lossy other c)) (reached lossy conns)) \<and>
      acquired effects = released effects + (\<Sum>c\<leftarrow>reached lossy conns. connection_lost c) +
        (if \<exists>c. c \<in> set conns \<and> stops lossy c then {#}
         else {#Fd (the bind), Ssl_Ctx (the ssl_ctx_new), Library dlopen#})
    else isl x \<and> acquired effects =
      released effects + library_lost bind ssl_ctx_new use_certificate use_private_key dlopen"
proof (cases "started bind ssl_ctx_new use_certificate use_private_key dlopen dlsym")
  case True
  from serve_main_started [OF this assms] True show ?thesis by (simp add: serve_loop_rounds Bex_def)
next
  case False
  from serve_main_fails [OF this assms] False show ?thesis by simp
qed

theorem server_loop_witness:
  "let c = \<lparr>cn_socket = Some 5, cn_ssl_new = Some 8, cn_set_fd = 1, cn_ssl_accept = 0, cn_alpn = None, cn_ssl_dup = None,
            cn_clone = Inl (), cn_set_fd_write = 0, cn_next_error = 3, cn_request = Inl []\<rparr>;
       effects = [Acquire (Fd 3), Acquire (Ssl_Ctx 4), Acquire (Library 6), Acquire (Fd 5), Acquire (Ssl 8), Release (Fd 5)]
   in serve_main (Some 3) (Some 4) 1 1 0 6 (\<lambda>_. 9) None id id (\<lambda>_. ()) [c :: (unit, unit) connection] =
        (Inr [No_Connection (Stream_Failed 3)], effects) \<and>
      acquired effects = released effects + {#Ssl 8#} + {#Fd 3, Ssl_Ctx 4, Library 6#}"
proof -
  let ?c = "\<lparr>cn_socket = Some 5, cn_ssl_new = Some 8, cn_set_fd = 1, cn_ssl_accept = 0, cn_alpn = None, cn_ssl_dup = None,
            cn_clone = Inl (), cn_set_fd_write = 0, cn_next_error = 3, cn_request = Inl []\<rparr> :: (unit, unit) connection"
  let ?effects = "[Acquire (Fd 3), Acquire (Ssl_Ctx 4), Acquire (Library 6), Acquire (Fd 5), Acquire (Ssl 8), Release (Fd 5)]"
  have run: "serve_main (Some 3) (Some 4) 1 1 0 6 (\<lambda>_. 9) None id id (\<lambda>_. ()) [?c] =
      (Inr [No_Connection (Stream_Failed 3)], ?effects)"
    by (simp add: serve_main_def tls_bind_def ssl_context_new_def set_key_pair_def load_plugin_def
        serve_connection_def tls_accept_def tls_stream_new_def)
  have "started (Some 3) (Some 4) 1 1 6 (\<lambda>_. 9)" and "\<not> stops id ?c" and "connection_lost ?c = {#Ssl 8#}"
    by (simp_all add: started_def stops_def speaks_http11_def connected_def connection_lost_def)
  with server_loop [OF run] run show ?thesis by (simp add: Let_def)
qed



text \<open>C21: an integer in the prefix coding of RFC 7541, with any prefix of less than eight bits, is read
  back with its length, whatever follows it.\<close>

theorem integer_roundtrip:
  assumes "byte_sink wr sent" and "bits < 8"
  shows "emits sent (write_integer wr pfx bits v) (int_wire pfx bits (unat v))
      (length (int_wire pfx bits (unat v))) \<and>
    parse_integer bits (int_wire pfx bits (unat v) @ rest) =
      Ok (v, length (int_wire pfx bits (unat v)))"
proof
  have "unat v < 2 ^ LENGTH(64)" by (rule unsigned_less)
  then have "unat v < 2 ^ 64" by simp
  from parse_int_wire [OF assms(2) this, of pfx rest]
  show "parse_integer bits (int_wire pfx bits (unat v) @ rest) = Ok (v, length (int_wire pfx bits (unat v)))"
    by simp
qed (rule byte_sink.write_integer_emits [OF assms])

theorem integer_roundtrip_witness:
  "emits id (write_integer vec_write 0 5 1337) (int_wire 0 5 (unat (1337 :: u64)))
      (length (int_wire 0 5 (unat (1337 :: u64)))) \<and>
    parse_integer 5 (int_wire 0 5 (unat (1337 :: u64)) @ [1]) =
      Ok (1337, length (int_wire 0 5 (unat (1337 :: u64))))"
  by (rule integer_roundtrip [OF slice_vec(2)]) simp

text \<open>C22: a C caller that asks for the headers of a request gets, under a name in lower case, the values
  that were sent under that name in any case, by their index in the order they came; past the
  last one, and for a name that was not sent, a code and its buffer as it was.\<close>

theorem request_headers_readable:
  assumes "byte_source rd pending" and "pending r = request_head method uri flds @ rest"
    and "visible method" and "visible uri" and "list_all field_ok flds"
    and "parse_request lossy rd r = Some (Ok req)"
    and "wf_buffer b" and "buffer_room b (if i < length (field_values flds name) then length (field_values flds name ! i) else 0)"
  shows "http_get_header_count (Some req) (const_from name) = Some (length (field_values flds name)) \<and>
    (if i < length (field_values flds name)
     then \<exists>b'. http_get_header (Some req) (const_from name) i (Some b) = Some (0, b') \<and> wf_buffer b' \<and>
       as_slice b' = field_values flds name ! i
     else http_get_header (Some req) (const_from name) i (Some b) =
       Some (if field_values flds name = [] then 1 else 2, b))"
proof -
  have heads: "rq_headers req = request_headers flds"
    by (rule byte_source.parse_head_parts(2) [OF assms(1-6)])
  then have "hm_ok (rq_headers req)" "hm_values (rq_headers req) name = field_values flds name"
    by (simp_all add: request_headers_values)
  note get = http_get_header_cases [OF this(1) assms(7), where name = name, unfolded this(2)]
  show ?thesis
  proof (cases "i < length (field_values flds name)")
    case True
    with assms(8) have "buffer_room b (length (field_values flds name ! i))" by simp
    from buf.rewrite_total [OF assms(7) this] obtain b' where
      "push_slice (clear b) (field_values flds name ! i) = Some b'" "wf_buffer b'" "as_slice b' = field_values flds name ! i"
      by blast
    with get(1) get(3) [OF True] True show ?thesis by (simp add: copy_slice_def clear_def)
  qed (use get(1) get(2) [of i] in simp)
qed

theorem request_headers_readable_witness:
  "\<exists>req b'. parse_request id slice_read (request_head (ascii ''GET'') (ascii ''/'') [(ascii ''HOST'', ascii ''h'')] @ []) = Some (Ok req) \<and>
    http_get_header_count (Some req) (const_from (ascii ''host'')) = Some 1 \<and>
    http_get_header (Some req) (const_from (ascii ''host'')) 0 (Some (empty_buffer roomy_os)) = Some (0, b') \<and>
    as_slice b' = ascii ''h''"
proof -
  let ?flds = "[(ascii ''HOST'', ascii ''h'')]"
  note [simp] = ascii_def field_values_def to_ascii_lowercase_def lower_byte_def
  have visible: "visible (ascii ''GET'')" "visible (ascii ''/'')" by (simp_all add: visible_def)
  have flds: "list_all field_ok ?flds" by (simp add: field_ok_def ascii_space_def)
  have "id (request_head (ascii ''GET'') (ascii ''/'') ?flds @ []) = request_head (ascii ''GET'') (ascii ''/'') ?flds @ []" by (rule id_apply)
  note head = this visible flds
  obtain r' where run: "\<forall>body path host. get_body_reader slice_read r' (request_headers ?flds) = Some (Ok body) \<longrightarrow>
      request_target id (ascii ''/'') (request_headers ?flds) = Ok (path, host) \<longrightarrow>
      parse_request id slice_read (request_head (ascii ''GET'') (ascii ''/'') ?flds @ []) =
        Some (Ok (request_new (ascii ''GET'') path host (1, 1) (request_headers ?flds) body))"
    by (rule slice.parse_head_ok [where lossy = id, OF head])
  obtain body where "get_body_reader slice_read r' (request_headers ?flds) = Some (Ok body)"
    by (rule slice.get_body_none [OF _ _ refl, where h = "request_headers ?flds"])
      (simp_all add: request_headers_get request_headers_values)
  moreover have "request_target id (ascii ''/'') (request_headers ?flds) = Ok (ascii ''/'', ascii ''h'')"
    by (simp add: request_target_def request_headers_get)
  ultimately obtain req where req: "parse_request id slice_read (request_head (ascii ''GET'') (ascii ''/'') ?flds @ []) = Some (Ok req)"
    using run by blast
  from request_headers_readable [OF slice_vec(1) head req roomy_buffer(1), where i = 0 and name = "ascii ''host''"] req show ?thesis
    by (auto simp: roomy_buffer)
qed

text \<open>C23: the exported parser returns on every input, without a panic: the loop over the header lines
  ends, and the caller's result holds the request, or the message of the parser when it has
  room for 128 bytes, and stays usable.\<close>

theorem request_parser_total:
  assumes "byte_source rd pending" and "wf_result res" and "buffer_room (r_err res) 128"
  shows "\<exists>q. http_parse_http11_request lossy rd (Some r) (Some res) = Some q \<and> wf_result q \<and>
    (case parse_request lossy rd r of
       Some (Ok req) \<Rightarrow> r_is_ok q \<and> r_ok q = Some req
     | Some (Err e) \<Rightarrow> \<not> r_is_ok q \<and> as_slice (r_err q) = e
     | _ \<Rightarrow> False)"
proof -
  obtain q where "http_parse_http11_request lossy rd (Some r) (Some res) = Some q" "wf_result q"
    "case parse_request lossy rd r of
       Some (Ok req) \<Rightarrow> r_is_ok q \<and> r_ok q = Some req
     | Some (Err e) \<Rightarrow> \<not> r_is_ok q \<and> as_slice (r_err q) = e
     | _ \<Rightarrow> False"
    by (rule byte_source.http_parse_reports [OF assms])
  then show ?thesis by (intro exI conjI)
qed

theorem request_parser_total_witness:
  "let res = \<lparr>r_is_ok = True, r_ok = Some (request_new [] [] [] (1, 1) [] \<lparr>bd_reader = buf_reader_new [], bd_content_length = None, bd_chunked = False\<rparr>),
      r_err = empty_buffer roomy_os\<rparr>
   in \<exists>q. http_parse_http11_request id slice_read (Some [71, 69, 255, 0]) (Some res) = Some q \<and> wf_result q"
  (is "let res = ?res in _")
proof -
  have "wf_result ?res" "buffer_room (r_err ?res) 128"
    using roomy_buffer by (simp_all add: wf_result_def)
  from request_parser_total [OF slice_vec(1) this, of id "[71, 69, 255, 0]"] show ?thesis
    unfolding Let_def by blast
qed



text \<open>C25: as long as the head fits into the 8 KiB buffer, the status function reports success whatever the
  connection does: the flush happens when the buffered writer is dropped, after the result was
  set, and its error is ignored. The count that it reports is two less than the head is long.\<close>

theorem status_reports_success:
  assumes "printed pieces (order (rw_headers w))" and "wf_result res"
    and "length (head_wire order (rw_headers w) code) < BUF_SIZE" and "100 \<le> unat code" and "unat code < 1000"
    and "bw_drop wr \<lparr>bw_buf = head_wire order (rw_headers w) code, bw_inner = rw_writer w\<rparr> = Some v"
  shows "\<exists>q. http11_write_status pieces order wr w code res = Some (w\<lparr>rw_writer := v\<rparr>, q) \<and> r_is_ok q \<and>
    r_ok q = Some (length (head_wire order (rw_headers w) code) - 2)"
proof -
  note wire = head_wire_pieces [where order = order and h = "rw_headers w" and code = code, OF assms(1)]
  let ?n = "head_count (hm_lines (order (rw_headers w))) code"
  obtain q where q: "set_ok res ?n = Some q" "r_is_ok q" "r_ok q = Some ?n"
    by (rule set_ok_spec [OF assms(2)])
  have "length (head_wire order (rw_headers w) code) = ?n + 2"
    using head_count_wire [OF assms(4,5), of order "rw_headers w"] by simp
  then have n: "length (head_wire order (rw_headers w) code) - 2 = ?n" by simp
  have "http11_write_status pieces order wr w code res = Some (w\<lparr>rw_writer := v\<rparr>, q)"
    using write_status_blind [where order = order and w = w and pieces = pieces and code = code, OF _ assms(2), of wr]
      assms(3,6) q(1) by (simp add: wire Let_def)
  with q n show ?thesis by simp
qed

text \<open>The witness: a connection that is closed, so that every write fails.\<close>

theorem status_reports_success_witness:
  "\<exists>q. http11_write_status (\<lambda>xs. [xs]) id (\<lambda>w buf. (Err WriteZero, w))
      \<lparr>rw_writer = (), rw_headers = [], rw_written = False\<rparr> 200 \<lparr>r_is_ok = True, r_ok = Some 0, r_err = empty_buffer roomy_os\<rparr>
      = Some (\<lparr>rw_writer = (), rw_headers = [], rw_written = False\<rparr>\<lparr>rw_writer := ()\<rparr>, q) \<and> r_is_ok q \<and>
    r_ok q = Some (length (head_wire id (rw_headers \<lparr>rw_writer = (), rw_headers = [], rw_written = False\<rparr>) 200) - 2)"
proof (rule status_reports_success)
  have len: "length (get_reason_phrase 200) \<le> 31" by (rule reason_phrase_plain)
  then show "length (head_wire id (rw_headers \<lparr>rw_writer = (), rw_headers = [], rw_written = False\<rparr>) 200) < BUF_SIZE"
    by (simp add: head_wire_def digits.simps BUF_SIZE_def CRLF_def)
qed (simp_all add: printed_def wf_result_def roomy_buffer bw_drop_def flush_buf_def flush_loop.simps head_wire_def CRLF_def)

text \<open>C26: no non-empty string that the library's own writer sends is read back by its reader: the
  writer puts the length behind a prefix of one bit instead of seven.\<close>

theorem string_writer_not_readable:
  assumes "s \<noteq> []" and "length (encoding s) < 2 ^ 32"
  shows "\<exists>bs. write_string vec_write s [] = (Ok (length bs), bs) \<and>
    parse_string bs out \<noteq> (Ok (length bs), s)"
  using write_string_not_read [OF assms] by blast

theorem string_writer_not_readable_witness:
  "\<exists>bs. write_string vec_write [48] [] = (Ok (length bs), bs) \<and> parse_string bs [] \<noteq> (Ok (length bs), [48])"
  by (rule string_writer_not_readable)
    (simp_all add: encoding_def code_bits_def num_bits_def HUFFMAN_CODE_LEN_def)


text \<open>C28: a header within the limits is written as nine bytes, which are read back as the header, or as
  a frame size error when its length exceeds the given maximum.\<close>

theorem header_roundtrip:
  assumes "byte_source rd pending" and "byte_sink wr sent" and "wf_header h"
  shows "emits sent (write_header wr h) (header_wire h) 9 \<and>
    yields pending (read_header settings rd) (header_wire h)
      (if h_frame_len h > setting_value (settings_get settings MaxFrameSize)
       then Err (Protocol FrameSizeError) else Ok h)"
  using byte_sink.write_header_emits [OF assms(2)] byte_source.read_header_wire [OF assms(1,3)] by simp

theorem header_roundtrip_witness:
  "emits id (write_header vec_write (ping_header \<lparr>ping_data = 1, ping_is_ack = True\<rparr>))
      (header_wire (ping_header \<lparr>ping_data = 1, ping_is_ack = True\<rparr>)) 9 \<and>
    yields id (read_header settings_default slice_read)
      (header_wire (ping_header \<lparr>ping_data = 1, ping_is_ack = True\<rparr>))
      (if h_frame_len (ping_header \<lparr>ping_data = 1, ping_is_ack = True\<rparr>)
          > setting_value (settings_get settings_default MaxFrameSize)
       then Err (Protocol FrameSizeError)
       else Ok (ping_header \<lparr>ping_data = 1, ping_is_ack = True\<rparr>))"
  by (rule header_roundtrip [OF slice_vec]) (simp add: wf_header_def ping_header_def)

text \<open>C29: a DATA frame, padded or not, is written with a length that covers the padding and is read
  back into any usable buffer: contents, end flag, and nothing of the padding.\<close>

theorem data_roundtrip:
  assumes "byte_source rd pending" and "byte_sink wr sent"
    and "data_frame_len pad xs = Some n" and "n < 0x1000000" and "length xs < 2 ^ 32" and "0 < sid" and "sid < 0x80000000"
    and "\<not> n > setting_value (settings_get s MaxFrameSize)"
    and "wf_buffer (d_data f)" and "buffer_room (d_data f) (length xs)"
    and "pending r = header_wire (data_header sid pad is_end n) @ data_payload pad xs @ rest"
  shows "emits sent (data_write_frame wr sid pad xs is_end)
      (header_wire (data_header sid pad is_end n) @ data_payload pad xs) (9 + length (data_payload pad xs)) \<and>
    (\<exists>r1 f' r2. read_header s rd r = (Ok (data_header sid pad is_end n), r1) \<and>
       data_read_frame rd (data_header sid pad is_end n) f r1 = (Ok (), (f', r2)) \<and>
       as_slice (d_data f') = xs \<and> d_is_end f' = is_end \<and> wf_buffer (d_data f') \<and> pending r2 = rest)"
proof
  let ?h = "data_header sid pad is_end n"
  show "emits sent (data_write_frame wr sid pad xs is_end) (header_wire ?h @ data_payload pad xs)
      (9 + length (data_payload pad xs))"
    by (rule byte_sink.data_write_emits [OF assms(2,3)])
  have "wf_header ?h" using assms(4,7) by (simp add: wf_header_def data_header_def)
  from yieldsD [OF byte_source.read_header_wire [OF assms(1) this, of s] assms(11)] assms(8)
  obtain r1 where 1: "read_header s rd r = (Ok ?h, r1)" and p1: "pending r1 = data_payload pad xs @ rest"
    by (auto simp: data_header_def)
  have len: "unat (h_frame_len ?h) = length (pad_prefix pad) + length xs + pad_count pad"
    using assms(3,5) by (auto simp: data_header_def data_frame_len_def unat_of_nat pad_byte_len split: option.splits dest!: add_u32_unat)
  show "\<exists>r1 f' r2. read_header s rd r = (Ok ?h, r1) \<and>
       data_read_frame rd ?h f r1 = (Ok (), (f', r2)) \<and>
       as_slice (d_data f') = xs \<and> d_is_end f' = is_end \<and> wf_buffer (d_data f') \<and> pending r2 = rest"
  proof (rule byte_source.data_read_ok [OF assms(1), of ?h pad xs f r1 "replicate (pad_count pad) 0" rest])
    show "pending r1 = pad_prefix pad @ xs @ replicate (pad_count pad) 0 @ rest"
      using p1 by (simp add: data_payload_def)
    show "h_stream_id ?h \<noteq> 0" using assms(6) by (auto simp: data_header_def)
    fix f' r2
    assume "data_read_frame rd ?h f r1 = (Ok (), (f', r2))" "wf_buffer (d_data f')"
      "as_slice (d_data f') = xs" "d_is_end f' = (h_flags ?h AND DATA_END_STREAM \<noteq> 0)" "pending r2 = rest"
    with 1 show ?thesis by (auto simp: data_flags)
  qed (use assms(9,10) len data_flags in \<open>simp_all add: data_header_def\<close>)
qed


theorem data_roundtrip_witness:
  "let f = \<lparr>d_is_end = False, d_data = empty_buffer roomy_os\<rparr>;
       w = header_wire (data_header 5 (Some 2) True 5) @ data_payload (Some 2) [8, 9]
   in emits id (data_write_frame vec_write 5 (Some 2) [8, 9] True) w (9 + length (data_payload (Some 2) [8 :: u8, 9])) \<and>
     (\<exists>r1 f' r2. read_header settings_default slice_read (w @ [1]) = (Ok (data_header 5 (Some 2) True 5), r1) \<and>
       data_read_frame slice_read (data_header 5 (Some 2) True 5) f r1 = (Ok (), (f', r2)) \<and>
       as_slice (d_data f') = [8, 9] \<and> d_is_end f' = True \<and> wf_buffer (d_data f') \<and> id r2 = [1])"
  unfolding Let_def
  by (rule data_roundtrip [OF slice_vec])
    (simp_all add: data_frame_len_def add_u32_def default_checks roomy_buffer)

text \<open>C30: a GOAWAY frame is read back: the last stream without its reserved bit, the code, the debug data.\<close>

theorem go_away_roundtrip:
  assumes "byte_source rd pending" and "byte_sink wr sent"
    and "length xs < 2 ^ 24 - 8" and "8 + length xs \<le> unat (setting_value (settings_get s MaxFrameSize))"
    and "wf_buffer (g_debug_data f)" and "buffer_room (g_debug_data f) (length xs)"
    and "wire = header_wire (go_away_header (of_nat (length xs) + 8)) @
      to_be_bytes (last_id AND 0x7FFFFFFF) @ to_be_bytes (error_code_num e) @ xs"
    and "pending r = wire @ rest"
  shows "emits sent (go_away_write_frame wr last_id e xs) wire (17 + length xs) \<and>
    (\<exists>r1 f' r2. read_header s rd r = (Ok (go_away_header (of_nat (length xs) + 8)), r1) \<and>
       go_away_read_frame rd (go_away_header (of_nat (length xs) + 8)) f r1 = (Ok (), (f', r2)) \<and>
       as_slice (g_debug_data f') = xs \<and> g_last_id f' = last_id AND 0x7FFFFFFF \<and>
       error_code_try_from (g_error_code f') = Some e \<and> pending r2 = rest)"
proof
  let ?n = "of_nat (length xs) + 8 :: u32"
  let ?h = "go_away_header ?n"
  have u: "unat (of_nat (length xs) :: u32) = length xs" using assms(3) by (simp add: unat_of_nat)
  then have add: "add_u32 (of_nat (length xs)) 8 = Some ?n" using assms(3) by (intro add_u32_total) simp
  then have n: "unat ?n = 8 + length xs" using add_u32_unat [OF add] u by simp
  show "emits sent (go_away_write_frame wr last_id e xs) wire (17 + length xs)"
    unfolding assms(7) by (rule byte_sink.go_away_write_emits [OF assms(2) add])
  have "wf_header ?h" using assms(3) n by (simp add: wf_header_def go_away_header_def word_less_nat_alt)
  moreover have "\<not> h_frame_len ?h > setting_value (settings_get s MaxFrameSize)"
    using assms(4) n by (simp add: word_less_nat_alt go_away_header_def)
  ultimately obtain r1 where 1: "read_header s rd r = (Ok ?h, r1)"
    and p1: "pending r1 = to_be_bytes (last_id AND 0x7FFFFFFF) @ to_be_bytes (error_code_num e) @ xs @ rest"
    using yieldsD [OF byte_source.read_header_wire [OF assms(1), of ?h s], of r] assms(7,8)
    by (auto simp del: append_assoc simp: append_assoc)
  show "\<exists>r1 f' r2. read_header s rd r = (Ok ?h, r1) \<and> go_away_read_frame rd ?h f r1 = (Ok (), (f', r2)) \<and>
       as_slice (g_debug_data f') = xs \<and> g_last_id f' = last_id AND 0x7FFFFFFF \<and>
       error_code_try_from (g_error_code f') = Some e \<and> pending r2 = rest"
  proof (rule byte_source.go_away_read_ok [OF assms(1), of ?h xs f r1 "last_id AND 0x7FFFFFFF"
        "error_code_num e" rest])
    fix f' r2
    assume "go_away_read_frame rd ?h f r1 = (Ok (), (f', r2))" "as_slice (g_debug_data f') = xs"
      "g_last_id f' = (last_id AND 0x7FFFFFFF) AND 0x7FFFFFFF" "g_error_code f' = error_code_num e"
      "pending r2 = rest"
    with 1 show ?thesis
      by (intro exI [of _ r1] exI [of _ f'] exI [of _ r2]) (simp add: error_code_try_from_num)
  qed (use n p1 assms(5,6) in \<open>simp_all add: go_away_header_def\<close>)
qed

theorem go_away_roundtrip_witness:
  "let f = \<lparr>g_last_id = 0, g_error_code = 0, g_debug_data = empty_buffer roomy_os\<rparr>;
       h = go_away_header (of_nat (length [9 :: u8]) + 8);
       wire = header_wire h @ to_be_bytes ((7 :: u32) AND 0x7FFFFFFF) @ to_be_bytes (error_code_num Cancel) @ [9]
   in emits id (go_away_write_frame vec_write 7 Cancel [9]) wire (17 + length [9 :: u8]) \<and>
    (\<exists>r1 f' r2. read_header settings_default slice_read (wire @ [1]) = (Ok h, r1) \<and>
       go_away_read_frame slice_read h f r1 = (Ok (), (f', r2)) \<and>
       as_slice (g_debug_data f') = [9] \<and> g_last_id f' = 7 AND 0x7FFFFFFF \<and>
       error_code_try_from (g_error_code f') = Some Cancel \<and> id r2 = [1])"
  unfolding Let_def
  by (rule go_away_roundtrip [OF slice_vec _ _ _ _ refl])
    (simp_all add: default_checks roomy_buffer)

text \<open>C31: the frames of fixed length (PING, RST_STREAM, WINDOW_UPDATE, PRIORITY) are read back as they were
  written, with the limits of the protocol on stream and increment.\<close>

theorem fixed_frames_roundtrip:
  assumes "byte_source rd pending" and "byte_sink wr sent" and "protocol_settings s"
    and "0 < sid" and "sid < 0x80000000" and "0 < inc" and "inc < 0x80000000"
    and "p_stream_dep p < 0x80000000" and "p_stream_dep p \<noteq> sid"
  shows "(\<exists>w. emits sent (ping_write_frame wr f) w 17 \<and> yields pending (read_frame_of s rd (ping_read_frame rd)) w (Ok f)) \<and>
    (\<exists>w. emits sent (rst_stream_write_frame wr sid code) w 13 \<and>
         yields pending (read_frame_of s rd (rst_stream_read_frame rd)) w (Ok code)) \<and>
    (\<exists>w. emits sent (window_update_write_frame wr sid inc) w 13 \<and>
         yields pending (read_frame_of s rd (window_update_read_frame rd)) w (Ok \<lparr>w_stream_id = sid, w_increment = inc\<rparr>)) \<and>
    (\<exists>w. emits sent (priority_write_frame wr sid p) w 14 \<and>
         yields pending (read_frame_of s rd (priority_read_frame rd)) w (Ok p))"
proof (intro conjI)
  note io = assms(1-3)
  show "\<exists>w. emits sent (ping_write_frame wr f) w 17 \<and> yields pending (read_frame_of s rd (ping_read_frame rd)) w (Ok f)"
    using ping_roundtrip [OF io] by blast
  show "\<exists>w. emits sent (rst_stream_write_frame wr sid code) w 13 \<and>
         yields pending (read_frame_of s rd (rst_stream_read_frame rd)) w (Ok code)"
    using rst_stream_roundtrip [OF io assms(4,5)] by blast
  have "inc \<noteq> 0" using assms(6) by auto
  then show "\<exists>w. emits sent (window_update_write_frame wr sid inc) w 13 \<and>
         yields pending (read_frame_of s rd (window_update_read_frame rd)) w (Ok \<lparr>w_stream_id = sid, w_increment = inc\<rparr>)"
    using window_update_roundtrip [OF io assms(5,7)] by (simp only: if_False) blast
  show "\<exists>w. emits sent (priority_write_frame wr sid p) w 14 \<and>
         yields pending (read_frame_of s rd (priority_read_frame rd)) w (Ok p)"
    using priority_roundtrip [OF io assms(4,5,8)] assms(9) by blast
qed

theorem fixed_frames_roundtrip_witness:
  "let p = \<lparr>p_stream_dep = 3, p_exclusive = True, p_weight = 9\<rparr> in
    \<exists>w. emits id (priority_write_frame vec_write 5 p) w 14 \<and>
        yields id (read_frame_of settings_default slice_read (priority_read_frame slice_read)) w (Ok p)"
  using fixed_frames_roundtrip [OF slice_vec protocol_default, of 5 70 "\<lparr>p_stream_dep = 3, p_exclusive = True, p_weight = 9\<rparr>"]
  by (simp add: Let_def)

text \<open>C32: settings that pass the checks are read back as they were; the acknowledgement as well.\<close>

theorem settings_roundtrip:
  assumes "byte_source rd pending" and "byte_sink wr sent" and "protocol_settings s"
    and "wf_settings cs" and "settings_check cs = Ok (Settings cs)"
  defines "h \<equiv> settings_header (of_nat (length (settings_payload cs))) False"
  shows "emits sent (settings_write_frame wr (Settings cs)) (header_wire h @ settings_payload cs)
      (9 + length (settings_payload cs)) \<and>
    yields pending (read_frame_of s rd (settings_read_frame rd)) (header_wire h @ settings_payload cs)
      (Ok (Settings cs)) \<and>
    emits sent (settings_write_frame wr Ack) (header_wire (settings_header 0 True)) 9 \<and>
    yields pending (read_frame_of s rd (settings_read_frame rd)) (header_wire (settings_header 0 True) @ [])
      (Ok Ack)"
proof (intro conjI)
  have len: "unat (of_nat (length (settings_payload cs)) :: u32) \<le> 36"
    using length_settings_payload [of cs] by (simp add: settings_len)
  have fits: "\<not> n > setting_value (settings_get s MaxFrameSize)" if "unat n \<le> 36" for n
    by (rule protocol_fits [OF assms(3)]) (use that in simp)
  show "yields pending (read_frame_of s rd (settings_read_frame rd)) (header_wire h @ settings_payload cs)
      (Ok (Settings cs))"
    using byte_source.settings_payload_yields [OF assms(1,4)] assms(5) len fits [OF len]
    by (intro read_frame_of_yields [OF assms(1)])
      (simp_all add: h_def settings_header_def wf_header_def word_less_nat_alt)
  show "yields pending (read_frame_of s rd (settings_read_frame rd)) (header_wire (settings_header 0 True) @ [])
      (Ok Ack)"
    using byte_source.settings_ack_yields [OF assms(1)] fits [of 0]
    by (intro read_frame_of_yields [OF assms(1)]) (simp_all add: settings_header_def wf_header_def)
qed (simp_all add: h_def byte_sink.settings_write_emits [OF assms(2)] byte_sink.settings_ack_emits [OF assms(2)])

theorem settings_roundtrip_witness:
  "let cs = settings_set settings_default MaxFrameSize 20000;
       h = settings_header (of_nat (length (settings_payload cs))) False
   in yields id (read_frame_of settings_default slice_read (settings_read_frame slice_read))
        (header_wire h @ settings_payload cs) (Ok (Settings cs))"
proof -
  have "wf_settings (settings_set settings_default MaxFrameSize 20000)"
    by (rule wf_settings_set [OF wf_settings_default])
  from settings_roundtrip [OF slice_vec protocol_default this] show ?thesis
    by (simp add: Let_def settings_check_def settings_get_set settings_get_default)
qed

text \<open>C33: a SETTINGS payload is any sequence of numbered values; unknown numbers are skipped, and of a
  number that comes twice the last value counts.\<close>

theorem settings_last_wins:
  assumes "byte_source rd pending"
    and "h_frame_type h = SETTINGS_TYPE" and "h_stream_id h = 0" and "h_flags h AND SETTINGS_ACK = 0"
    and "ps = us @ (setting_name_num n, v) # vs" and "\<forall>u. (setting_name_num n, u) \<notin> set vs"
    and "unat (h_frame_len h) = 6 * length ps"
  shows "\<exists>ss. yields pending (settings_read_frame rd h) (params_wire ps) (settings_check ss) \<and>
    setting_value (settings_get ss n) = v"
proof (intro exI conjI)
  show "yields pending (settings_read_frame rd h) (params_wire ps)
      (settings_check (fold apply_param ps settings_default))"
    by (rule byte_source.settings_read_yields [OF assms(1-4,7)])
  show "setting_value (settings_get (fold apply_param ps settings_default) n) = v"
    unfolding assms(5)
    by (subst apply_settings_get) (simp_all add: assms(6) setting_value_def set_value_def)
qed

theorem settings_last_wins_witness:
  "\<exists>ss. yields id (settings_read_frame slice_read (settings_header 18 False))
      (params_wire [(4, 1), (99, 5), (4, 2)]) (settings_check ss) \<and>
    setting_value (settings_get ss InitialWindowSize) = 2"
  by (rule settings_last_wins [OF slice_vec(1), where us = "[(4, 1), (99, 5)]" and vs = "[]"])
    (simp_all add: settings_header_def)



text \<open>C35: the writer does not refuse data beyond the 24 bits of the length field: for \<open>2 ^ 24\<close> bytes it
  sends a header that says zero, followed by all the bytes.\<close>

theorem data_length_truncated:
  assumes "byte_sink wr sent" and "length xs = 2 ^ 24"
  shows "emits sent (data_write_frame wr sid None xs e)
    (header_wire (data_header sid None e 0) @ xs) (9 + 2 ^ 24)"
proof -
  have "data_frame_len None xs = Some (of_nat (2 ^ 24))" using assms(2) by (simp add: data_frame_len_def)
  from byte_sink.data_write_emits [OF assms(1) this, of sid e] assms(2)
  show ?thesis by (simp add: data_payload_def header_wire_def data_header_def)
qed

theorem data_length_truncated_witness:
  "emits id (data_write_frame vec_write 1 None (replicate (2 ^ 24) 0) True)
    (header_wire (data_header 1 None True 0) @ replicate (2 ^ 24) 0) (9 + 2 ^ 24)"
  by (rule data_length_truncated [OF slice_vec(2)]) (rule length_replicate)


text \<open>C37: appending to a buffer of any allocator adds exactly the bytes and keeps the invariant: the
  block is large enough, and every block that was allocated but the current one was freed, once,
  with its size.\<close>

theorem buffer_append:
  assumes "wf_buffer b" and "push_slice b xs = Some b'"
  shows "wf_buffer b' \<and> as_slice b' = as_slice b @ xs \<and> replay {#} (b_calls b') = Some (live_blocks b')"
  using push_slice_wf_slice [OF assms] by (simp add: wf_buffer_def)

theorem buffer_append_witness:
  "\<exists>b'. push_slice (empty_buffer roomy_os) [1, 2, 3] = Some b' \<and> wf_buffer b' \<and>
     as_slice b' = as_slice (empty_buffer roomy_os) @ [1, 2, 3] \<and> replay {#} (b_calls b') = Some (live_blocks b')"
proof -
  obtain b' where b': "push_slice (empty_buffer roomy_os) [1, 2, 3] = Some b'"
    using buf.append_total [of "empty_buffer roomy_os" "[1, 2, 3]"] roomy_buffer
    by (auto simp: wf_length_slice empty_buffer_def)
  from buffer_append [OF roomy_buffer(1) b'] b' show ?thesis by blast
qed

text \<open>C38: clearing a buffer for good frees its block with the size it was allocated with, leaves no
  block live, and leaves an empty buffer that can be used again.\<close>

theorem buffer_free:
  assumes "wf_buffer b"
  shows "\<exists>b'. http_clear_buffer (Some b) = Some b' \<and> wf_buffer b' \<and> as_slice b' = [] \<and>
    replay {#} (b_calls b') = Some {#}"
  using http_clear_buffer_wf [OF assms] by metis

theorem buffer_free_witness:
  "\<exists>b'. http_clear_buffer (Some (empty_buffer roomy_os)) = Some b' \<and> wf_buffer b' \<and> as_slice b' = [] \<and>
    replay {#} (b_calls b') = Some {#}"
  by (rule buffer_free [OF roomy_buffer(1)])





end
